(* ===== verification/Prelude.thy ===== *)
theory Prelude
  imports Main "HOL-Library.AList" "HOL-Library.Word" "HOL-Library.Char_ord" "HOL-Library.Code_Target_Numeral"
begin

text \<open>
  What every component of the development shares: the named collections of facts, Go's
  signed 64-bit wrap-around, the instants and durations of package \<open>time\<close>, decimal
  printing, and Go maps.

  A Go \<open>map\<close> is an association list with distinct keys. Go leaves the iteration order
  unspecified; the order of the list is one possible order, and the theorems speak of
  lookups, key sets and lengths, which do not depend on it. The interface of a map is the
  locale \<open>go_map\<close>, interpreted on the association lists at the end.
\<close>

named_theorems wf_intro \<open>how an operation establishes or keeps a well-formedness invariant\<close>
named_theorems branch \<open>functional behaviour of an operation, one equation per branch\<close>

subsection \<open>Machine integers, time\<close>

definition wrap64 :: "int \<Rightarrow> int" where
  "wrap64 x = (x + 2 ^ 63) mod 2 ^ 64 - 2 ^ 63"

lemma wrap64_id: "- (2 ^ 63) \<le> x \<Longrightarrow> x < 2 ^ 63 \<Longrightarrow> wrap64 x = x"
  by (simp add: wrap64_def)

lemma wrap64_range: "- (2 ^ 63) \<le> wrap64 x \<and> wrap64 x < 2 ^ 63"
proof -
  have "0 \<le> (x + 2 ^ 63) mod 2 ^ 64" and "(x + 2 ^ 63) mod 2 ^ 64 < 2 ^ 64" by simp_all
  then show ?thesis by (simp add: wrap64_def)
qed

text \<open>
  An instant (\<open>time.Time\<close>) is a number of nanoseconds since the Unix epoch; the zero
  \<open>Time\<close> is January 1 of year 1. A \<open>time.Duration\<close> is a signed 64-bit
  number of nanoseconds, so \<open>time.Duration(n) * time.Second\<close> wraps around.
\<close>

type_synonym instant = int
type_synonym duration = int

definition zero_time :: instant where
  "zero_time = - 62135596800 * 1000000000"

definition time_second :: duration where
  [simp]: "time_second = 1000000000"

definition seconds :: "int \<Rightarrow> duration" where
  "seconds n = wrap64 (n * time_second)"

lemma seconds_exact: "0 \<le> n \<Longrightarrow> n \<le> 9223372036 \<Longrightarrow> seconds n = n * 1000000000"
  by (simp add: seconds_def wrap64_id)

text \<open>\<open>Time.Sub\<close> saturates.\<close>

definition time_sub :: "instant \<Rightarrow> instant \<Rightarrow> duration" where
  "time_sub a b = max (- (2 ^ 63)) (min (2 ^ 63 - 1) (a - b))"

lemma time_sub_mono: "a \<le> b \<Longrightarrow> time_sub a t \<le> time_sub b t"
  by (auto simp: time_sub_def)

subsection \<open>Decimal printing\<close>

definition digit_char :: "nat \<Rightarrow> char" where
  "digit_char d = char_of (48 + d)"

fun show_nat :: "nat \<Rightarrow> string" where
  "show_nat n = (if n < 10 then [digit_char n]
                 else show_nat (n div 10) @ [digit_char (n mod 10)])"

declare show_nat.simps [simp del]
declare show_nat.simps [code]

definition show_int :: "int \<Rightarrow> string" where
  "show_int i = (if i < 0 then CHR ''-'' # show_nat (nat (- i)) else show_nat (nat i))"

definition digit_val :: "char \<Rightarrow> nat" where
  "digit_val c = of_char c - 48"

fun read_digits :: "string \<Rightarrow> nat \<Rightarrow> nat" where
  "read_digits [] acc = acc"
| "read_digits (c # cs) acc = read_digits cs (10 * acc + digit_val c)"

lemma digit_val_char: "d < 10 \<Longrightarrow> digit_val (digit_char d) = d"
  by (simp add: digit_val_def digit_char_def)

lemma read_digits_append: "read_digits (xs @ ys) acc = read_digits ys (read_digits xs acc)"
  by (induction xs arbitrary: acc) auto

lemma read_show_nat: "read_digits (show_nat n) 0 = n"
proof (induction n rule: show_nat.induct)
  case (1 n)
  show ?case
  proof (cases "n < 10")
    case True
    then show ?thesis by (simp add: show_nat.simps [of n] digit_val_char)
  next
    case False
    with 1 have "read_digits (show_nat (n div 10)) 0 = n div 10" by simp
    with False show ?thesis
      by (simp add: show_nat.simps [of n] read_digits_append digit_val_char)
  qed
qed

lemma show_nat_inject [simp]: "show_nat m = show_nat n \<longleftrightarrow> m = n"
  by (metis read_show_nat)

lemma show_nat_digits: "c \<in> set (show_nat n) \<Longrightarrow> 48 \<le> (of_char c :: nat) \<and> (of_char c :: nat) \<le> 57"
proof (induction n rule: show_nat.induct)
  case (1 n)
  show ?case
  proof (cases "n < 10")
    case True
    with "1.prems" show ?thesis by (simp add: show_nat.simps [of n] digit_char_def)
  next
    case False
    have "n mod 10 < 10" by simp
    with False 1 show ?thesis by (auto simp: show_nat.simps [of n] digit_char_def)
  qed
qed

subsection \<open>Go maps\<close>

type_synonym ('k, 'v) gomap = "('k \<times> 'v) list"

abbreviation mget :: "('k, 'v) gomap \<Rightarrow> 'k \<Rightarrow> 'v option" where
  "mget \<equiv> map_of"

abbreviation mput :: "'k \<Rightarrow> 'v \<Rightarrow> ('k, 'v) gomap \<Rightarrow> ('k, 'v) gomap" where
  "mput \<equiv> AList.update"

abbreviation mdel :: "'k \<Rightarrow> ('k, 'v) gomap \<Rightarrow> ('k, 'v) gomap" where
  "mdel \<equiv> AList.delete"

abbreviation mkeys :: "('k, 'v) gomap \<Rightarrow> 'k list" where
  "mkeys m \<equiv> map fst m"

definition mwf :: "('k, 'v) gomap \<Rightarrow> bool" where
  "mwf m \<longleftrightarrow> distinct (mkeys m)"

lemma mwf_empty [simp, wf_intro]: "mwf []"
  by (simp add: mwf_def)

lemma mwf_put [simp, wf_intro]: "mwf m \<Longrightarrow> mwf (mput k v m)"
  by (simp add: mwf_def distinct_update)

lemma mwf_del [simp, wf_intro]: "mwf m \<Longrightarrow> mwf (mdel k m)"
  by (simp add: mwf_def distinct_delete)

lemma mget_put: "mget (mput k v m) k' = (if k = k' then Some v else mget m k')"
  by (simp add: update_conv)

lemma mget_del: "mget (mdel k m) k' = (if k = k' then None else mget m k')"
  by (simp add: delete_conv)

lemma dom_mput [simp]: "dom (mget (mput k v m)) = insert k (dom (mget m))"
  by (auto simp: mget_put)

lemma dom_mdel [simp]: "dom (mget (mdel k m)) = dom (mget m) - {k}"
  by (auto simp: mget_del split: if_splits)

lemma length_mput:
  "mwf m \<Longrightarrow> length (mput k v m) = (if k \<in> set (mkeys m) then length m else Suc (length m))"
  by (induction m) (auto simp: mwf_def)

lemma mget_None_iff: "mget m k = None \<longleftrightarrow> k \<notin> set (mkeys m)"
  by (simp add: map_of_eq_None_iff image_def)

lemma mget_Some_in: "mwf m \<Longrightarrow> mget m k = Some v \<longleftrightarrow> (k, v) \<in> set m"
  by (simp add: mwf_def)

lemma mkeys_del: "mkeys (mdel k m) = filter (\<lambda>x. x \<noteq> k) (mkeys m)"
  by (induction m) auto

lemma set_mkeys_put: "set (mkeys (mput k v m)) = insert k (set (mkeys m))"
  by (induction m) auto

lemma length_mdel:
  "mwf m \<Longrightarrow> length (mdel k m) = (if k \<in> set (mkeys m) then length m - 1 else length m)"
proof (induction m)
  case Nil
  then show ?case by simp
next
  case (Cons p m)
  have len: "length (mdel k m) = length (mkeys (mdel k m))" by simp
  from Cons show ?case
  proof (cases "fst p = k")
    case True
    with Cons.prems have "k \<notin> set (mkeys m)" by (auto simp: mwf_def)
    then have "mkeys (mdel k m) = mkeys m"
      unfolding mkeys_del by (auto intro: filter_True)
    then have "length (mdel k m) = length m" by (metis length_map)
    with True show ?thesis by (cases p) (auto simp: AList.delete_eq)
  next
    case False
    with Cons show ?thesis by (cases p) (auto simp: mwf_def Suc_pred' dest: length_pos_if_in_set)
  qed
qed

lemma mwf_filter: "mwf m \<Longrightarrow> mwf (filter P m)"
  by (simp add: mwf_def distinct_map_filter)

lemma mput_new: "k \<notin> set (mkeys m) \<Longrightarrow> mput k v m = m @ [(k, v)]"
  by (induction m) auto

text \<open>
  The interface of a map: what the components rely on. The lemmas below it are proved once
  from the laws and used through the interpretation \<open>am\<close>.
\<close>

locale go_map =
  fixes get :: "'m \<Rightarrow> 'k \<Rightarrow> 'v option"
    and put :: "'k \<Rightarrow> 'v \<Rightarrow> 'm \<Rightarrow> 'm"
    and del :: "'k \<Rightarrow> 'm \<Rightarrow> 'm"
    and size_of :: "'m \<Rightarrow> nat"
    and wf :: "'m \<Rightarrow> bool"
  assumes get_put: "get (put k v m) k' = (if k = k' then Some v else get m k')"
    and get_del: "get (del k m) k' = (if k = k' then None else get m k')"
    and wf_put: "wf m \<Longrightarrow> wf (put k v m)"
    and wf_del: "wf m \<Longrightarrow> wf (del k m)"
    and size_put: "wf m \<Longrightarrow> size_of (put k v m) = (if get m k = None then Suc (size_of m) else size_of m)"
    and size_del: "wf m \<Longrightarrow> size_of (del k m) = (if get m k = None then size_of m else size_of m - 1)"
begin

definition put_if :: "('v option \<Rightarrow> bool) \<Rightarrow> 'k \<Rightarrow> 'v \<Rightarrow> 'm \<Rightarrow> 'm" where
  "put_if c k v m = (if c (get m k) then put k v m else m)"

lemma get_put_if: "get (put_if c k v m) k' =
    (if k = k' \<and> c (get m k) then Some v else get m k')"
  by (simp add: put_if_def get_put)

lemma wf_put_if: "wf m \<Longrightarrow> wf (put_if c k v m)"
  by (simp add: put_if_def wf_put)

text \<open>
  Keeping the entry of greater rank: the stored rank never falls, other keys are untouched,
  and doing the same update twice changes nothing more.
\<close>

lemma put_if_rank_mono:
  fixes rank :: "'v \<Rightarrow> int"
  assumes "get m k' = Some w"
  shows "\<exists>w'. get (put_if (\<lambda>old. case old of None \<Rightarrow> True | Some u \<Rightarrow> rank u \<le> rank v) k v m) k' = Some w'
    \<and> rank w \<le> rank w'"
  using assms by (auto simp: get_put_if split: option.splits)

lemma put_present_size: "wf m \<Longrightarrow> get m k = Some u \<Longrightarrow> size_of (put k v m) = size_of m"
  by (simp add: size_put)

lemma capped_put_size:
  "wf m \<Longrightarrow> size_of m \<le> cap \<Longrightarrow> get m k \<noteq> None \<or> size_of m < cap \<Longrightarrow> size_of (put k v m) \<le> cap"
  by (auto simp: size_put)

lemma del_size: "wf m \<Longrightarrow> size_of m \<le> cap \<Longrightarrow> size_of (del k m) \<le> cap"
  by (auto simp: size_del)

end

interpretation am: go_map mget mput mdel length mwf
proof unfold_locales
  fix k :: 'k and m :: "('k, 'v) gomap" and v :: 'v
  assume "mwf m"
  then show "length (mput k v m) = (if mget m k = None then Suc (length m) else length m)"
    by (simp add: length_mput mget_None_iff)
next
  fix k :: 'k and m :: "('k, 'v) gomap"
  assume "mwf m"
  then show "length (mdel k m) = (if mget m k = None then length m else length m - 1)"
    by (simp add: length_mdel mget_None_iff)
qed (auto simp: mget_put mget_del)

text \<open>
  A component driven by a sequence of operations: each operation keeps an invariant. Whatever
  relation every single operation respects holds between the first and the last state of a run.
\<close>

locale machine =
  fixes run :: "'o \<Rightarrow> 's \<Rightarrow> 's" and ok :: "'s \<Rightarrow> bool"
  assumes run_ok: "ok s \<Longrightarrow> ok (run op s)"
begin

lemma runs_ok: "ok s \<Longrightarrow> ok (fold run ops s)"
  by (induction ops arbitrary: s) (auto simp: run_ok)

lemma runs_rel:
  assumes step: "\<And>op s. ok s \<Longrightarrow> R s (run op s)" and refl: "\<And>s. R s s"
    and trans: "\<And>s t u. R s t \<Longrightarrow> R t u \<Longrightarrow> R s u" and s: "ok s"
  shows "R s (fold run ops s)"
  using s
proof (induction ops arbitrary: s)
  case (Cons op ops)
  have "R s (run op s)" by (rule step [OF Cons.prems])
  moreover have "R (run op s) (fold run ops (run op s))" by (rule Cons.IH [OF run_ok [OF Cons.prems]])
  ultimately show ?case using trans by auto
qed (simp add: refl)

lemma runs_measure_mono:
  fixes m :: "'s \<Rightarrow> nat"
  assumes "\<And>op s. ok s \<Longrightarrow> m s \<le> m (run op s)" and "ok s"
  shows "m s \<le> m (fold run ops s)"
  by (rule runs_rel [where R = "\<lambda>s t. m s \<le> m t"]) (use assms in auto)

end

end
