(* ===== verification/GoNet.thy ===== *)
theory GoNet
  imports GoStrings
begin

unbundle bit_operations_syntax

text \<open>
  The part of Go's \<open>net\<close>, \<open>net/netip\<close> and \<open>encoding/hex\<close>
  packages the program uses: hexadecimal text, hardware addresses, IP addresses and
  prefixes, with the parsers' own acceptance conditions.
\<close>

type_synonym byte = "8 word"

subsection \<open>Hexadecimal text\<close>

definition hex_val :: "char \<Rightarrow> nat option" where
  "hex_val c = (let n = of_char c :: nat in
     if 48 \<le> n \<and> n \<le> 57 then Some (n - 48)
     else if 97 \<le> n \<and> n \<le> 102 then Some (n - 87)
     else if 65 \<le> n \<and> n \<le> 70 then Some (n - 55)
     else None)"

definition hex_digit :: "nat \<Rightarrow> char" where
  "hex_digit v = (if v < 10 then char_of (48 + v) else char_of (87 + v))"

definition is_hex :: "char \<Rightarrow> bool" where
  "is_hex c = (hex_val c \<noteq> None)"

text \<open>The byte with the given high and low halves.\<close>

definition nib :: "nat \<Rightarrow> nat \<Rightarrow> byte" where
  "nib h l = of_nat (16 * h + l)"

definition hex2 :: "byte \<Rightarrow> string" where
  "hex2 b = [hex_digit (unat b div 16), hex_digit (unat b mod 16)]"

definition hex_encode :: "byte list \<Rightarrow> string" where
  "hex_encode bs = concat (map hex2 bs)"

fun hex_decode :: "string \<Rightarrow> byte list option" where
  "hex_decode [] = Some []"
| "hex_decode [c] = None"
| "hex_decode (c # d # cs) =
     (case (hex_val c, hex_val d) of
        (Some h, Some l) \<Rightarrow> map_option (\<lambda>bs. nib h l # bs) (hex_decode cs)
      | _ \<Rightarrow> None)"

lemma hex_val_less: "hex_val c = Some v \<Longrightarrow> v < 16"
  by (auto simp: hex_val_def Let_def split: if_splits)

lemma hex_val_digit [simp]: "v < 16 \<Longrightarrow> hex_val (hex_digit v) = Some v"
  by (simp add: hex_val_def hex_digit_def Let_def)

lemma hex_digit_val: "hex_val c = Some v \<Longrightarrow> hex_digit v = to_lower_char c"
  by (auto simp: hex_val_def hex_digit_def to_lower_char_def Let_def split: if_splits)

lemma hex_val_lower [simp]: "hex_val (to_lower_char c) = hex_val c"
  by (auto simp: hex_val_def to_lower_char_def Let_def)

lemma hex_digit_lower [simp]: "v < 16 \<Longrightarrow> to_lower_char (hex_digit v) = hex_digit v"
  using hex_digit_val [of "hex_digit v" v] by simp

lemma unat_byte_less [simp]: "unat (b :: byte) < 256"
  using unsigned_less [of b] by simp

lemma byte_nibbles [simp]:
  "unat (b :: byte) div 16 < 16" "unat b mod 16 < 16"
  by (simp_all add: less_mult_imp_div_less)

lemma byte_of_nibbles: "h < 16 \<Longrightarrow> l < 16 \<Longrightarrow> unat (nib h l) = 16 * h + l"
  unfolding nib_def by (simp only: unat_of_nat) simp

lemma byte_split [simp]: "nib (unat b div 16) (unat b mod 16) = b"
proof -
  have "16 * (unat b div 16) + unat b mod 16 = unat b" by simp
  then show ?thesis unfolding nib_def by simp
qed

lemma hex2_nibbles: "h < 16 \<Longrightarrow> l < 16 \<Longrightarrow> hex2 (nib h l) = [hex_digit h, hex_digit l]"
  unfolding hex2_def by (simp only: byte_of_nibbles) simp

lemma hex2_lower [simp]: "to_lower (hex2 b) = hex2 b"
  by (simp add: hex2_def to_lower_def)

lemma hex_decode_encode [simp]: "hex_decode (hex_encode bs) = Some bs"
proof (induction bs)
  case Nil
  then show ?case by (simp add: hex_encode_def)
next
  case (Cons b bs)
  have "hex_encode (b # bs) = hex2 b @ hex_encode bs" by (simp add: hex_encode_def)
  then show ?case using Cons by (simp add: hex2_def)
qed

lemma hex_encode_decode: "hex_decode s = Some bs \<Longrightarrow> hex_encode bs = to_lower s"
proof (induction s arbitrary: bs rule: hex_decode.induct)
  case (3 c d cs)
  from "3.prems" obtain h l cs' where h: "hex_val c = Some h" and l: "hex_val d = Some l"
    and cs': "hex_decode cs = Some cs'" and bs: "bs = nib h l # cs'"
    by (auto split: option.splits)
  from "3.IH" [OF _ h l cs'] have "hex_encode cs' = to_lower cs" by simp
  with h l bs show ?case
    by (simp add: hex_encode_def hex2_nibbles hex_val_less hex_digit_val to_lower_def)
qed (auto simp: hex_encode_def)

lemma hex_decode_lower [simp]: "hex_decode (to_lower s) = hex_decode s"
  by (induction s rule: hex_decode.induct) (auto simp: to_lower_def split: option.splits)

lemma length_hex_encode [simp]: "length (hex_encode bs) = 2 * length bs"
  by (induction bs) (auto simp: hex_encode_def hex2_def)

lemma is_hex_hex_digit [simp]: "v < 16 \<Longrightarrow> is_hex (hex_digit v)"
  by (simp add: is_hex_def)

lemma is_hex_lower [simp]: "is_hex (to_lower_char c) = is_hex c"
  by (simp add: is_hex_def)

lemma is_hex_hex_encode: "c \<in> set (hex_encode bs) \<Longrightarrow> is_hex c"
  by (auto simp: hex_encode_def hex2_def)

lemma hex_decode_total:
  "\<forall>c \<in> set s. is_hex c \<Longrightarrow> length s = 2 * n \<Longrightarrow> \<exists>bs. hex_decode s = Some bs \<and> length bs = n"
proof (induction s arbitrary: n rule: hex_decode.induct)
  case (3 c d cs)
  then obtain m where "n = Suc m" by (cases n) auto
  with 3 show ?case by (fastforce simp: is_hex_def split: option.splits)
qed auto

subsection \<open>Hardware addresses (\<open>net.ParseMAC\<close>, \<open>HardwareAddr.String\<close>)\<close>

definition is_mac_sep :: "char \<Rightarrow> bool" where
  "is_mac_sep c = (c = CHR '':'' \<or> c = CHR ''-'' \<or> c = CHR ''.'')"

text \<open>\<open>xtoi2\<close>: two hex digits, followed by the given separator when anything follows.\<close>

definition xtoi2 :: "string \<Rightarrow> char option \<Rightarrow> byte option" where
  "xtoi2 s e =
     (if length s > 2 \<and> Some (s ! 2) \<noteq> e then None
      else case s of c # d # _ \<Rightarrow>
             (case (hex_val c, hex_val d) of
                (Some h, Some l) \<Rightarrow> Some (nib h l) | _ \<Rightarrow> None)
           | _ \<Rightarrow> None)"

fun mac_pairs :: "nat \<Rightarrow> char \<Rightarrow> string \<Rightarrow> byte list option" where
  "mac_pairs 0 e s = Some []"
| "mac_pairs (Suc n) e s =
     (case xtoi2 s (Some e) of None \<Rightarrow> None
      | Some b \<Rightarrow> map_option (Cons b) (mac_pairs n e (drop 3 s)))"

fun mac_quads :: "nat \<Rightarrow> string \<Rightarrow> byte list option" where
  "mac_quads 0 s = Some []"
| "mac_quads (Suc n) s =
     (case xtoi2 (take 2 s) None of None \<Rightarrow> None
      | Some a \<Rightarrow> (case xtoi2 (drop 2 s) (Some (CHR ''.'')) of None \<Rightarrow> None
          | Some b \<Rightarrow> map_option (\<lambda>bs. a # b # bs) (mac_quads n (drop 5 s))))"

definition parse_mac :: "string \<Rightarrow> byte list option" where
  "parse_mac s =
     (if length s < 14 then None
      else if s ! 2 = CHR '':'' \<or> s ! 2 = CHR ''-'' then
        (if (length s + 1) mod 3 \<noteq> 0 then None
         else let n = (length s + 1) div 3 in
           if n \<noteq> 6 \<and> n \<noteq> 8 \<and> n \<noteq> 20 then None else mac_pairs n (s ! 2) s)
      else if s ! 4 = CHR ''.'' then
        (if (length s + 1) mod 5 \<noteq> 0 then None
         else let n = 2 * (length s + 1) div 5 in
           if n \<noteq> 6 \<and> n \<noteq> 8 \<and> n \<noteq> 20 then None else mac_quads (n div 2) s)
      else None)"

definition mac_string :: "byte list \<Rightarrow> string" where
  "mac_string bs = join '':'' (map hex2 bs)"

definition mac_hex :: "string \<Rightarrow> string" where
  "mac_hex s = filter (\<lambda>c. \<not> is_mac_sep c) s"

lemma mac_seps [simp]: "is_mac_sep (CHR '':'')" "is_mac_sep (CHR ''-'')" "is_mac_sep (CHR ''.'')"
  by (simp_all add: is_mac_sep_def)

lemma hex_not_sep [simp]: "is_hex c \<Longrightarrow> \<not> is_mac_sep c"
  by (auto simp: is_hex_def is_mac_sep_def hex_val_def)

lemma hex_not_space [simp]: "is_hex c \<Longrightarrow> \<not> is_space c"
  by (auto simp: is_hex_def is_space_def hex_val_def Let_def split: if_splits)

lemma sep_not_space [simp]: "is_mac_sep c \<Longrightarrow> \<not> is_space c"
  by (auto simp: is_mac_sep_def is_space_def)

lemma mac_hex_append: "mac_hex (s @ t) = mac_hex s @ mac_hex t"
  by (simp add: mac_hex_def)

lemma mac_hex_id: "\<forall>c \<in> set s. is_hex c \<Longrightarrow> mac_hex s = s"
  by (auto simp: mac_hex_def intro: filter_True)

lemma mac_hex_hex2 [simp]: "mac_hex (hex2 b) = hex2 b"
  by (auto simp: hex2_def mac_hex_def)

lemma xtoi2_Some:
  assumes "xtoi2 s e = Some b"
  shows "\<exists>c d t. s = c # d # t \<and> is_hex c \<and> is_hex d \<and> hex2 b = [to_lower_char c, to_lower_char d]
           \<and> (t \<noteq> [] \<longrightarrow> Some (hd t) = e)"
proof -
  from assms obtain c d t where s: "s = c # d # t"
    by (auto simp: xtoi2_def split: if_splits list.splits)
  with assms obtain h l where "hex_val c = Some h" "hex_val d = Some l" "b = nib h l"
    by (auto simp: xtoi2_def split: if_splits option.splits)
  moreover from assms s have "t \<noteq> [] \<longrightarrow> Some (hd t) = e"
    by (cases t) (auto simp: xtoi2_def split: if_splits)
  ultimately show ?thesis using s
    by (auto simp: hex2_nibbles hex_val_less hex_digit_val is_hex_def)
qed

lemma mac_pairs_hex:
  "mac_pairs n e s = Some bs \<Longrightarrow> is_mac_sep e \<Longrightarrow> length s + 1 = 3 * n \<Longrightarrow>
     length bs = n \<and> to_lower (mac_hex s) = hex_encode bs"
proof (induction n arbitrary: s bs)
  case 0
  then show ?case by simp
next
  case (Suc n)
  from Suc.prems obtain b bs' where b: "xtoi2 s (Some e) = Some b"
    and bs': "mac_pairs n e (drop 3 s) = Some bs'" and bs: "bs = b # bs'"
    by (auto split: option.splits)
  from xtoi2_Some [OF b] obtain c d t where s: "s = c # d # t" and "is_hex c" "is_hex d"
    and h2: "hex2 b = [to_lower_char c, to_lower_char d]" and sep: "t \<noteq> [] \<longrightarrow> hd t = e" by auto
  show ?case
  proof (cases t)
    case Nil
    with s Suc.prems have "n = 0" by simp
    with bs bs' Nil s h2 \<open>is_hex c\<close> \<open>is_hex d\<close> show ?thesis
      by (simp add: hex_encode_def mac_hex_def to_lower_def)
  next
    case (Cons x u)
    with s Suc.prems sep have "length u + 1 = 3 * n" "x = e" by auto
    moreover from Cons s have "drop 3 s = u" by (simp add: numeral_3_eq_3)
    ultimately have "length bs' = n \<and> to_lower (mac_hex u) = hex_encode bs'"
      using Suc.IH [of u bs'] bs' Suc.prems by simp
    with bs Cons s h2 \<open>is_hex c\<close> \<open>is_hex d\<close> \<open>x = e\<close> Suc.prems(2) show ?thesis
      by (simp add: hex_encode_def mac_hex_def to_lower_def)
  qed
qed

lemma mac_quads_hex:
  "mac_quads n s = Some bs \<Longrightarrow> length s + 1 = 5 * n \<Longrightarrow>
     length bs = 2 * n \<and> to_lower (mac_hex s) = hex_encode bs"
proof (induction n arbitrary: s bs)
  case 0
  then show ?case by simp
next
  case (Suc n)
  from Suc.prems obtain a b bs' where a: "xtoi2 (take 2 s) None = Some a"
    and b: "xtoi2 (drop 2 s) (Some (CHR ''.'')) = Some b"
    and bs': "mac_quads n (drop 5 s) = Some bs'" and bs: "bs = a # b # bs'"
    by (auto split: option.splits)
  from xtoi2_Some [OF a] obtain c d t0 where s0: "take 2 s = c # d # t0" and "is_hex c" "is_hex d"
    and ha: "hex2 a = [to_lower_char c, to_lower_char d]" by auto
  from xtoi2_Some [OF b] obtain c' d' t where s1: "drop 2 s = c' # d' # t" and "is_hex c'" "is_hex d'"
    and hb: "hex2 b = [to_lower_char c', to_lower_char d']" and sep: "t \<noteq> [] \<longrightarrow> hd t = CHR ''.''" by auto
  from s0 have "length (c # d # t0) \<le> 2" by (metis length_take min.cobounded2)
  then have s: "s = c # d # c' # d' # t"
    using s0 s1 append_take_drop_id [of 2 s] by simp
  have hexs: "hex_encode bs = map to_lower_char [c, d, c', d'] @ hex_encode bs'"
    using bs ha hb by (simp add: hex_encode_def)
  show ?case
  proof (cases t)
    case Nil
    with s Suc.prems have "n = 0" by simp
    with bs bs' Nil s hexs \<open>is_hex c\<close> \<open>is_hex d\<close> \<open>is_hex c'\<close> \<open>is_hex d'\<close> show ?thesis
      by (simp add: hex_encode_def mac_hex_def to_lower_def)
  next
    case (Cons x u)
    with s Suc.prems sep have "length u + 1 = 5 * n" "x = CHR ''.''" by auto
    moreover from Cons s have "drop 5 s = u" by (simp add: eval_nat_numeral)
    ultimately have "length bs' = 2 * n \<and> to_lower (mac_hex u) = hex_encode bs'"
      using Suc.IH [of u bs'] bs' by simp
    with bs Cons s hexs \<open>is_hex c\<close> \<open>is_hex d\<close> \<open>is_hex c'\<close> \<open>is_hex d'\<close> \<open>x = CHR ''.''\<close> show ?thesis
      by (simp add: mac_hex_def to_lower_def)
  qed
qed

lemma parse_mac_hex:
  assumes "parse_mac s = Some bs"
  shows "to_lower (mac_hex s) = hex_encode bs" and "length bs \<in> {6, 8, 20}"
proof -
  have "to_lower (mac_hex s) = hex_encode bs \<and> length bs \<in> {6, 8, 20}"
  proof (cases "s ! 2 = CHR '':'' \<or> s ! 2 = CHR ''-''")
    case True
    let ?n = "(length s + 1) div 3"
    from True assms have "(length s + 1) mod 3 = 0" and n: "?n \<in> {6, 8, 20}"
      and p: "mac_pairs ?n (s ! 2) s = Some bs"
      by (auto simp: parse_mac_def Let_def split: if_splits)
    then have "length s + 1 = 3 * ?n" by (metis mult_div_mod_eq add.right_neutral)
    with mac_pairs_hex [OF p] True n show ?thesis by (auto simp: is_mac_sep_def)
  next
    case False
    let ?n = "2 * (length s + 1) div 5"
    from False assms have m: "(length s + 1) mod 5 = 0" and n: "?n \<in> {6, 8, 20}"
      and p: "mac_quads (?n div 2) s = Some bs"
      by (auto simp: parse_mac_def Let_def split: if_splits)
    from m n have "length s + 1 = 5 * (?n div 2)" and "2 * (?n div 2) = ?n" by auto
    with mac_quads_hex [OF p] n show ?thesis by auto
  qed
  then show "to_lower (mac_hex s) = hex_encode bs" and "length bs \<in> {6, 8, 20}" by auto
qed

lemma mac_pairs_string:
  "bs \<noteq> [] \<Longrightarrow> is_mac_sep e \<Longrightarrow> mac_pairs (length bs) e (join [e] (map hex2 bs)) = Some bs"
proof (induction bs rule: induct_list012)
  case (2 b)
  then show ?case by (simp add: xtoi2_def hex2_def)
next
  case (3 a b bs)
  let ?r = "join [e] (map hex2 (b # bs))"
  have "join [e] (map hex2 (a # b # bs)) = hex2 a @ e # ?r" by simp
  moreover have "drop 3 (hex2 a @ e # ?r) = ?r" by (simp add: hex2_def)
  moreover have "xtoi2 (hex2 a @ e # ?r) (Some e) = Some a"
    by (simp add: xtoi2_def hex2_def)
  ultimately show ?case using 3 by simp
qed simp

lemma length_mac_string: "bs \<noteq> [] \<Longrightarrow> length (join [e] (map hex2 bs)) + 1 = 3 * length bs"
  by (induction bs rule: induct_list012) (auto simp: hex2_def)

lemma mac_string_nth2:
  "length bs \<ge> 2 \<Longrightarrow> join [e] (map hex2 bs) ! 2 = e"
  by (induction bs rule: induct_list012) (auto simp: hex2_def)

lemma parse_mac_joined:
  assumes "length bs \<in> {6, 8, 20}" and "e = CHR '':'' \<or> e = CHR ''-''"
  shows "parse_mac (join [e] (map hex2 bs)) = Some bs"
proof -
  let ?s = "join [e] (map hex2 bs)"
  have ne: "bs \<noteq> []" using assms by auto
  have len: "length ?s + 1 = 3 * length bs" using length_mac_string [OF ne] .
  then have "(length ?s + 1) mod 3 = 0" and "(length ?s + 1) div 3 = length bs" by simp_all
  moreover have "?s ! 2 = e" using mac_string_nth2 assms by auto
  moreover have "\<not> length ?s < 14" using len assms by auto
  moreover have "mac_pairs (length bs) e ?s = Some bs"
    using mac_pairs_string [OF ne] assms by (auto simp: is_mac_sep_def)
  ultimately show ?thesis using assms by (simp add: parse_mac_def Let_def)
qed

lemma parse_mac_string: "length bs \<in> {6, 8, 20} \<Longrightarrow> parse_mac (mac_string bs) = Some bs"
  unfolding mac_string_def by (rule parse_mac_joined) auto

lemma set_join: "set (join sep xs) \<subseteq> set sep \<union> \<Union> (set ` set xs)"
  by (induction sep xs rule: join.induct) auto

lemma mac_string_chars: "c \<in> set (mac_string bs) \<Longrightarrow> is_hex c \<or> c = CHR '':''"
  unfolding mac_string_def
  by (drule set_mp [OF set_join]) (auto simp: hex2_def)

lemma mac_string_no_space: "\<forall>c \<in> set (mac_string bs). \<not> is_space c"
  using mac_string_chars sep_not_space hex_not_space mac_seps by blast

lemma to_lower_mac_string [simp]: "to_lower (mac_string bs) = mac_string bs"
proof -
  have "to_lower_char c = c" if "c \<in> set (hex2 b)" for c b
    using that by (auto simp: hex2_def)
  then have "to_lower (hex2 b) = hex2 b" for b by simp
  moreover have "to_lower (join '':'' (map hex2 bs)) = join '':'' (map hex2 bs)"
  proof (induction bs rule: induct_list012)
    case (3 x y zs)
    then show ?case by (simp add: to_lower_append) (simp add: to_lower_def to_lower_char_def)
  qed auto
  ultimately show ?thesis by (simp add: mac_string_def)
qed

lemma mac_hex_mac_string: "mac_hex (mac_string bs) = hex_encode bs"
proof -
  have "mac_hex (join '':'' (map hex2 bs)) = concat (map hex2 bs)"
  proof (induction bs rule: induct_list012)
    case (3 x y zs)
    have "mac_hex (CHR '':'' # s) = mac_hex s" for s by (simp add: mac_hex_def)
    with 3 show ?case by (simp add: mac_hex_append)
  next
    case 1
    then show ?case by (simp add: mac_hex_def)
  qed auto
  then show ?thesis by (simp add: mac_string_def hex_encode_def)
qed

text \<open>Case does not matter to \<open>parse_mac\<close>.\<close>

lemma lower_sep: "is_mac_sep e \<Longrightarrow> to_lower_char c = e \<longleftrightarrow> c = e"
proof -
  assume e: "is_mac_sep e"
  then have n: "(of_char e :: nat) < 97 \<and> \<not> (65 \<le> (of_char e :: nat) \<and> (of_char e :: nat) \<le> 90)"
    by (auto simp: is_mac_sep_def)
  have "to_lower_char c \<noteq> e" if "65 \<le> (of_char c :: nat)" "(of_char c :: nat) \<le> 90"
  proof
    assume "to_lower_char c = e"
    then have "of_char (char_of (of_char c + 32 :: nat) :: char) = (of_char e :: nat)"
      using that by (simp add: to_lower_char_def)
    with that n show False by (simp add: of_char_of)
  qed
  moreover have "c \<noteq> e" if "65 \<le> (of_char c :: nat)" "(of_char c :: nat) \<le> 90" using that n by auto
  ultimately show ?thesis by (cases "65 \<le> (of_char c :: nat) \<and> (of_char c :: nat) \<le> 90") (auto simp: to_lower_char_def Let_def)
qed

lemma to_lower_nth: "i < length s \<Longrightarrow> to_lower s ! i = to_lower_char (s ! i)"
  by (simp add: to_lower_def)

lemma drop_to_lower: "drop n (to_lower s) = to_lower (drop n s)"
  by (simp add: to_lower_def drop_map)

lemma take_to_lower: "take n (to_lower s) = to_lower (take n s)"
  by (simp add: to_lower_def take_map)

lemma xtoi2_lower [simp]:
  assumes "e = None \<or> (\<exists>c. e = Some c \<and> is_mac_sep c)"
  shows "xtoi2 (to_lower s) e = xtoi2 s e"
proof -
  have "(length s > 2 \<and> Some (to_lower s ! 2) \<noteq> e) = (length s > 2 \<and> Some (s ! 2) \<noteq> e)"
  proof (cases e)
    case (Some x)
    with assms lower_sep [of x "s ! 2"] show ?thesis by (auto simp: to_lower_nth)
  qed (simp add: to_lower_nth)
  then have c: "(length (to_lower s) > 2 \<and> Some (to_lower s ! 2) \<noteq> e) = (length s > 2 \<and> Some (s ! 2) \<noteq> e)"
    by simp
  show ?thesis
  proof (cases s)
    case s1: (Cons a t)
    show ?thesis
    proof (cases t)
      case Nil
      with s1 show ?thesis by (simp add: xtoi2_def to_lower_def)
    next
      case s2: (Cons b u)
      show ?thesis unfolding xtoi2_def c by (simp add: s1 s2 to_lower_def split: option.splits)
    qed
  qed (simp add: xtoi2_def)
qed

lemma mac_pairs_lower [simp]: "is_mac_sep e \<Longrightarrow> mac_pairs n e (to_lower s) = mac_pairs n e s"
  by (induction n arbitrary: s) (auto simp: drop_to_lower split: option.splits)

lemma mac_quads_lower [simp]: "mac_quads n (to_lower s) = mac_quads n s"
  by (induction n arbitrary: s) (auto simp: drop_to_lower take_to_lower split: option.splits)

lemma parse_mac_lower: "parse_mac (to_lower s) = parse_mac s"
proof (cases "length s < 14")
  case False
  then have "to_lower s ! 2 = CHR '':'' \<longleftrightarrow> s ! 2 = CHR '':''"
    "to_lower s ! 2 = CHR ''-'' \<longleftrightarrow> s ! 2 = CHR ''-''" "to_lower s ! 4 = CHR ''.'' \<longleftrightarrow> s ! 4 = CHR ''.''"
    by (simp_all add: to_lower_nth lower_sep)
  then have "to_lower s ! 2 = s ! 2" if "s ! 2 = CHR '':'' \<or> s ! 2 = CHR ''-''"
    using that by auto
  moreover have "mac_pairs n (s ! 2) (to_lower s) = mac_pairs n (s ! 2) s"
    if "s ! 2 = CHR '':'' \<or> s ! 2 = CHR ''-''" for n
    by (rule mac_pairs_lower) (use that in auto)
  ultimately show ?thesis
    using \<open>to_lower s ! 4 = CHR ''.'' \<longleftrightarrow> _\<close> \<open>to_lower s ! 2 = CHR '':'' \<longleftrightarrow> _\<close> \<open>to_lower s ! 2 = CHR ''-'' \<longleftrightarrow> _\<close>
    unfolding parse_mac_def Let_def length_to_lower mac_quads_lower
    by (cases "s ! 2 = CHR '':'' \<or> s ! 2 = CHR ''-''") (simp_all only: if_True if_False)
qed (simp add: parse_mac_def)

end
