(* ===== verification/GoHash.thy ===== *)
theory GoHash
  imports GoNet
begin

text \<open>
  SHA-256 (package \<open>crypto/sha256\<close>) and HMAC (package \<open>crypto/hmac\<close>) over byte lists. The
  program relies on two facts of the keyed digest: it is a function of key and message,
  and it is always 32 bytes long. They are the interface \<open>keyed_mac\<close>, interpreted at the end.
\<close>

unbundle bit_operations_syntax

type_synonym w32 = "32 word"

definition sha_k :: "w32 list" where
  "sha_k =
    [1116352408, 1899447441, 3049323471, 3921009573,
     961987163, 1508970993, 2453635748, 2870763221,
     3624381080, 310598401, 607225278, 1426881987,
     1925078388, 2162078206, 2614888103, 3248222580,
     3835390401, 4022224774, 264347078, 604807628,
     770255983, 1249150122, 1555081692, 1996064986,
     2554220882, 2821834349, 2952996808, 3210313671,
     3336571891, 3584528711, 113926993, 338241895,
     666307205, 773529912, 1294757372, 1396182291,
     1695183700, 1986661051, 2177026350, 2456956037,
     2730485921, 2820302411, 3259730800, 3345764771,
     3516065817, 3600352804, 4094571909, 275423344,
     430227734, 506948616, 659060556, 883997877,
     958139571, 1322822218, 1537002063, 1747873779,
     1955562222, 2024104815, 2227730452, 2361852424,
     2428436474, 2756734187, 3204031479, 3329325298]"

definition sha_h0 :: "w32 list" where
  "sha_h0 =
    [1779033703, 3144134277, 1013904242, 2773480762,
     1359893119, 2600822924, 528734635, 1541459225]"

definition rotr :: "nat \<Rightarrow> w32 \<Rightarrow> w32" where
  "rotr n w = drop_bit n w OR push_bit (32 - n) w"

definition small_sigma0 :: "w32 \<Rightarrow> w32" where
  "small_sigma0 x = rotr 7 x XOR rotr 18 x XOR drop_bit 3 x"

definition small_sigma1 :: "w32 \<Rightarrow> w32" where
  "small_sigma1 x = rotr 17 x XOR rotr 19 x XOR drop_bit 10 x"

definition big_sigma0 :: "w32 \<Rightarrow> w32" where
  "big_sigma0 x = rotr 2 x XOR rotr 13 x XOR rotr 22 x"

definition big_sigma1 :: "w32 \<Rightarrow> w32" where
  "big_sigma1 x = rotr 6 x XOR rotr 11 x XOR rotr 25 x"

text \<open>The message schedule, kept newest first: \<open>W t\<close> from the 16 words before it.\<close>

fun sha_extend :: "nat \<Rightarrow> w32 list \<Rightarrow> w32 list" where
  "sha_extend 0 ws = rev ws"
| "sha_extend (Suc n) ws =
     sha_extend n ((small_sigma1 (ws ! 1) + ws ! 6 + small_sigma0 (ws ! 14) + ws ! 15) # ws)"

fun sha_round :: "w32 list \<Rightarrow> w32 \<times> w32 \<Rightarrow> w32 list" where
  "sha_round [a, b, c, d, e, f, g, h] (k, w) =
     (let t1 = h + big_sigma1 e + ((e AND f) XOR (NOT e AND g)) + k + w;
          t2 = big_sigma0 a + ((a AND b) XOR (a AND c) XOR (b AND c))
      in [t1 + t2, a, b, c, d + t1, e, f, g])"
| "sha_round s _ = s"

definition be32 :: "byte list \<Rightarrow> w32" where
  "be32 bs = foldl (\<lambda>n b. push_bit 8 n OR ucast b) 0 bs"

definition be32_bytes :: "w32 \<Rightarrow> byte list" where
  "be32_bytes w = map (\<lambda>i. ucast (drop_bit i w)) [24, 16, 8, 0]"

fun chunks :: "nat \<Rightarrow> 'a list \<Rightarrow> 'a list list" where
  "chunks n [] = []"
| "chunks n (x # xs) = (x # take (n - 1) xs) # chunks n (drop (n - 1) xs)"

definition sha_block :: "w32 list \<Rightarrow> byte list \<Rightarrow> w32 list" where
  "sha_block hs block =
     (let ws = sha_extend 48 (rev (map be32 (chunks 4 block)))
      in map2 (+) hs (foldl sha_round hs (zip sha_k ws)))"

definition sha_pad :: "byte list \<Rightarrow> byte list" where
  "sha_pad m = m @ [0x80] @ replicate ((119 - length m mod 64) mod 64) 0
     @ map (\<lambda>i. of_nat (length m * 8 div 2 ^ (8 * i))) [7, 6, 5, 4, 3, 2, 1, 0]"

definition sha256 :: "byte list \<Rightarrow> byte list" where
  "sha256 m = concat (map be32_bytes (foldl sha_block sha_h0 (chunks 64 (sha_pad m))))"

definition hmac_key :: "byte list \<Rightarrow> byte list" where
  "hmac_key k = (let k' = if length k > 64 then sha256 k else k in k' @ replicate (64 - length k') 0)"

definition hmac_sha256 :: "byte list \<Rightarrow> byte list \<Rightarrow> byte list" where
  "hmac_sha256 k m =
     (let k' = hmac_key k
      in sha256 (map (\<lambda>b. b XOR 0x5c) k' @ sha256 (map (\<lambda>b. b XOR 0x36) k' @ m)))"

definition bytes_of :: "string \<Rightarrow> byte list" where
  "bytes_of s = map of_char s"

subsection \<open>The digest is 32 bytes\<close>

lemma length_sha_round [simp]: "length s = 8 \<Longrightarrow> length (sha_round s p) = 8"
  by (cases "(s, p)" rule: sha_round.cases) (auto simp: Let_def)

lemma length_rounds: "length s = 8 \<Longrightarrow> length (foldl sha_round s ps) = 8"
  by (induction ps arbitrary: s) auto

lemma length_sha_block: "length hs = 8 \<Longrightarrow> length (sha_block hs b) = 8"
  by (simp add: sha_block_def Let_def length_rounds)

lemma length_blocks: "length hs = 8 \<Longrightarrow> length (foldl sha_block hs bs) = 8"
  by (induction bs arbitrary: hs) (auto simp: length_sha_block)

lemma length_be32_bytes [simp]: "length (be32_bytes w) = 4"
  by (simp add: be32_bytes_def)

lemma length_concat_const: "\<forall>x \<in> set xs. length (f x) = n \<Longrightarrow> length (concat (map f xs)) = n * length xs"
  by (induction xs) auto

lemma length_sha256 [simp]: "length (sha256 m) = 32"
proof -
  have "length (foldl sha_block sha_h0 (chunks 64 (sha_pad m))) = 8"
    by (rule length_blocks) (simp add: sha_h0_def)
  then show ?thesis using length_concat_const [of _ be32_bytes 4] unfolding sha256_def by simp
qed

lemma length_hmac [simp]: "length (hmac_sha256 k m) = 32"
  by (simp add: hmac_sha256_def Let_def)

text \<open>What a signature scheme needs of its digest.\<close>

locale keyed_mac =
  fixes mac :: "'k \<Rightarrow> 'm \<Rightarrow> byte list" and size_mac :: nat
  assumes length_mac: "length (mac k m) = size_mac"
begin

definition accepts :: "'k \<Rightarrow> 'm \<Rightarrow> string \<Rightarrow> bool" where
  "accepts k m tag = (hex_decode tag = Some (mac k m))"

lemma accepts_encoded: "accepts k m (hex_encode (mac k m))"
  by (simp add: accepts_def)

lemma accepts_only: "accepts k m tag \<Longrightarrow> to_lower tag = hex_encode (mac k m)"
  unfolding accepts_def by (metis hex_encode_decode)

lemma accepts_length: "accepts k m tag \<Longrightarrow> length tag = 2 * size_mac"
  by (metis accepts_only length_hex_encode length_mac length_to_lower)

lemma accepts_same: "accepts k m tag \<Longrightarrow> accepts k m' tag \<Longrightarrow> mac k m = mac k m'"
  by (simp add: accepts_def)

end

interpretation hmac: keyed_mac hmac_sha256 32
  by unfold_locales simp

end
