(* ===== verification/GoIP.thy ===== *)
theory GoIP
  imports GoNet
begin

text \<open>
  IP addresses and prefixes of Go's \<open>net/netip\<close> and \<open>net\<close> packages, as
  32- and 128-bit words. \<open>parse_addr\<close> follows \<open>netip.ParseAddr\<close>: dotted IPv4 without
  leading zeros, IPv6 with \<open>::\<close>, a trailing embedded IPv4 and a zone.
\<close>

datatype addr = IP4 "32 word" | IP6 "128 word" string

datatype prefix = Prefix addr nat

subsection \<open>IPv4 text\<close>

definition octet :: "string \<Rightarrow> byte option" where
  "octet f = (if f = [] \<or> \<not> list_all is_digit f \<or> (length f > 1 \<and> hd f = CHR ''0'')
                \<or> read_digits f 0 > 255
              then None else Some (of_nat (read_digits f 0)))"

definition parse_v4_fields :: "string \<Rightarrow> byte list option" where
  "parse_v4_fields s =
     (case map octet (split_on (CHR ''.'') s) of
        [Some a, Some b, Some c, Some d] \<Rightarrow> Some [a, b, c, d] | _ \<Rightarrow> None)"

definition bytes_nat :: "byte list \<Rightarrow> nat" where
  "bytes_nat bs = foldl (\<lambda>n b. n * 256 + unat b) 0 bs"

definition v4_bytes :: "32 word \<Rightarrow> byte list" where
  "v4_bytes w = map (\<lambda>i. of_nat (unat w div 2 ^ i)) [24, 16, 8, 0]"

definition v4_string :: "32 word \<Rightarrow> string" where
  "v4_string w = join ''.'' (map (\<lambda>b. show_nat (unat b)) (v4_bytes w))"

lemma digit_char_inject: "a < 10 \<Longrightarrow> b < 10 \<Longrightarrow> digit_char a = digit_char b \<longleftrightarrow> a = b"
  by (metis digit_val_char)

lemma show_nat_hd: "0 < k \<Longrightarrow> \<exists>d. 0 < d \<and> d < 10 \<and> hd (show_nat k) = digit_char d"
proof (induction k rule: show_nat.induct)
  case (1 k)
  show ?case
  proof (cases "k < 10")
    case True
    with "1.prems" show ?thesis by (auto simp: show_nat.simps [of k])
  next
    case False
    then have "0 < k div 10" by simp
    with False "1.IH" show ?thesis by (simp add: show_nat.simps [of k])
  qed
qed

lemma show_nat_no_leading_zero: "length (show_nat n) > 1 \<Longrightarrow> hd (show_nat n) \<noteq> CHR ''0''"
proof -
  assume l: "length (show_nat n) > 1"
  then have "n \<noteq> 0" by (cases "n = 0") (simp_all add: show_nat.simps [of 0])
  then obtain d where "0 < d" "d < 10" "hd (show_nat n) = digit_char d"
    using show_nat_hd by blast
  moreover have "CHR ''0'' = digit_char 0" by code_simp
  ultimately show ?thesis using digit_char_inject [of d 0] by simp
qed

lemma octet_show: "octet (show_nat (unat (b :: byte))) = Some b"
proof -
  let ?n = "unat b"
  have "\<not> (length (show_nat ?n) > 1 \<and> hd (show_nat ?n) = CHR ''0'')"
    using show_nat_no_leading_zero [of ?n] by blast
  moreover have "read_digits (show_nat ?n) 0 = ?n" by (rule read_show_nat)
  ultimately show ?thesis
    using is_digit_show_nat [of ?n] unat_byte_less [of b] by (auto simp: octet_def simp del: unat_byte_less)
qed

lemma digit_not_dot: "is_digit c \<Longrightarrow> c \<noteq> CHR ''.'' \<and> c \<noteq> CHR '':'' \<and> c \<noteq> CHR ''%'' \<and> c \<noteq> CHR ''/''"
  by (auto simp: is_digit_def)

lemma show_nat_no_sep:
  "c \<in> {CHR ''.'', CHR '':'', CHR ''%'', CHR ''/''} \<Longrightarrow> c \<notin> set (show_nat n)"
  using is_digit_show_nat [of n] digit_not_dot by (auto simp: list_all_iff)

lemma parse_v4_fields_show:
  "parse_v4_fields (join ''.'' (map (\<lambda>b. show_nat (unat b)) [a, b, c, d])) = Some [a, b, c, d]"
proof -
  have "split_on (CHR ''.'') (join [CHR ''.''] (map (\<lambda>b. show_nat (unat b)) [a, b, c, d]))
      = map (\<lambda>b. show_nat (unat b)) [a, b, c, d]"
    by (rule split_on_join) (auto simp: show_nat_no_sep)
  then show ?thesis by (simp add: parse_v4_fields_def octet_show)
qed

lemma length_v4_bytes [simp]: "length (v4_bytes w) = 4"
  by (simp add: v4_bytes_def)

lemma div_mod_256: "n div 256 * 256 + n mod 256 = (n :: nat)"
  by simp

lemma v4_bytes_nat: "bytes_nat (v4_bytes w) = unat w"
proof -
  let ?n = "unat w"
  have "?n < 2 ^ 32" using unsigned_less [of w] by simp
  then have b: "?n div 16777216 mod 256 = ?n div 16777216" by simp
  have d: "?n div 65536 div 256 = ?n div 16777216" "?n div 256 div 256 = ?n div 65536"
    by (simp_all add: div_mult2_eq [symmetric])
  have u: "unat (of_nat n :: byte) = n mod 256" for n by (simp only: unat_of_nat) simp
  have "map unat (v4_bytes w) = [?n div 16777216 mod 256, ?n div 65536 mod 256, ?n div 256 mod 256, ?n mod 256]"
    unfolding v4_bytes_def list.map u by (intro arg_cong2 [where f = Cons] refl) simp_all
  moreover have "bytes_nat bs = foldl (\<lambda>a b. a * 256 + b) 0 (map unat bs)" for bs
    by (simp add: bytes_nat_def foldl_map)
  ultimately have "bytes_nat (v4_bytes w) =
      ((?n div 16777216 * 256 + ?n div 65536 mod 256) * 256 + ?n div 256 mod 256) * 256 + ?n mod 256"
    by (simp only: b foldl.simps mult_zero_left add_0)
  also have "\<dots> = ?n"
    using div_mod_256 [of "?n div 65536"] div_mod_256 [of "?n div 256"] div_mod_256 [of ?n] by (simp only: d)
  finally show ?thesis .
qed

lemma v4_bytes_word [simp]: "of_nat (bytes_nat (v4_bytes w)) = w"
  by (simp add: v4_bytes_nat)

subsection \<open>IPv6 text\<close>

text \<open>One hexadecimal group: digits read, value, rest; a fifth digit is an error.\<close>

fun v6_hex :: "string \<Rightarrow> nat \<Rightarrow> nat \<Rightarrow> (nat \<times> nat \<times> string) option" where
  "v6_hex [] off acc = Some (off, acc, [])"
| "v6_hex (c # cs) off acc =
     (case hex_val c of
        None \<Rightarrow> Some (off, acc, c # cs)
      | Some v \<Rightarrow> if off > 3 then None else v6_hex cs (Suc off) (16 * acc + v))"

text \<open>
  The loop over the groups: the first argument is the number of 2-byte groups that still
  fit, then the text left, the bytes so far and where \<open>::\<close> was seen.
\<close>

fun v6_loop :: "nat \<Rightarrow> string \<Rightarrow> byte list \<Rightarrow> nat option \<Rightarrow> (byte list \<times> nat option \<times> string) option" where
  "v6_loop 0 s acc el = Some (acc, el, s)"
| "v6_loop (Suc n) s acc el =
     (case v6_hex s 0 0 of None \<Rightarrow> None
      | Some (off, v, rest) \<Rightarrow>
          if off = 0 then None
          else if rest \<noteq> [] \<and> hd rest = CHR ''.'' then
            (if el = None \<and> length acc \<noteq> 12 then None
             else if length acc + 4 > 16 then None
             else (case parse_v4_fields s of None \<Rightarrow> None
                   | Some b4 \<Rightarrow> Some (acc @ b4, el, [])))
          else (let acc' = acc @ [of_nat (v div 256), of_nat (v mod 256)] in
            case rest of
              [] \<Rightarrow> Some (acc', el, [])
            | c # cs \<Rightarrow>
                if c \<noteq> CHR '':'' \<or> cs = [] then None
                else if hd cs = CHR '':'' then
                  (if el \<noteq> None then None
                   else if tl cs = [] then Some (acc', Some (length acc'), [])
                   else v6_loop n (tl cs) acc' (Some (length acc')))
                else v6_loop n cs acc' el))"

definition v6_finish :: "(byte list \<times> nat option \<times> string) option \<Rightarrow> byte list option" where
  "v6_finish r =
     (case r of None \<Rightarrow> None
      | Some (acc, el, s) \<Rightarrow>
          if s \<noteq> [] then None
          else if length acc < 16 then
            (case el of None \<Rightarrow> None
             | Some e \<Rightarrow> Some (take e acc @ replicate (16 - length acc) 0 @ drop e acc))
          else if el \<noteq> None then None else Some acc)"

definition parse_v6 :: "string \<Rightarrow> addr option" where
  "parse_v6 inp =
     (let (s, zone) = (case cut_at (CHR ''%'') inp of None \<Rightarrow> (inp, Some [])
                       | Some (a, z) \<Rightarrow> (a, if z = [] then None else Some z))
      in case zone of None \<Rightarrow> None
         | Some z \<Rightarrow>
             map_option (\<lambda>bs. IP6 (of_nat (bytes_nat bs)) z)
               (if has_prefix s ''::'' then
                  (if drop 2 s = [] then Some (replicate 16 0)
                   else v6_finish (v6_loop 8 (drop 2 s) [] (Some 0)))
                else v6_finish (v6_loop 8 s [] None)))"

definition parse_addr :: "string \<Rightarrow> addr option" where
  "parse_addr s =
     (case find (\<lambda>c. c = CHR ''.'' \<or> c = CHR '':'' \<or> c = CHR ''%'') s of
        None \<Rightarrow> None
      | Some c \<Rightarrow>
          if c = CHR ''.'' then map_option (\<lambda>bs. IP4 (of_nat (bytes_nat bs))) (parse_v4_fields s)
          else if c = CHR '':'' then parse_v6 s
          else None)"

subsection \<open>Properties of addresses\<close>

fun is4in6 :: "addr \<Rightarrow> bool" where
  "is4in6 (IP4 w) = False"
| "is4in6 (IP6 w z) = (drop_bit 32 w = 65535)"

fun unmap :: "addr \<Rightarrow> addr" where
  "unmap (IP4 w) = IP4 w"
| "unmap (IP6 w z) = (if drop_bit 32 w = 65535 then IP4 (ucast w) else IP6 w z)"

fun without_zone :: "addr \<Rightarrow> addr" where
  "without_zone (IP4 w) = IP4 w"
| "without_zone (IP6 w z) = IP6 w []"

fun zone_of :: "addr \<Rightarrow> string" where
  "zone_of (IP4 w) = []"
| "zone_of (IP6 w z) = z"

fun is_unspecified :: "addr \<Rightarrow> bool" where
  "is_unspecified (IP4 w) = (w = 0)"
| "is_unspecified (IP6 w z) = (w = 0)"

fun is_loopback :: "addr \<Rightarrow> bool" where
  "is_loopback (IP4 w) = (drop_bit 24 w = 127)"
| "is_loopback (IP6 w z) = (w = 1)"

text \<open>\<open>Addr.String\<close>, with the longest run of at least two zero groups as \<open>::\<close>.\<close>

fun show_hex :: "nat \<Rightarrow> string" where
  "show_hex n = (if n < 16 then [hex_digit n] else show_hex (n div 16) @ [hex_digit (n mod 16)])"

declare show_hex.simps [simp del]

definition v6_groups :: "128 word \<Rightarrow> nat list" where
  "v6_groups w = map (\<lambda>i. unat w div 2 ^ (16 * i) mod 65536) [7, 6, 5, 4, 3, 2, 1, 0]"

fun zero_run :: "nat list \<Rightarrow> nat" where
  "zero_run [] = 0"
| "zero_run (g # gs) = (if g = 0 then Suc (zero_run gs) else 0)"

fun longest_run :: "nat list \<Rightarrow> nat \<Rightarrow> nat \<times> nat \<Rightarrow> nat \<times> nat" where
  "longest_run [] i best = best"
| "longest_run (g # gs) i best =
     (let l = zero_run (g # gs) in
      longest_run gs (Suc i) (if l \<ge> 2 \<and> l > snd best then (i, l) else best))"

definition v6_string :: "128 word \<Rightarrow> string" where
  "v6_string w =
     (let gs = v6_groups w; (st, len) = longest_run gs 0 (8, 0)
      in if len = 0 then join '':'' (map show_hex gs)
         else join '':'' (map show_hex (take st gs)) @ ''::'' @
              join '':'' (map show_hex (drop (st + len) gs)))"

fun addr_string :: "addr \<Rightarrow> string" where
  "addr_string (IP4 w) = v4_string w"
| "addr_string (IP6 w z) =
     (if drop_bit 32 w = 65535 then ''::ffff:'' @ v4_string (ucast w) else v6_string w)
      @ (if z = [] then [] else CHR ''%'' # z)"

lemma find_first_dot:
  "list_all is_digit ds \<Longrightarrow>
   find (\<lambda>c. c = CHR ''.'' \<or> c = CHR '':'' \<or> c = CHR ''%'') (ds @ CHR ''.'' # t) = Some (CHR ''.'')"
  by (induction ds) (auto dest: digit_not_dot)

lemma parse_addr_v4_string: "parse_addr (v4_string w) = Some (IP4 w)"
proof -
  obtain a b c d where bs: "v4_bytes w = [a, b, c, d]"
    by (simp add: v4_bytes_def)
  let ?s = "\<lambda>b :: byte. show_nat (unat b)"
  have js: "v4_string w = ?s a @ CHR ''.'' # (?s b @ ''.'' @ ?s c @ ''.'' @ ?s d)"
    by (simp add: v4_string_def bs)
  then have "find (\<lambda>c. c = CHR ''.'' \<or> c = CHR '':'' \<or> c = CHR ''%'') (v4_string w) = Some (CHR ''.'')"
    by (simp only: find_first_dot is_digit_show_nat)
  moreover have "parse_v4_fields (v4_string w) = Some (v4_bytes w)"
    unfolding v4_string_def bs by (rule parse_v4_fields_show)
  ultimately show ?thesis by (simp add: parse_addr_def)
qed

subsection \<open>Prefixes (\<open>netip.ParsePrefix\<close>, \<open>Masked\<close>, \<open>Contains\<close>)\<close>

definition last_slash :: "string \<Rightarrow> (string \<times> string) option" where
  "last_slash s = map_option (\<lambda>(b, a). (rev a, rev b)) (cut_at (CHR ''/'') (rev s))"

fun addr_bits :: "addr \<Rightarrow> nat" where
  "addr_bits (IP4 w) = 32"
| "addr_bits (IP6 w z) = 128"

definition parse_prefix :: "string \<Rightarrow> prefix option" where
  "parse_prefix s =
     (case last_slash s of None \<Rightarrow> None
      | Some (a, b) \<Rightarrow>
          (case parse_addr a of None \<Rightarrow> None
           | Some ip \<Rightarrow>
               if zone_of ip \<noteq> [] then None
               else if length b > 1 \<and> (hd b = CHR ''0'' \<or> \<not> is_digit (hd b)) then None
               else (case atoi b of None \<Rightarrow> None
                     | Some n \<Rightarrow> if n < 0 \<or> n > int (addr_bits ip) then None
                                else Some (Prefix ip (nat n)))))"

definition top_bits :: "nat \<Rightarrow> 'a::len word \<Rightarrow> 'a word" where
  "top_bits n w = push_bit (LENGTH('a) - n) (drop_bit (LENGTH('a) - n) w)"

fun prefix_masked :: "prefix \<Rightarrow> prefix" where
  "prefix_masked (Prefix (IP4 w) n) = Prefix (IP4 (top_bits n w)) n"
| "prefix_masked (Prefix (IP6 w z) n) = Prefix (IP6 (top_bits n w) z) n"

definition same_top :: "nat \<Rightarrow> 'a::len word \<Rightarrow> 'a word \<Rightarrow> bool" where
  "same_top n v w = (drop_bit (LENGTH('a) - n) (v XOR w) = 0)"

fun prefix_contains :: "prefix \<Rightarrow> addr \<Rightarrow> bool" where
  "prefix_contains (Prefix (IP4 v) n) (IP4 w) = same_top n v w"
| "prefix_contains (Prefix (IP6 v z) n) (IP6 w y) = (y = [] \<and> same_top n v w)"
| "prefix_contains _ _ = False"

fun prefix_string :: "prefix \<Rightarrow> string" where
  "prefix_string (Prefix a n) = addr_string a @ ''/'' @ show_nat n"

lemma drop_top_bits: "drop_bit (LENGTH('a) - n) (top_bits n (w :: 'a::len word)) = drop_bit (LENGTH('a) - n) w"
  by (rule bit_word_eqI) (auto simp: top_bits_def bit_simps dest: bit_imp_le_length)

lemma top_bits_idem: "top_bits n (top_bits n w) = top_bits n w"
  by (simp only: top_bits_def [of n "top_bits n w"] drop_top_bits) (simp add: top_bits_def)

lemma same_top_iff: "same_top n v w \<longleftrightarrow>
    drop_bit (LENGTH('a) - n) (v :: 'a::len word) = drop_bit (LENGTH('a) - n) w"
proof -
  have "drop_bit k (v XOR w) = drop_bit k v XOR drop_bit k w" for k
    by (rule bit_word_eqI) (auto simp: bit_simps)
  moreover have "x XOR y = 0 \<longleftrightarrow> x = y" for x y :: "'a word"
    by (auto simp: bit_eq_iff bit_simps)
  ultimately show ?thesis by (simp add: same_top_def)
qed

lemma same_top_masked [simp]: "same_top n (top_bits n v) w = same_top n v w"
  by (simp add: same_top_iff drop_top_bits)

lemma prefix_masked_contains [simp]: "prefix_contains (prefix_masked p) a = prefix_contains p a"
  by (cases p; cases a; cases "case p of Prefix a n \<Rightarrow> a") auto

lemma prefix_masked_self:
  "zone_of a = [] \<Longrightarrow> prefix_contains (prefix_masked (Prefix a n)) a"
  by (cases a) (simp_all only: prefix_masked.simps prefix_contains.simps same_top_masked zone_of.simps,
     simp_all add: same_top_def)

lemma cut_at_append: "c \<notin> set x \<Longrightarrow> cut_at c (x @ c # y) = Some (x, y)"
  by (induction x) auto

lemma last_slash_append: "CHR ''/'' \<notin> set b \<Longrightarrow> last_slash (a @ CHR ''/'' # b) = Some (a, b)"
  using cut_at_append [of "CHR ''/''" "rev b" "rev a"] by (simp add: last_slash_def)

lemma parse_prefix_v4_string:
  assumes "n \<le> 32"
  shows "parse_prefix (prefix_string (Prefix (IP4 w) n)) = Some (Prefix (IP4 w) n)"
proof -
  let ?b = "show_nat n"
  have "last_slash (prefix_string (Prefix (IP4 w) n)) = Some (v4_string w, ?b)"
    using last_slash_append [of ?b "v4_string w"] show_nat_no_sep [of "CHR ''/''" n] by simp
  moreover have "\<not> (length ?b > 1 \<and> (hd ?b = CHR ''0'' \<or> \<not> is_digit (hd ?b)))"
    using show_nat_no_leading_zero [of n] is_digit_show_nat [of n] by (auto simp: list_all_iff)
  moreover have "atoi ?b = Some (int n)" using assms by (intro atoi_show_nat) simp
  ultimately show ?thesis using assms by (simp add: parse_prefix_def parse_addr_v4_string)
qed

lemma v4_string_chars: "c \<in> set (v4_string w) \<Longrightarrow> is_digit c \<or> c = CHR ''.''"
  unfolding v4_string_def
  by (drule set_mp [OF set_join]) (auto dest: list_all_iff [THEN iffD1, OF is_digit_show_nat, THEN bspec])

subsection \<open>The older \<open>net.IP\<close> and \<open>net.IPNet\<close>\<close>

text \<open>
  A \<open>net.IP\<close> is compared, printed and matched after \<open>To4\<close>, so an IPv4-mapped IPv6 address
  and the IPv4 address are the same value: \<open>parse_ip\<close> returns it unmapped.
\<close>

definition parse_ip :: "string \<Rightarrow> addr option" where
  "parse_ip s = (case parse_addr s of None \<Rightarrow> None
     | Some a \<Rightarrow> if zone_of a \<noteq> [] then None else Some (unmap a))"

datatype ipnet = Net4 "32 word" nat | Net6 "128 word" nat

text \<open>\<open>networkNumberAndMask\<close>: a network whose number is IPv4-mapped is an IPv4 network.\<close>

definition net_norm :: "128 word \<Rightarrow> nat \<Rightarrow> ipnet" where
  "net_norm w n = (if drop_bit 32 w = 65535 then Net4 (ucast w) (n - 96) else Net6 w n)"

text \<open>\<open>net.ParseCIDR\<close>: the network and the size of its mask as \<open>Mask.Size\<close> gives it.\<close>

definition parse_cidr :: "string \<Rightarrow> (ipnet \<times> nat \<times> nat) option" where
  "parse_cidr s =
     (case cut_at (CHR ''/'') s of None \<Rightarrow> None
      | Some (a, m) \<Rightarrow>
          (case parse_addr a of None \<Rightarrow> None
           | Some ip \<Rightarrow>
               if zone_of ip \<noteq> [] \<or> m = [] \<or> \<not> list_all is_digit m
                  \<or> read_digits m 0 > addr_bits ip then None
               else (let n = read_digits m 0 in
                 case ip of
                   IP4 w \<Rightarrow> Some (Net4 (top_bits n w) n, n, 32)
                 | IP6 w z \<Rightarrow> Some (net_norm (top_bits n w) n, n, 128))))"

fun ipnet_contains :: "ipnet \<Rightarrow> addr \<Rightarrow> bool" where
  "ipnet_contains (Net4 v n) (IP4 w) = same_top n v w"
| "ipnet_contains (Net6 v n) (IP6 w z) = same_top n v w"
| "ipnet_contains _ _ = False"

fun ipnet_string :: "ipnet \<Rightarrow> string" where
  "ipnet_string (Net4 v n) = v4_string v @ ''/'' @ show_nat n"
| "ipnet_string (Net6 v n) = v6_string v @ ''/'' @ show_nat n"

text \<open>\<open>net.SplitHostPort\<close>.\<close>

definition last_colon :: "string \<Rightarrow> (string \<times> string) option" where
  "last_colon s = map_option (\<lambda>(b, a). (rev a, rev b)) (cut_at (CHR '':'') (rev s))"

definition split_host_port :: "string \<Rightarrow> (string \<times> string) option" where
  "split_host_port s =
     (case last_colon s of None \<Rightarrow> None
      | Some (h, port) \<Rightarrow>
          if hd s = CHR ''['' then
            (case cut_at (CHR '']'') (tl s) of None \<Rightarrow> None
             | Some (host, rest) \<Rightarrow>
                 if rest = CHR '':'' # port \<and> CHR ''['' \<notin> set host \<and> CHR ''['' \<notin> set port
                    \<and> CHR '']'' \<notin> set port
                 then Some (host, port) else None)
          else if CHR '':'' \<in> set h \<or> CHR ''['' \<in> set s \<or> CHR '']'' \<in> set s then None
          else Some (h, port))"

end
