(* ===== verification/Events.thy ===== *)
theory Events
  imports GoHash GoIP
begin

text \<open>
  Package \<open>libs/events\<close>: the detection and enforcement records shared by the services, the
  known-bad signal classification, and the webhook signature (\<open>detection.go\<close>,
  \<open>enforcement.go\<close>, \<open>signature.go\<close>).
\<close>

subsection \<open>Detection events\<close>

definition DetectionSchemaVersion :: string where [simp]: "DetectionSchemaVersion = ''1.0''"
definition SeverityCritical :: string where [simp]: "SeverityCritical = ''critical''"
definition SeverityHigh :: string where [simp]: "SeverityHigh = ''high''"
definition SeverityMedium :: string where [simp]: "SeverityMedium = ''medium''"
definition SeverityLow :: string where [simp]: "SeverityLow = ''low''"

definition SignalIoC :: string where [simp]: "SignalIoC = ''ioc''"
definition SignalIDS :: string where [simp]: "SignalIDS = ''ids-signature''"
definition SignalTLS :: string where [simp]: "SignalTLS = ''tls''"
definition SignalBeacon :: string where [simp]: "SignalBeacon = ''beacon''"
definition SignalVolumetric :: string where [simp]: "SignalVolumetric = ''volumetric''"
definition SignalComposite :: string where [simp]: "SignalComposite = ''composite''"

definition IsKnownBadSignal :: "string \<Rightarrow> bool" where
  "IsKnownBadSignal cls = (cls = SignalIoC \<or> cls = SignalIDS)"

record detection_event =
  de_SchemaVersion :: string
  de_ID :: string
  de_Timestamp :: instant
  de_Domain :: string
  de_MatchedIoC :: string
  de_IoCType :: string
  de_ClientIP :: string
  de_ClientMAC :: string
  de_ClientName :: string
  de_Severity :: string
  de_Confidence :: int
  de_Source :: string
  de_Threat :: string
  de_MitreID :: string
  de_MitreName :: string
  de_QueryType :: string
  de_Tags :: "string list"
  de_SignalClass :: string
  de_Signals :: "string list"
  de_SignalCount :: int

fun known_bad_loop :: "string list \<Rightarrow> string list \<Rightarrow> string list" where
  "known_bad_loop out [] = out"
| "known_bad_loop out (s # ss) =
     known_bad_loop (if IsKnownBadSignal s \<and> s \<notin> set out then out @ [s] else out) ss"

definition KnownBadSignals :: "detection_event \<Rightarrow> string list" where
  "KnownBadSignals e =
     known_bad_loop (if IsKnownBadSignal (de_SignalClass e) then [de_SignalClass e] else []) (de_Signals e)"

definition HasKnownBadSignal :: "detection_event \<Rightarrow> bool" where
  "HasKnownBadSignal e = (length (KnownBadSignals e) > 0)"

lemma set_known_bad_loop:
  "set (known_bad_loop out ss) = set out \<union> {s \<in> set ss. IsKnownBadSignal s}"
  by (induction ss arbitrary: out) auto

lemma distinct_known_bad_loop: "distinct out \<Longrightarrow> distinct (known_bad_loop out ss)"
  by (induction ss arbitrary: out) auto

lemma set_KnownBadSignals:
  "set (KnownBadSignals e) = {s \<in> insert (de_SignalClass e) (set (de_Signals e)). IsKnownBadSignal s}"
  by (auto simp: KnownBadSignals_def set_known_bad_loop)

lemma distinct_KnownBadSignals: "distinct (KnownBadSignals e)"
  by (simp add: KnownBadSignals_def distinct_known_bad_loop)

lemma length_KnownBadSignals: "length (KnownBadSignals e) \<le> 2"
proof -
  have "set (KnownBadSignals e) \<subseteq> {SignalIoC, SignalIDS}"
    by (auto simp: set_KnownBadSignals IsKnownBadSignal_def)
  then have "card (set (KnownBadSignals e)) \<le> card {SignalIoC, SignalIDS}"
    by (rule card_mono [rotated]) simp
  also have "\<dots> \<le> 2" by (simp add: card_insert_if)
  finally show ?thesis by (simp add: distinct_card distinct_KnownBadSignals)
qed

lemma HasKnownBadSignal_iff:
  "HasKnownBadSignal e \<longleftrightarrow> (\<exists>s \<in> insert (de_SignalClass e) (set (de_Signals e)). IsKnownBadSignal s)"
proof -
  have "HasKnownBadSignal e \<longleftrightarrow> set (KnownBadSignals e) \<noteq> {}" by (simp add: HasKnownBadSignal_def)
  then show ?thesis unfolding set_KnownBadSignals by auto
qed

subsection \<open>Enforcement actions\<close>

definition EnforcementSchemaVersion :: string where [simp]: "EnforcementSchemaVersion = ''1.0''"
definition ActionDNSSinkhole :: string where [simp]: "ActionDNSSinkhole = ''dns_sinkhole''"
definition ActionARPIsolate :: string where [simp]: "ActionARPIsolate = ''arp_isolate''"
definition ActionSwitchACL :: string where [simp]: "ActionSwitchACL = ''switch_acl''"

definition StatePending :: string where [simp]: "StatePending = ''pending''"
definition StateApproved :: string where [simp]: "StateApproved = ''approved''"
definition StateActive :: string where [simp]: "StateActive = ''active''"
definition StateReverted :: string where [simp]: "StateReverted = ''reverted''"
definition StateRejected :: string where [simp]: "StateRejected = ''rejected''"
definition StateFailed :: string where [simp]: "StateFailed = ''failed''"

record enforcement_action =
  ea_SchemaVersion :: string
  ea_ID :: string
  ea_Timestamp :: instant
  ea_DetectionID :: string
  ea_ActionType :: string
  ea_State :: string
  ea_TargetMAC :: string
  ea_TargetIP :: string
  ea_BlockedDomain :: string
  ea_PolicyRule :: string
  ea_AutoApproved :: bool
  ea_TTLSeconds :: int
  ea_ExpiresAt :: "instant option"
  ea_RevertedAt :: "instant option"
  ea_ApprovedBy :: string
  ea_Reason :: string
  ea_FailureReason :: string

subsection \<open>Webhook signatures\<close>

definition SignatureHeader :: string where [simp]: "SignatureHeader = ''X-Webhook-Signature''"
definition signaturePrefix :: string where [simp]: "signaturePrefix = ''sha256=''"

datatype sig_error = ErrNoSignature | ErrScheme | ErrMalformed | ErrMismatch

definition SignPayload :: "string \<Rightarrow> byte list \<Rightarrow> string" where
  "SignPayload secret body = signaturePrefix @ hex_encode (hmac_sha256 (bytes_of secret) body)"

text \<open>\<open>None\<close> is Go's nil error: the signature was accepted.\<close>

definition VerifyPayload :: "string \<Rightarrow> string \<Rightarrow> byte list \<Rightarrow> sig_error option" where
  "VerifyPayload secret hdr body =
     (if trim_space hdr = [] then Some ErrNoSignature
      else if \<not> has_prefix hdr signaturePrefix then Some ErrScheme
      else case hex_decode (trim_prefix hdr signaturePrefix) of
          None \<Rightarrow> Some ErrMalformed
        | Some got \<Rightarrow> if got \<noteq> hmac_sha256 (bytes_of secret) body then Some ErrMismatch else None)"

lemma trim_space_Nil: "trim_space s = [] \<longleftrightarrow> (\<forall>c \<in> set s. is_space c)"
  by (auto simp: trim_space_def trim_right_by_def trim_left_by_def dropWhile_eq_Nil_conv
      dest: set_dropWhileD) (metis dropWhile_eq_Nil_conv hd_dropWhile hd_in_set)

lemma VerifyPayload_accepts [branch]:
  "VerifyPayload secret hdr body = None \<longleftrightarrow>
     (\<exists>tag. hdr = signaturePrefix @ tag \<and> hmac.accepts (bytes_of secret) body tag)"
proof
  assume v: "VerifyPayload secret hdr body = None"
  then have "has_prefix hdr signaturePrefix" by (auto simp: VerifyPayload_def split: if_splits)
  then obtain tag where h: "hdr = signaturePrefix @ tag" by (auto simp: has_prefix_iff prefix_def)
  with v show "\<exists>tag. hdr = signaturePrefix @ tag \<and> hmac.accepts (bytes_of secret) body tag"
    unfolding hmac.accepts_def VerifyPayload_def
    by (auto simp del: signaturePrefix_def split: if_splits option.splits)
next
  assume "\<exists>tag. hdr = signaturePrefix @ tag \<and> hmac.accepts (bytes_of secret) body tag"
  then obtain tag where h: "hdr = signaturePrefix @ tag"
    and a: "hex_decode tag = Some (hmac_sha256 (bytes_of secret) body)"
    by (auto simp: hmac.accepts_def)
  have "CHR ''s'' \<in> set hdr" using h by simp
  moreover have "\<not> is_space (CHR ''s'')" by code_simp
  ultimately have ns: "trim_space hdr \<noteq> []" by (auto simp: trim_space_Nil)
  have "has_prefix hdr signaturePrefix" using h by (simp add: has_prefix_iff del: signaturePrefix_def)
  moreover have "trim_prefix hdr signaturePrefix = tag" using h by (simp del: signaturePrefix_def)
  ultimately show "VerifyPayload secret hdr body = None" using a ns by (simp add: VerifyPayload_def)
qed

lemma VerifyPayload_SignPayload [simp, branch]:
  "VerifyPayload secret (SignPayload secret body) body = None"
  using hmac.accepts_encoded by (auto simp: VerifyPayload_accepts SignPayload_def)

text \<open>
  Property C27. A signature header is accepted for a body exactly when it is what
  \<open>SignPayload\<close> computes for that secret and those bytes, up to the case of the hexadecimal
  digits: a different prefix, a truncated or padded tag, white space around it and a tag of
  another body are all refused.
\<close>

theorem verify_accepts_exactly:
  "VerifyPayload secret hdr body = None \<longleftrightarrow>
     (\<exists>tag. hdr = signaturePrefix @ tag \<and> signaturePrefix @ to_lower tag = SignPayload secret body)"
proof -
  have "hmac.accepts k m tag \<longleftrightarrow> to_lower tag = hex_encode (hmac_sha256 k m)" for k m tag
    by (metis hmac.accepts_only hmac.accepts_def hex_decode_encode hex_decode_lower)
  then show ?thesis by (simp add: VerifyPayload_accepts SignPayload_def)
qed

end
