(* ===== verification/ActionStore.thy ===== *)
theory ActionStore
  imports Events
begin

text \<open>
  \<open>internal/actions/store.go\<close>: the in-memory store of enforcement actions, a state machine with an
  audit record per transition and bounded eviction. Every operation runs under the store's mutex and
  is a function of the store; \<open>now\<close> is the instant of the call. The audit writer is an argument of
  the store: given the records it was handed before and a new one it says whether the write
  succeeded (\<open>None\<close> is a nil writer). \<open>st_trail\<close> holds the records handed to it, oldest first. The
  process-wide \<open>actionCounter\<close> is a field of the store, of which there is one per process.
\<close>

record audit_entry =
  au_Timestamp :: int
  au_ActionID :: string
  au_FromState :: string
  au_ToState :: string
  au_Actor :: string
  au_Reason :: string
  au_DetectionID :: string
  au_TargetMAC :: string
  au_TargetIP :: string
  au_ActionType :: string

type_synonym audit_writer = "audit_entry list \<Rightarrow> audit_entry \<Rightarrow> bool"

record store_options =
  so_MaxActions :: int
  so_IDPrefix :: string

record store =
  st_actions :: "(string, enforcement_action) gomap"
  st_order :: "string list"
  st_audit :: "audit_writer option"
  st_opts :: store_options
  st_counter :: nat
  st_trail :: "audit_entry list"
  st_auditFailures :: nat

datatype store_error = NotFound string | Illegal string string string | CannotRevert string string

fun store_error_text :: "store_error \<Rightarrow> string" where
  "store_error_text (NotFound i) = ''action '' @ i @ '' not found''"
| "store_error_text (Illegal i st to) = ''action '' @ i @ '' is '' @ st @ '', cannot transition to '' @ to"
| "store_error_text (CannotRevert i st) = ''action '' @ i @ '' is '' @ st @ '', cannot revert''"

subsection \<open>Operations\<close>

definition NewStore :: "audit_writer option \<Rightarrow> store_options \<Rightarrow> store" where
  "NewStore audit opts =
     (let opts = (if so_MaxActions opts \<le> 0 then opts \<lparr> so_MaxActions := 10000 \<rparr> else opts);
          opts = (if so_IDPrefix opts = [] then opts \<lparr> so_IDPrefix := ''ACT'' \<rparr> else opts)
      in \<lparr> st_actions = [], st_order = [], st_audit = audit, st_opts = opts, st_counter = 0,
           st_trail = [], st_auditFailures = 0 \<rparr>)"

definition terminalStates :: "string list" where
  "terminalStates = [StateReverted, StateRejected, StateFailed]"

definition writeAudit :: "instant \<Rightarrow> string \<Rightarrow> string \<Rightarrow> string \<Rightarrow> string \<Rightarrow> enforcement_action \<Rightarrow> store \<Rightarrow> store" where
  "writeAudit now fromst tost actor reason a s =
     (case st_audit s of
        None \<Rightarrow> s
      | Some w \<Rightarrow>
          (let entry = \<lparr> au_Timestamp = now div 1000000, au_ActionID = ea_ID a, au_FromState = fromst,
                 au_ToState = tost, au_Actor = actor, au_Reason = reason, au_DetectionID = ea_DetectionID a,
                 au_TargetMAC = ea_TargetMAC a, au_TargetIP = ea_TargetIP a, au_ActionType = ea_ActionType a \<rparr>
           in s \<lparr> st_trail := st_trail s @ [entry],
                  st_auditFailures := st_auditFailures s + (if w (st_trail s) entry then 0 else 1) \<rparr>))"

text \<open>The loop of \<open>evictLocked\<close>: the actions still to drop, the order left to scan, the map.\<close>

fun evict_loop :: "nat \<Rightarrow> string list \<Rightarrow> (string, enforcement_action) gomap
    \<Rightarrow> (string, enforcement_action) gomap \<times> string list" where
  "evict_loop target [] acts = (acts, [])"
| "evict_loop target (aid # ids) acts =
     (case mget acts aid of
        None \<Rightarrow> evict_loop target ids acts
      | Some a \<Rightarrow>
          if target > 0 \<and> ea_State a \<in> set terminalStates
          then evict_loop (target - 1) ids (mdel aid acts)
          else (let (acts', kept) = evict_loop target ids acts in (acts', aid # kept)))"

definition evictLocked :: "store \<Rightarrow> store" where
  "evictLocked s =
     (if int (length (st_actions s)) \<le> so_MaxActions (st_opts s) then s
      else (let target = nat (int (length (st_actions s)) - so_MaxActions (st_opts s));
                (acts, kept) = evict_loop target (st_order s) (st_actions s)
            in s \<lparr> st_actions := acts, st_order := kept \<rparr>))"

definition Create :: "instant \<Rightarrow> string \<Rightarrow> string \<Rightarrow> string \<Rightarrow> string \<Rightarrow> string \<Rightarrow> int \<Rightarrow> bool \<Rightarrow> string
    \<Rightarrow> store \<Rightarrow> enforcement_action \<times> store" where
  "Create now detectionID targetMAC targetIP actionType policyRule ttl autoApproved domain s =
     (let n = Suc (st_counter s);
          aid = so_IDPrefix (st_opts s) @ ''-'' @ show_nat n;
          state = (if autoApproved then StateApproved else StatePending);
          approvedBy = (if autoApproved then ''auto-policy'' else []);
          expiresAt = (if ttl > 0 then Some (now + seconds ttl) else None);
          action = \<lparr> ea_SchemaVersion = EnforcementSchemaVersion, ea_ID = aid, ea_Timestamp = now,
            ea_DetectionID = detectionID, ea_ActionType = actionType, ea_State = state,
            ea_TargetMAC = targetMAC, ea_TargetIP = targetIP, ea_BlockedDomain = domain,
            ea_PolicyRule = policyRule, ea_AutoApproved = autoApproved, ea_TTLSeconds = ttl,
            ea_ExpiresAt = expiresAt, ea_RevertedAt = None, ea_ApprovedBy = approvedBy,
            ea_Reason = [], ea_FailureReason = [] \<rparr>;
          s1 = s \<lparr> st_counter := n, st_actions := mput aid action (st_actions s), st_order := st_order s @ [aid] \<rparr>
      in (action, writeAudit now [] state ''system'' ''created'' action (evictLocked s1)))"

definition set_action :: "string \<Rightarrow> enforcement_action \<Rightarrow> store \<Rightarrow> store" where
  "set_action aid a s = s \<lparr> st_actions := mput aid a (st_actions s) \<rparr>"

definition transition :: "instant \<Rightarrow> string \<Rightarrow> string \<Rightarrow> string \<Rightarrow> string \<Rightarrow> string list
    \<Rightarrow> store \<Rightarrow> store_error option \<times> store" where
  "transition now aid to actor reason allowedFrom s =
     (case mget (st_actions s) aid of
        None \<Rightarrow> (Some (NotFound aid), s)
      | Some a \<Rightarrow>
          if ea_State a = to then (None, s)
          else if ea_State a \<notin> set allowedFrom then (Some (Illegal aid (ea_State a) to), s)
          else (let a1 = a \<lparr> ea_State := to \<rparr>;
                    a2 = (if to = StateApproved then a1 \<lparr> ea_ApprovedBy := actor \<rparr> else a1)
                in (None, writeAudit now (ea_State a) to actor reason a2 (set_action aid a2 s))))"

definition Approve :: "instant \<Rightarrow> string \<Rightarrow> string \<Rightarrow> store \<Rightarrow> store_error option \<times> store" where
  "Approve now aid approvedBy s =
     transition now aid StateApproved approvedBy (''approved by '' @ approvedBy) [StatePending] s"

definition Reject :: "instant \<Rightarrow> string \<Rightarrow> string \<Rightarrow> store \<Rightarrow> store_error option \<times> store" where
  "Reject now aid reason s = transition now aid StateRejected ''operator'' reason [StatePending] s"

definition Activate :: "instant \<Rightarrow> string \<Rightarrow> store \<Rightarrow> store_error option \<times> store" where
  "Activate now aid s = transition now aid StateActive ''system'' ''enforcement applied'' [StateApproved] s"

definition Revert :: "instant \<Rightarrow> string \<Rightarrow> string \<Rightarrow> store \<Rightarrow> store_error option \<times> store" where
  "Revert now aid reason s =
     (case mget (st_actions s) aid of
        None \<Rightarrow> (Some (NotFound aid), s)
      | Some a \<Rightarrow>
          if ea_State a = StateReverted then (None, s)
          else if ea_State a \<noteq> StateActive \<and> ea_State a \<noteq> StateFailed
          then (Some (CannotRevert aid (ea_State a)), s)
          else (let a' = a \<lparr> ea_State := StateReverted, ea_RevertedAt := Some now \<rparr>
                in (None, writeAudit now (ea_State a) StateReverted ''system'' reason a' (set_action aid a' s))))"

definition RecordFailure :: "instant \<Rightarrow> string \<Rightarrow> string \<Rightarrow> store \<Rightarrow> store" where
  "RecordFailure now aid reason s =
     (case mget (st_actions s) aid of
        None \<Rightarrow> s
      | Some a \<Rightarrow>
          (let a' = a \<lparr> ea_State := StateFailed, ea_FailureReason := reason \<rparr>
           in writeAudit now (ea_State a) StateFailed ''system'' reason a' (set_action aid a' s)))"

definition Get :: "string \<Rightarrow> store \<Rightarrow> enforcement_action option" where
  "Get aid s = mget (st_actions s) aid"

definition ListByState :: "string \<Rightarrow> store \<Rightarrow> enforcement_action list" where
  "ListByState state s = filter (\<lambda>a. ea_State a = state) (map snd (st_actions s))"

definition ListExpired :: "instant \<Rightarrow> store \<Rightarrow> enforcement_action list" where
  "ListExpired now s =
     filter (\<lambda>a. ea_State a = StateActive \<and> (case ea_ExpiresAt a of None \<Rightarrow> False | Some t \<Rightarrow> now > t))
       (map snd (st_actions s))"

subsection \<open>The lifecycle and its audit trail\<close>

text \<open>The specification: which state may follow which; the empty string is \<open>not yet created\<close>.\<close>

inductive legal_move :: "string \<Rightarrow> string \<Rightarrow> bool" where
  created_pending: "legal_move [] StatePending"
| created_approved: "legal_move [] StateApproved"
| approved: "legal_move StatePending StateApproved"
| rejected: "legal_move StatePending StateRejected"
| activated: "legal_move StateApproved StateActive"
| reverted: "legal_move StateActive StateReverted"
| reverted_failed: "legal_move StateFailed StateReverted"
| failed: "st \<noteq> [] \<Longrightarrow> legal_move st StateFailed"

code_pred legal_move .

inductive_simps legal_move_to_active: "legal_move st StateActive"
inductive_simps legal_move_to_reverted: "legal_move st StateReverted"
inductive_simps legal_move_to_rejected: "legal_move st StateRejected"
inductive_simps legal_move_from_rejected: "legal_move StateRejected st"
inductive_simps legal_move_from_reverted: "legal_move StateReverted st"

text \<open>Reading the trail back: the last state recorded for each action, and whether every record
  starts where the one before it ended and makes a legal move.\<close>

fun replay_from :: "(string \<Rightarrow> string) \<Rightarrow> audit_entry list \<Rightarrow> string \<Rightarrow> string" where
  "replay_from f [] = f"
| "replay_from f (e # es) = replay_from (f (au_ActionID e := au_ToState e)) es"

definition replay :: "audit_entry list \<Rightarrow> string \<Rightarrow> string" where
  "replay = replay_from (\<lambda>_. [])"

fun legal_from :: "(string \<Rightarrow> string) \<Rightarrow> audit_entry list \<Rightarrow> bool" where
  "legal_from f [] = True"
| "legal_from f (e # es) =
     (au_FromState e = f (au_ActionID e) \<and> legal_move (au_FromState e) (au_ToState e)
      \<and> legal_from (f (au_ActionID e := au_ToState e)) es)"

definition legal_trail :: "audit_entry list \<Rightarrow> bool" where
  "legal_trail = legal_from (\<lambda>_. [])"

lemma replay_from_snoc: "replay_from f (es @ [e]) = (replay_from f es) (au_ActionID e := au_ToState e)"
  by (induction es arbitrary: f) auto

lemma legal_from_snoc: "legal_from f (es @ [e]) \<longleftrightarrow> legal_from f es
     \<and> au_FromState e = replay_from f es (au_ActionID e) \<and> legal_move (au_FromState e) (au_ToState e)"
  by (induction es arbitrary: f) auto

lemma replay_Nil [simp]: "replay [] x = []"
  by (simp add: replay_def)

lemma replay_snoc [simp]:
  "replay (es @ [e]) = (replay es) (au_ActionID e := au_ToState e)"
  by (simp add: replay_def replay_from_snoc)

lemma legal_trail_Nil [simp]: "legal_trail []"
  by (simp add: legal_trail_def)

lemma legal_trail_snoc [simp]:
  "legal_trail (es @ [e]) \<longleftrightarrow> legal_trail es
     \<and> au_FromState e = replay es (au_ActionID e) \<and> legal_move (au_FromState e) (au_ToState e)"
  by (simp add: legal_trail_def legal_from_snoc replay_def)

definition action_id :: "store \<Rightarrow> nat \<Rightarrow> string" where
  "action_id s n = so_IDPrefix (st_opts s) @ ''-'' @ show_nat n"

text \<open>
  The invariant: map and insertion order agree, every action is filed under its own id, ids come from
  the counter, and the trail explains the state of every stored action.
\<close>

definition order_ok :: "store \<Rightarrow> bool" where
  "order_ok s \<longleftrightarrow> mwf (st_actions s) \<and> distinct (st_order s) \<and> set (st_order s) = dom (mget (st_actions s))
     \<and> so_MaxActions (st_opts s) > 0"

definition store_inv :: "store \<Rightarrow> bool" where
  "store_inv s \<longleftrightarrow> order_ok s \<and>
     (\<forall>i a. mget (st_actions s) i = Some a \<longrightarrow>
        ea_ID a = i \<and> ea_State a \<noteq> [] \<and> (\<exists>n \<le> st_counter s. i = action_id s n)) \<and>
     (\<forall>e \<in> set (st_trail s). \<exists>n \<le> st_counter s. au_ActionID e = action_id s n) \<and>
     (st_audit s \<noteq> None \<longrightarrow> legal_trail (st_trail s) \<and>
        (\<forall>i a. mget (st_actions s) i = Some a \<longrightarrow> replay (st_trail s) i = ea_State a))"

subsection \<open>Eviction\<close>

definition live :: "(string, enforcement_action) gomap \<Rightarrow> string \<Rightarrow> bool" where
  "live acts i = (case mget acts i of None \<Rightarrow> False | Some a \<Rightarrow> ea_State a \<notin> set terminalStates)"

lemma evict_loop_zero: "\<forall>i \<in> set ids. mget acts i \<noteq> None \<Longrightarrow> evict_loop 0 ids acts = (acts, ids)"
  by (induction ids) (auto split: option.splits)

lemma evict_loop_spec:
  assumes "distinct ids" "\<forall>i \<in> set ids. mget acts i \<noteq> None" "mwf acts" "evict_loop t ids acts = (acts', kept)"
  shows "\<exists>pre post. ids = pre @ post \<and> kept = filter (live acts) pre @ post \<and> mwf acts'
    \<and> (\<forall>i. mget acts' i = (if i \<in> set ids \<and> i \<notin> set kept then None else mget acts i))
    \<and> length acts' + (length ids - length kept) = length acts \<and> length ids - length kept \<le> t
    \<and> (post \<noteq> [] \<longrightarrow> length ids - length kept = t)"
  using assms
proof (induction ids arbitrary: t acts acts' kept)
  case Nil
  then show ?case by simp
next
  case (Cons i ids)
  then obtain a where a: "mget acts i = Some a" by auto
  show ?case
  proof (cases "t = 0")
    case True
    have "\<forall>j \<in> set (i # ids). mget acts j \<noteq> None" using Cons.prems by blast
    then have "evict_loop 0 (i # ids) acts = (acts, i # ids)" by (rule evict_loop_zero)
    with True Cons.prems show ?thesis by (intro exI [of _ "[]"] exI [of _ "i # ids"]) auto
  next
    case t: False
    show ?thesis
    proof (cases "ea_State a \<in> set terminalStates")
      case True
      let ?m = "mdel i acts"
      have len: "length acts = Suc (length ?m)"
        using am.size_del [OF Cons.prems(3), of i] a by (cases acts) auto
      have lv: "live ?m j = live acts j" if "j \<in> set ids" for j
        using that Cons.prems(1) by (auto simp: live_def mget_del)
      have "evict_loop (t - 1) ids ?m = (acts', kept)" using Cons.prems(4) a True t by simp
      moreover have "\<forall>j \<in> set ids. mget ?m j \<noteq> None" "mwf ?m" "distinct ids"
        using Cons.prems by (auto simp: mget_del)
      ultimately obtain pre post where *: "ids = pre @ post" "kept = filter (live ?m) pre @ post" "mwf acts'"
        "\<forall>j. mget acts' j = (if j \<in> set ids \<and> j \<notin> set kept then None else mget ?m j)"
        "length acts' + (length ids - length kept) = length ?m" "length ids - length kept \<le> t - 1"
        "post \<noteq> [] \<longrightarrow> length ids - length kept = t - 1"
        using Cons.IH [of ?m "t - 1" acts' kept] by blast
      have nl: "\<not> live acts i" using a True by (simp add: live_def)
      have k: "kept = filter (live acts) (i # pre) @ post"
        using *(1,2) lv nl by (auto intro: filter_cong)
      have kl: "length kept \<le> length ids" using *(1,2) by (simp add: length_filter_le)
      have ik: "i \<notin> set kept" using *(1,2) Cons.prems(1) by auto
      have c1: "i # ids = (i # pre) @ post" using *(1) by simp
      have c2: "\<forall>j. mget acts' j = (if j \<in> set (i # ids) \<and> j \<notin> set kept then None else mget acts j)"
        using *(4) ik by (simp add: mget_del)
      have c3: "length acts' + (length (i # ids) - length kept) = length acts"
        using *(5) len kl by simp
      have c4: "length (i # ids) - length kept \<le> t" using *(6) t kl by simp
      have c5: "post \<noteq> [] \<longrightarrow> length (i # ids) - length kept = t" using *(7) t kl by auto
      show ?thesis using c1 k *(3) c2 c3 c4 c5 by blast
    next
      case False
      obtain kept' where k: "kept = i # kept'" and e: "evict_loop t ids acts = (acts', kept')"
        using Cons.prems(4) a False by (auto split: prod.splits)
      have d: "distinct ids" "\<forall>j \<in> set ids. mget acts j \<noteq> None" using Cons.prems by auto
      obtain pre post where *: "ids = pre @ post" "kept' = filter (live acts) pre @ post" "mwf acts'"
        "\<forall>j. mget acts' j = (if j \<in> set ids \<and> j \<notin> set kept' then None else mget acts j)"
        "length acts' + (length ids - length kept') = length acts" "length ids - length kept' \<le> t"
        "post \<noteq> [] \<longrightarrow> length ids - length kept' = t"
        using Cons.IH [OF d Cons.prems(3) e] by blast
      have lv: "live acts i" using a False by (simp add: live_def)
      have c1: "i # ids = (i # pre) @ post" using *(1) by simp
      have c2: "kept = filter (live acts) (i # pre) @ post" using *(2) k lv by simp
      have c3: "\<forall>j. mget acts' j = (if j \<in> set (i # ids) \<and> j \<notin> set kept then None else mget acts j)"
        using *(4) k Cons.prems(1) by simp
      have c4: "length acts' + (length (i # ids) - length kept) = length acts" using *(5) k by simp
      have c5: "length (i # ids) - length kept \<le> t" using *(6) k by simp
      have c6: "post \<noteq> [] \<longrightarrow> length (i # ids) - length kept = t" using *(7) k by simp
      show ?thesis using c1 c2 *(3) c3 c4 c5 c6 by blast
    qed
  qed
qed

lemma evictLocked_spec:
  assumes "order_ok s"
  obtains pre post where "st_order s = pre @ post"
    and "st_order (evictLocked s) = filter (live (st_actions s)) pre @ post"
    and "order_ok (evictLocked s)"
    and "\<forall>i. mget (st_actions (evictLocked s)) i =
          (if i \<in> set (st_order (evictLocked s)) then mget (st_actions s) i else None)"
    and "int (length (st_actions (evictLocked s))) \<le> so_MaxActions (st_opts s) \<or> post = []"
    and "st_trail (evictLocked s) = st_trail s \<and> st_opts (evictLocked s) = st_opts s
      \<and> st_counter (evictLocked s) = st_counter s \<and> st_audit (evictLocked s) = st_audit s
      \<and> st_auditFailures (evictLocked s) = st_auditFailures s"
proof (cases "int (length (st_actions s)) \<le> so_MaxActions (st_opts s)")
  case True
  with assms show ?thesis
    by (intro that [of "[]" "st_order s"]) (auto simp: evictLocked_def order_ok_def)
next
  case False
  let ?t = "nat (int (length (st_actions s)) - so_MaxActions (st_opts s))"
  obtain acts kept where e: "evict_loop ?t (st_order s) (st_actions s) = (acts, kept)" by fastforce
  have d: "\<forall>i \<in> set (st_order s). mget (st_actions s) i \<noteq> None" using assms by (auto simp: order_ok_def)
  have w: "distinct (st_order s)" "mwf (st_actions s)" using assms by (auto simp: order_ok_def)
  obtain pre post where *: "st_order s = pre @ post" "kept = filter (live (st_actions s)) pre @ post" "mwf acts"
    "\<forall>i. mget acts i = (if i \<in> set (st_order s) \<and> i \<notin> set kept then None else mget (st_actions s) i)"
    "length acts + (length (st_order s) - length kept) = length (st_actions s)"
    "post \<noteq> [] \<longrightarrow> length (st_order s) - length kept = ?t"
    using evict_loop_spec [OF w(1) d w(2) e] by blast
  have ev: "evictLocked s = s \<lparr> st_actions := acts, st_order := kept \<rparr>"
    using False e by (simp add: evictLocked_def)
  have kd: "i \<in> set kept \<Longrightarrow> i \<in> dom (mget (st_actions s))" for i
    using *(1,2) assms by (auto simp: order_ok_def)
  have g: "\<forall>i. mget acts i = (if i \<in> set kept then mget (st_actions s) i else None)"
    using *(4) assms kd by (auto simp: order_ok_def domIff)
  have "set kept = dom (mget acts)" using g kd by (auto simp: dom_def split: if_splits)
  moreover have "distinct kept" using *(1,2) w(1) by auto
  ultimately have ok: "order_ok (evictLocked s)"
    using *(3) assms unfolding ev by (simp add: order_ok_def)
  have len: "int (length acts) \<le> so_MaxActions (st_opts s) \<or> post = []"
    using *(5,6) False assms by (auto simp: order_ok_def)
  have o: "st_order (evictLocked s) = filter (live (st_actions s)) pre @ post" unfolding ev by (simp add: *(2))
  have gg: "\<forall>i. mget (st_actions (evictLocked s)) i =
      (if i \<in> set (st_order (evictLocked s)) then mget (st_actions s) i else None)"
    unfolding ev using g by simp
  have l: "int (length (st_actions (evictLocked s))) \<le> so_MaxActions (st_opts s) \<or> post = []"
    unfolding ev using len by simp
  have rest: "st_trail (evictLocked s) = st_trail s \<and> st_opts (evictLocked s) = st_opts s
      \<and> st_counter (evictLocked s) = st_counter s \<and> st_audit (evictLocked s) = st_audit s
      \<and> st_auditFailures (evictLocked s) = st_auditFailures s" unfolding ev by simp
  show ?thesis by (fact that [OF *(1) o ok gg l rest])
qed

subsection \<open>Every operation keeps the invariant\<close>

lemma action_id_inject [simp]: "action_id s m = action_id s n \<longleftrightarrow> m = n"
  by (simp add: action_id_def)

lemma writeAudit_fields [simp]:
  "st_actions (writeAudit now f t ac r a s) = st_actions s" "st_order (writeAudit now f t ac r a s) = st_order s"
  "st_opts (writeAudit now f t ac r a s) = st_opts s" "st_counter (writeAudit now f t ac r a s) = st_counter s"
  "st_audit (writeAudit now f t ac r a s) = st_audit s"
  by (simp_all add: writeAudit_def Let_def split: option.splits)

lemma writeAudit_trail:
  "st_audit s = None \<Longrightarrow> st_trail (writeAudit now f t ac r a s) = st_trail s"
  "st_audit s \<noteq> None \<Longrightarrow> \<exists>e. st_trail (writeAudit now f t ac r a s) = st_trail s @ [e]
     \<and> au_ActionID e = ea_ID a \<and> au_FromState e = f \<and> au_ToState e = t"
  by (auto simp: writeAudit_def Let_def)

lemma set_action_fields [simp]:
  "st_actions (set_action i a s) = mput i a (st_actions s)" "st_order (set_action i a s) = st_order s"
  "st_opts (set_action i a s) = st_opts s" "st_counter (set_action i a s) = st_counter s"
  "st_audit (set_action i a s) = st_audit s" "st_trail (set_action i a s) = st_trail s"
  by (simp_all add: set_action_def)

lemma action_id_cong: "st_opts s' = st_opts s \<Longrightarrow> action_id s' = action_id s"
  by (simp add: action_id_def fun_eq_iff)

text \<open>A legal move of a stored action, recorded in the trail.\<close>

lemma store_inv_move:
  assumes inv: "store_inv s" and a: "mget (st_actions s) i = Some a"
    and f: "f = ea_State a" and a': "ea_ID a' = i" "ea_State a' = to" "to \<noteq> []" and mv: "legal_move f to"
  shows "store_inv (writeAudit now f to actor reason a' (set_action i a' s))"
    (is "store_inv ?s")
proof -
  have id: "action_id ?s = action_id s" by (rule action_id_cong) simp
  have ord: "order_ok ?s" using inv a by (auto simp: store_inv_def order_ok_def)
  obtain n where n: "n \<le> st_counter s" "i = action_id s n" using inv a by (auto simp: store_inv_def)
  have ids: "\<forall>j b. mget (st_actions ?s) j = Some b \<longrightarrow>
      ea_ID b = j \<and> ea_State b \<noteq> [] \<and> (\<exists>n \<le> st_counter ?s. j = action_id ?s n)"
    using inv a' n unfolding id by (auto simp: store_inv_def mget_put)
  show ?thesis
  proof (cases "st_audit s")
    case None
    then show ?thesis using inv ord ids by (simp add: store_inv_def writeAudit_trail id)
  next
    case (Some w)
    then obtain e where e: "st_trail ?s = st_trail s @ [e]" "au_ActionID e = i" "au_FromState e = f"
      "au_ToState e = to"
      using writeAudit_trail(2) [of "set_action i a' s" now f to actor reason a'] a' by auto
    have r: "replay (st_trail s) i = f" "legal_trail (st_trail s)"
      using inv a Some f by (auto simp: store_inv_def)
    have "\<forall>j b. mget (st_actions ?s) j = Some b \<longrightarrow> replay (st_trail ?s) j = ea_State b"
      using inv a' e Some by (auto simp: store_inv_def mget_put)
    moreover have "\<forall>x \<in> set (st_trail ?s). \<exists>n \<le> st_counter ?s. au_ActionID x = action_id ?s n"
      using inv e n unfolding id by (auto simp: store_inv_def)
    moreover have "legal_trail (st_trail ?s)" using e r mv by simp
    ultimately show ?thesis using ord ids by (simp add: store_inv_def)
  qed
qed

lemma transition_inv:
  assumes "store_inv s" and "to \<noteq> []" and "\<And>f. f \<in> set allowed \<Longrightarrow> legal_move f to"
  shows "store_inv (snd (transition now i to actor reason allowed s))"
proof (cases "mget (st_actions s) i")
  case (Some a)
  then have "ea_ID a = i" using assms(1) by (simp add: store_inv_def)
  with Some assms show ?thesis
    by (auto simp: transition_def Let_def intro!: store_inv_move)
qed (use assms in \<open>simp add: transition_def\<close>)

lemma store_inv_ops [wf_intro]:
  assumes "store_inv s"
  shows "store_inv (snd (Approve now i who s))" and "store_inv (snd (Reject now i reason s))"
    and "store_inv (snd (Activate now i s))" and "store_inv (snd (Revert now i reason s))"
    and "store_inv (RecordFailure now i reason s)"
proof -
  show "store_inv (snd (Approve now i who s))" unfolding Approve_def
    by (rule transition_inv [OF assms]) (use approved in auto)
  show "store_inv (snd (Reject now i reason s))" unfolding Reject_def
    by (rule transition_inv [OF assms]) (use rejected in auto)
  show "store_inv (snd (Activate now i s))" unfolding Activate_def
    by (rule transition_inv [OF assms]) (use activated in auto)
  have st: "ea_ID a = i \<and> ea_State a \<noteq> []" if "mget (st_actions s) i = Some a" for a
    using assms that by (simp add: store_inv_def)
  show "store_inv (snd (Revert now i reason s))"
    using assms st reverted reverted_failed
    by (auto simp: Revert_def Let_def split: option.splits intro!: store_inv_move)
  show "store_inv (RecordFailure now i reason s)"
    using assms st failed
    by (auto simp: RecordFailure_def Let_def split: option.splits intro!: store_inv_move)
qed

lemma replay_fresh: "\<forall>e \<in> set es. au_ActionID e \<noteq> i \<Longrightarrow> replay es i = []"
  by (induction es rule: rev_induct) auto

lemma Create_fresh:
  assumes "store_inv s"
  shows "mget (st_actions s) (action_id s (Suc (st_counter s))) = None"
    and "\<forall>e \<in> set (st_trail s). au_ActionID e \<noteq> action_id s (Suc (st_counter s))"
proof -
  show "mget (st_actions s) (action_id s (Suc (st_counter s))) = None"
  proof (rule ccontr)
    assume "mget (st_actions s) (action_id s (Suc (st_counter s))) \<noteq> None"
    then obtain n where "n \<le> st_counter s" "action_id s (Suc (st_counter s)) = action_id s n"
      using assms by (force simp: store_inv_def)
    then show False by simp
  qed
  show "\<forall>e \<in> set (st_trail s). au_ActionID e \<noteq> action_id s (Suc (st_counter s))"
    using assms by (fastforce simp: store_inv_def)
qed

definition created :: "instant \<Rightarrow> string \<Rightarrow> string \<Rightarrow> string \<Rightarrow> string \<Rightarrow> string \<Rightarrow> int \<Rightarrow> bool \<Rightarrow> string
    \<Rightarrow> store \<Rightarrow> store" where
  "created now det mac ip ty rule ttl auto dn s =
     s \<lparr> st_counter := Suc (st_counter s),
       st_actions := mput (action_id s (Suc (st_counter s))) (fst (Create now det mac ip ty rule ttl auto dn s)) (st_actions s),
       st_order := st_order s @ [action_id s (Suc (st_counter s))] \<rparr>"

lemma Create_action:
  "ea_ID (fst (Create now det mac ip ty rule ttl auto dn s)) = action_id s (Suc (st_counter s))"
  "ea_State (fst (Create now det mac ip ty rule ttl auto dn s)) = (if auto then StateApproved else StatePending)"
  by (simp_all add: Create_def Let_def action_id_def)

lemma snd_Create:
  "snd (Create now det mac ip ty rule ttl auto dn s) =
     writeAudit now [] (if auto then StateApproved else StatePending) ''system'' ''created''
       (fst (Create now det mac ip ty rule ttl auto dn s)) (evictLocked (created now det mac ip ty rule ttl auto dn s))"
  by (simp add: created_def action_id_def Create_def Let_def)

lemma created_order_ok:
  assumes "store_inv s" shows "order_ok (created now det mac ip ty rule ttl auto dn s)"
proof -
  have o: "order_ok s" using assms by (simp add: store_inv_def)
  then have "action_id s (Suc (st_counter s)) \<notin> set (st_order s)"
    using Create_fresh(1) [OF assms] by (simp add: order_ok_def domIff)
  with o show ?thesis by (auto simp: order_ok_def created_def mget_put dom_def)
qed

text \<open>Creation: the new action survives eviction, for it is not terminal.\<close>

lemma evicted_created:
  fixes now det mac ip ty rule ttl auto dn
  assumes inv: "store_inv s"
  defines "n \<equiv> action_id s (Suc (st_counter s))"
  defines "a \<equiv> fst (Create now det mac ip ty rule ttl auto dn s)"
  defines "t \<equiv> evictLocked (created now det mac ip ty rule ttl auto dn s)"
  shows "order_ok t" and "mget (st_actions t) n = Some a"
    and "\<forall>j. j \<noteq> n \<longrightarrow> mget (st_actions t) j \<in> {None, mget (st_actions s) j}"
    and "st_trail t = st_trail s \<and> st_opts t = st_opts s \<and> st_counter t = Suc (st_counter s) \<and> st_audit t = st_audit s"
proof -
  let ?c = "created now det mac ip ty rule ttl auto dn s"
  have oc: "order_ok ?c" by (rule created_order_ok [OF inv])
  obtain pre post where o: "st_order ?c = pre @ post"
      and k: "st_order t = filter (live (st_actions ?c)) pre @ post" and ot: "order_ok t"
      and g: "\<forall>i. mget (st_actions t) i = (if i \<in> set (st_order t) then mget (st_actions ?c) i else None)"
      and r: "st_trail t = st_trail ?c \<and> st_opts t = st_opts ?c \<and> st_counter t = st_counter ?c \<and> st_audit t = st_audit ?c"
    unfolding t_def by (rule evictLocked_spec [OF oc]) blast
  have c: "mget (st_actions ?c) j = (if j = n then Some a else mget (st_actions s) j)" for j
    by (simp add: created_def n_def a_def mget_put)
  have "live (st_actions ?c) n" using Create_action(2)
    by (simp add: live_def c a_def terminalStates_def)
  moreover have "n \<in> set (st_order ?c)" by (simp add: created_def n_def)
  ultimately have "n \<in> set (st_order t)" using o k by auto
  then show "mget (st_actions t) n = Some a" using g c by simp
  show "order_ok t" by (rule ot)
  show "\<forall>j. j \<noteq> n \<longrightarrow> mget (st_actions t) j \<in> {None, mget (st_actions s) j}" using g c by simp
  show "st_trail t = st_trail s \<and> st_opts t = st_opts s \<and> st_counter t = Suc (st_counter s) \<and> st_audit t = st_audit s"
    using r by (simp add: created_def)
qed

lemma store_inv_Create [wf_intro]:
  assumes inv: "store_inv s"
  shows "store_inv (snd (Create now det mac ip ty rule ttl auto dn s))"
proof -
  let ?n = "action_id s (Suc (st_counter s))"
  let ?a = "fst (Create now det mac ip ty rule ttl auto dn s)"
  let ?t = "evictLocked (created now det mac ip ty rule ttl auto dn s)"
  let ?st = "if auto then StateApproved else StatePending"
  let ?u = "snd (Create now det mac ip ty rule ttl auto dn s)"
  note ev = evicted_created [OF inv, of now det mac ip ty rule ttl auto dn]
  have u: "?u = writeAudit now [] ?st ''system'' ''created'' ?a ?t" by (rule snd_Create)
  have id: "action_id ?u = action_id s" by (rule action_id_cong) (use ev(4) in \<open>simp add: u\<close>)
  have m: "mget (st_actions ?u) j = Some b \<Longrightarrow> (j = ?n \<and> b = ?a) \<or> (j \<noteq> ?n \<and> mget (st_actions s) j = Some b)" for j b
    using ev(2,3) by (cases "j = ?n") (auto simp: u)
  have cnt: "st_counter ?u = Suc (st_counter s)" using ev(4) by (simp add: u)
  have ids: "\<forall>j b. mget (st_actions ?u) j = Some b \<longrightarrow>
      ea_ID b = j \<and> ea_State b \<noteq> [] \<and> (\<exists>n \<le> st_counter ?u. j = action_id ?u n)"
  proof (intro allI impI)
    fix j b assume "mget (st_actions ?u) j = Some b"
    from m [OF this] show "ea_ID b = j \<and> ea_State b \<noteq> [] \<and> (\<exists>n \<le> st_counter ?u. j = action_id ?u n)"
    proof
      assume "j = ?n \<and> b = ?a"
      then show ?thesis unfolding id cnt by (cases auto) (auto simp: Create_action)
    next
      assume "j \<noteq> ?n \<and> mget (st_actions s) j = Some b"
      then have "ea_ID b = j \<and> ea_State b \<noteq> [] \<and> (\<exists>n \<le> st_counter s. j = action_id s n)"
        using inv unfolding store_inv_def by blast
      then show ?thesis unfolding id cnt using le_SucI by blast
    qed
  qed
  have ord: "order_ok ?u" using ev(1) by (simp add: u order_ok_def)
  show ?thesis
  proof (cases "st_audit s")
    case None
    then have "st_trail ?u = st_trail s" using ev(4) by (simp add: u writeAudit_trail)
    moreover have "st_audit ?u = None" using None ev(4) by (simp add: u)
    moreover have "\<forall>e \<in> set (st_trail s). \<exists>n \<le> Suc (st_counter s). au_ActionID e = action_id s n"
      using inv by (fastforce simp: store_inv_def intro: le_SucI)
    ultimately show ?thesis using ord ids by (simp add: store_inv_def id cnt)
  next
    case (Some w)
    then obtain e where e: "st_trail ?u = st_trail s @ [e]" "au_ActionID e = ?n" "au_FromState e = []" "au_ToState e = ?st"
      using writeAudit_trail(2) [of ?t now "[]" ?st "''system''" "''created''" ?a] ev(4)
      by (auto simp: u Create_action)
    have r: "replay (st_trail s) ?n = []" by (rule replay_fresh [OF Create_fresh(2) [OF inv]])
    have "legal_trail (st_trail ?u)"
      using inv Some e r created_pending created_approved by (auto simp: store_inv_def)
    moreover have "\<forall>x \<in> set (st_trail ?u). \<exists>n \<le> st_counter ?u. au_ActionID x = action_id ?u n"
      using inv e unfolding id cnt by (fastforce simp: store_inv_def intro: le_SucI)
    moreover have "\<forall>j b. mget (st_actions ?u) j = Some b \<longrightarrow> replay (st_trail ?u) j = ea_State b"
    proof (intro allI impI)
      fix j b assume "mget (st_actions ?u) j = Some b"
      from m [OF this] show "replay (st_trail ?u) j = ea_State b"
        using inv Some e by (auto simp: Create_action store_inv_def)
    qed
    ultimately show ?thesis using ord ids by (simp add: store_inv_def)
  qed
qed

subsection \<open>The store as a machine\<close>

datatype store_op =
    OpCreate instant string string string string string int bool string
  | OpApprove instant string string
  | OpReject instant string string
  | OpActivate instant string
  | OpRevert instant string string
  | OpFail instant string string

fun store_run :: "store_op \<Rightarrow> store \<Rightarrow> store" where
  "store_run (OpCreate now det mac ip ty rule ttl auto dn) s = snd (Create now det mac ip ty rule ttl auto dn s)"
| "store_run (OpApprove now i who) s = snd (Approve now i who s)"
| "store_run (OpReject now i reason) s = snd (Reject now i reason s)"
| "store_run (OpActivate now i) s = snd (Activate now i s)"
| "store_run (OpRevert now i reason) s = snd (Revert now i reason s)"
| "store_run (OpFail now i reason) s = RecordFailure now i reason s"

interpretation sm: machine store_run store_inv
proof
  fix s op assume "store_inv s"
  then show "store_inv (store_run op s)" by (cases op) (simp_all add: store_inv_ops store_inv_Create)
qed

lemma NewStore_inv [wf_intro]: "store_inv (NewStore audit opts)"
  by (simp add: store_inv_def order_ok_def NewStore_def Let_def)

definition store_after :: "audit_writer option \<Rightarrow> store_options \<Rightarrow> store_op list \<Rightarrow> store" where
  "store_after audit opts ops = fold store_run ops (NewStore audit opts)"

lemma store_after_inv: "store_inv (store_after audit opts ops)"
  unfolding store_after_def by (rule sm.runs_ok [OF NewStore_inv])

lemma store_run_audit: "st_audit (store_run op s) = st_audit s"
proof -
  have "st_audit (evictLocked s) = st_audit s" for s
    by (simp add: evictLocked_def Let_def split: prod.splits)
  then show ?thesis
    by (cases op) (auto simp: snd_Create created_def Approve_def Reject_def Activate_def transition_def Revert_def
      RecordFailure_def Let_def split: option.splits)
qed

lemma store_after_audit: "st_audit (store_after audit opts ops) = audit"
proof -
  have "st_audit (fold store_run ops s) = st_audit s" for s
    by (induction ops arbitrary: s) (auto simp: store_run_audit)
  then show ?thesis by (simp add: store_after_def NewStore_def Let_def)
qed

lemma store_after_faithful:
  "legal_trail (st_trail (store_after (Some w) opts ops))"
  "map_option ea_State (Get i (store_after (Some w) opts ops))
     \<in> {None, Some (replay (st_trail (store_after (Some w) opts ops)) i)}"
  using store_after_inv [of "Some w" opts ops] store_after_audit [of "Some w" opts ops]
  by (cases "Get i (store_after (Some w) opts ops)"; auto simp: store_inv_def Get_def)+

text \<open>
  Further fact. The audit log is a faithful history. After any sequence of store operations, with any
  writer and whatever writes failed, the records handed to the writer form a legal history of the
  lifecycle (each starts in the state the previous one left and makes an allowed move), and reading
  them back gives the current state of every action still in the store, evicted ones apart.
\<close>

theorem audit_trail_faithful:
  "legal_trail (st_trail (store_after (Some w) opts ops))
   \<and> map_option ea_State (Get i (store_after (Some w) opts ops))
       \<in> {None, Some (replay (st_trail (store_after (Some w) opts ops)) i)}"
  using store_after_faithful by blast

text \<open>
  Further fact. An action id is never used twice: the id \<open>Create\<close> assigns is in no earlier audit record
  and no stored action, whatever happened before (evictions included).
\<close>

theorem Create_id_fresh:
  "ea_ID (fst (Create now det mac ip ty rule ttl auto dn (store_after audit opts ops)))
     \<notin> au_ActionID ` set (st_trail (store_after audit opts ops)) \<union> set (st_order (store_after audit opts ops))"
  using Create_fresh [OF store_after_inv, of audit opts ops] store_after_inv [of audit opts ops]
  by (auto simp: Create_action store_inv_def order_ok_def domIff)

text \<open>
  Further fact. Bounded eviction on creation. The actions dropped are terminal ones, the oldest first:
  the insertion order with the new action splits into a part from which exactly the terminal actions are
  removed and a part left alone; either the store is then within \<open>MaxActions\<close>, or nothing terminal is
  left to drop. Pending, approved and active actions always survive, unchanged.
\<close>

theorem Create_eviction:
  fixes audit opts ops now det mac ip ty rule ttl auto dn
  defines "s \<equiv> store_after audit opts ops"
  defines "a \<equiv> fst (Create now det mac ip ty rule ttl auto dn s)"
  defines "s' \<equiv> snd (Create now det mac ip ty rule ttl auto dn s)"
  defines "acts \<equiv> mput (ea_ID a) a (st_actions s)"
  shows "\<exists>pre post. st_order s @ [ea_ID a] = pre @ post \<and> st_order s' = filter (live acts) pre @ post
    \<and> (\<forall>i. Get i s' = (if i \<in> set (st_order s') then mget acts i else None))
    \<and> (int (length (st_actions s')) \<le> so_MaxActions (st_opts s) \<or> post = [])"
proof -
  have inv: "store_inv s" unfolding s_def by (rule store_after_inv)
  let ?c = "created now det mac ip ty rule ttl auto dn s"
  have "st_order ?c = st_order s @ [ea_ID a]" "st_actions ?c = acts" "st_opts ?c = st_opts s"
    by (simp_all add: created_def a_def acts_def Create_action)
  moreover have "st_order s' = st_order (evictLocked ?c)" "st_actions s' = st_actions (evictLocked ?c)"
    by (simp_all add: s'_def snd_Create)
  ultimately show ?thesis
    using evictLocked_spec [OF created_order_ok [OF inv], of now det mac ip ty rule ttl auto dn] by (metis Get_def)
qed

text \<open>
  Property CXX. Every transition is idempotent: repeating \<open>Approve\<close>, \<open>Reject\<close>, \<open>Activate\<close> or \<open>Revert\<close>
  (with any other actor, reason or time) changes nothing more, writes no second audit record and
  reports what the first call reported.
\<close>

theorem transitions_idempotent:
  "Approve t' i who' (snd (Approve t i who s)) = (fst (Approve t i who s), snd (Approve t i who s))
   \<and> Reject t' i r' (snd (Reject t i r s)) = (fst (Reject t i r s), snd (Reject t i r s))
   \<and> Activate t' i (snd (Activate t i s)) = (fst (Activate t i s), snd (Activate t i s))
   \<and> Revert t' i r' (snd (Revert t i r s)) = (fst (Revert t i r s), snd (Revert t i r s))"
  by (auto simp: Approve_def Reject_def Activate_def transition_def Revert_def mget_put Let_def split: option.splits)

text \<open>
  Further fact. The doc comment of \<open>Approve\<close> says it returns nil if the action is already approved or
  active; an active action is refused with an error instead, as is any state but pending and approved.
\<close>

theorem Approve_result:
  "fst (Approve now i who s) =
     (case Get i s of None \<Rightarrow> Some (NotFound i)
      | Some a \<Rightarrow> if ea_State a = StateApproved \<or> ea_State a = StatePending then None
                 else Some (Illegal i (ea_State a) StateApproved))"
  by (simp add: Approve_def transition_def Get_def Let_def split: option.splits)

subsection \<open>What one operation does to the state of one action\<close>

definition state_of :: "string \<Rightarrow> store \<Rightarrow> string option" where
  "state_of i s = map_option ea_State (mget (st_actions s) i)"

lemma state_of_writeAudit [simp]: "state_of i (writeAudit now f t ac r a s) = state_of i s"
  by (simp add: state_of_def)

lemma state_of_set_action [simp]: "state_of j (set_action i a s) = (if i = j then Some (ea_State a) else state_of j s)"
  by (simp add: state_of_def mget_put)

lemma state_of_transition:
  "state_of j (snd (transition now i to actor reason allowed s)) =
     (if i = j \<and> (\<exists>st \<in> set allowed. state_of i s = Some st) then Some to else state_of j s)"
proof (cases "mget (st_actions s) i")
  case (Some a)
  then show ?thesis by (auto simp: transition_def Let_def) (auto simp: state_of_def)
qed (auto simp: transition_def state_of_def)

lemma state_of_ops:
  "state_of j (snd (Approve now i who s)) = (if i = j \<and> state_of i s = Some StatePending then Some StateApproved else state_of j s)"
  "state_of j (snd (Reject now i r s)) = (if i = j \<and> state_of i s = Some StatePending then Some StateRejected else state_of j s)"
  "state_of j (snd (Activate now i s)) = (if i = j \<and> state_of i s = Some StateApproved then Some StateActive else state_of j s)"
  "state_of j (snd (Revert now i r s)) =
     (if i = j \<and> state_of i s \<in> {Some StateActive, Some StateFailed} then Some StateReverted else state_of j s)"
  "state_of j (RecordFailure now i r s) = (if i = j \<and> state_of i s \<noteq> None then Some StateFailed else state_of j s)"
proof -
  show "state_of j (snd (Revert now i r s)) =
     (if i = j \<and> state_of i s \<in> {Some StateActive, Some StateFailed} then Some StateReverted else state_of j s)"
  proof (cases "mget (st_actions s) i")
    case (Some a)
    then show ?thesis by (auto simp: Revert_def Let_def) (auto simp: state_of_def)
  qed (auto simp: Revert_def state_of_def)
  show "state_of j (RecordFailure now i r s) = (if i = j \<and> state_of i s \<noteq> None then Some StateFailed else state_of j s)"
    by (auto simp: RecordFailure_def Let_def split: option.split) (auto simp: state_of_def)
qed (auto simp: Approve_def Reject_def Activate_def state_of_transition)

lemma state_of_Create:
  assumes "store_inv s"
  shows "state_of j (snd (Create now det mac ip ty rule ttl auto dn s)) \<in>
    (if j = action_id s (Suc (st_counter s)) then {Some (if auto then StateApproved else StatePending)} else {None, state_of j s})"
  using evicted_created(2,3) [OF assms, of now det mac ip ty rule ttl auto dn] Create_action(2)
  by (auto simp: snd_Create state_of_def)

lemma Create_stored:
  assumes "store_inv s"
  shows "Get (action_id s (Suc (st_counter s))) (snd (Create now det mac ip ty rule ttl auto dn s)) =
    Some (fst (Create now det mac ip ty rule ttl auto dn s))"
  using evicted_created(2) [OF assms, of now det mac ip ty rule ttl auto dn] by (simp add: Get_def snd_Create)

text \<open>
  Further fact. The TTL of an action is honoured to the nanosecond for TTLs up to 9223372036 seconds (292
  years): the action expires exactly that long after its creation. Beyond, the multiplication in
  \<open>time.Duration(ttl) * time.Second\<close> wraps around; 9223372037 seconds expire 292 years before creation.
\<close>

theorem Create_expiry:
  "ea_ExpiresAt (fst (Create now det mac ip ty rule ttl auto dn s)) =
     (if ttl \<le> 0 then None
      else if ttl \<le> 9223372036 then Some (now + ttl * 1000000000)
      else Some (now + wrap64 (ttl * 1000000000)))
   \<and> ea_ExpiresAt (fst (Create now det mac ip ty rule 9223372037 auto dn s)) = Some (now - 9223372036709551616)"
proof -
  have e: "ea_ExpiresAt (fst (Create now det mac ip ty rule t auto dn s)) = (if t > 0 then Some (now + seconds t) else None)" for t
    by (simp add: Create_def Let_def)
  have "seconds 9223372037 = - 9223372036709551616" by (simp add: seconds_def wrap64_def)
  then show ?thesis unfolding e using seconds_exact [of ttl] by (simp add: seconds_def)
qed

end
