(* ===== verification/GoHttp.thy ===== *)
theory GoHttp
  imports GoNet
begin

text \<open>
  The part of Go's \<open>net/http\<close> and \<open>net/url\<close> packages the clients of the program use: requests and their outcomes, and the
  escaping of query strings with its inverse, \<open>url.ParseQuery\<close>, which is how a server reads what a client escaped. The
  exchange itself is a parameter of the clients, over a world \<open>'w\<close> that stands for everything outside the process.
\<close>

record http_request =
  hr_method :: string
  hr_url :: string
  hr_headers :: "(string \<times> string) list"
  hr_auth :: "(string \<times> string) option"
  hr_body :: string

datatype http_result = Transport string | Response int string

type_synonym 'w http = "http_request \<Rightarrow> 'w \<Rightarrow> http_result \<times> 'w"

text \<open>
  \<open>http.NewRequest\<close> fails when the URL does not parse; the parser is the first component, the exchange the second.
\<close>

record 'w web =
  web_parse :: "string \<Rightarrow> string option"
  web_do :: "'w http"

text \<open>The values of the JSON objects the clients build, each a list of keys and values.\<close>

datatype json_value = JString string | JInt int | JBool bool | JStrings "string list"

subsection \<open>Escaping\<close>

definition unreserved :: "char \<Rightarrow> bool" where
  "unreserved c = (let n = of_char c :: nat in
     48 \<le> n \<and> n \<le> 57 \<or> 65 \<le> n \<and> n \<le> 90 \<or> 97 \<le> n \<and> n \<le> 122 \<or> c \<in> {CHR ''-'', CHR ''_'', CHR ''.'', CHR ''~''})"

definition upper_hex :: "nat \<Rightarrow> char" where
  "upper_hex v = (if v < 10 then char_of (48 + v) else char_of (55 + v))"

definition query_escape_char :: "char \<Rightarrow> string" where
  "query_escape_char c =
     (if unreserved c then [c]
      else if c = CHR '' '' then [CHR ''+'']
      else [CHR 0x25, upper_hex (of_char c div 16), upper_hex (of_char c mod 16)])"

definition query_escape :: "string \<Rightarrow> string" where
  "query_escape s = List.concat (List.map query_escape_char s)"

fun query_unescape :: "string \<Rightarrow> string option" where
  "query_unescape [] = Some []"
| "query_unescape (c # cs) =
     (if c = CHR 0x25 then
        (case cs of
           a # b # rest \<Rightarrow>
             (case (hex_val a, hex_val b) of
                (Some h, Some l) \<Rightarrow> map_option ((#) (char_of (16 * h + l))) (query_unescape rest)
              | _ \<Rightarrow> None)
         | _ \<Rightarrow> None)
      else map_option ((#) (if c = CHR ''+'' then CHR '' '' else c)) (query_unescape cs))"

text \<open>One piece of a query between two ampersands; \<open>None\<close> when \<open>ParseQuery\<close> leaves it out.\<close>

definition parse_pair :: "string \<Rightarrow> (string \<times> string) option" where
  "parse_pair p =
     (if CHR '';'' \<in> set p \<or> p = [] then None
      else let (k, v) = (case cut_at (CHR ''='') p of Some kv \<Rightarrow> kv | None \<Rightarrow> (p, [])) in
        case (query_unescape k, query_unescape v) of (Some k', Some v') \<Rightarrow> Some (k', v') | _ \<Rightarrow> None)"

definition parse_query :: "string \<Rightarrow> (string \<times> string) list" where
  "parse_query q = List.map_filter parse_pair (split_on (CHR ''&'') q)"

text \<open>The query of a URL: what stands after the first question mark and before the fragment.\<close>

definition url_query :: "string \<Rightarrow> string" where
  "url_query u = (case cut_at (CHR ''?'') (takeWhile (\<lambda>c. c \<noteq> CHR ''#'') u) of Some (_, q) \<Rightarrow> q | None \<Rightarrow> [])"

subsection \<open>What is escaped arrives unchanged\<close>

lemma hex_val_upper_hex [simp]: "v < 16 \<Longrightarrow> hex_val (upper_hex v) = Some v"
  by (simp add: hex_val_def upper_hex_def Let_def)

lemma char_of_halves: "char_of (16 * ((of_char c :: nat) div 16) + of_char c mod 16) = c"
  by simp

lemma query_unescape_char: "query_unescape (query_escape_char c @ s) = map_option ((#) c) (query_unescape s)"
proof -
  have half: "(of_char c :: nat) div 16 < 16" by (simp add: less_mult_imp_div_less)
  have "unreserved c \<Longrightarrow> c \<noteq> CHR 0x25 \<and> c \<noteq> CHR ''+''" by (auto simp: unreserved_def Let_def)
  then show ?thesis using half by (auto simp: query_escape_char_def char_of_halves)
qed

lemma query_unescape_escape [simp]: "query_unescape (query_escape s) = Some s"
  by (induction s) (simp_all add: query_escape_def query_unescape_char)

lemma query_escape_append: "query_escape (s @ t) = query_escape s @ query_escape t"
  by (simp add: query_escape_def)

lemma upper_hex_unreserved: "v < 16 \<Longrightarrow> unreserved (upper_hex v)"
  by (auto simp: upper_hex_def unreserved_def Let_def)

lemma query_escape_chars: "c \<in> set (query_escape s) \<Longrightarrow> unreserved c \<or> c = CHR ''+'' \<or> c = CHR 0x25"
proof -
  have "(of_char x :: nat) div 16 < 16" for x :: char by (simp add: less_mult_imp_div_less)
  then have "c \<in> set (query_escape_char x) \<Longrightarrow> unreserved c \<or> c = CHR ''+'' \<or> c = CHR 0x25" for x
    by (auto simp: query_escape_char_def upper_hex_unreserved split: if_splits)
  then show "c \<in> set (query_escape s) \<Longrightarrow> unreserved c \<or> c = CHR ''+'' \<or> c = CHR 0x25"
    by (auto simp: query_escape_def)
qed

lemma query_escape_no_delimiter:
  "CHR ''&'' \<notin> set (query_escape s)" "CHR ''='' \<notin> set (query_escape s)" "CHR '';'' \<notin> set (query_escape s)"
  "CHR ''#'' \<notin> set (query_escape s)" "CHR ''?'' \<notin> set (query_escape s)"
  using query_escape_chars [of _ s] by (force simp: unreserved_def Let_def)+

definition escaped_pair :: "string \<times> string \<Rightarrow> string" where
  "escaped_pair kv = query_escape (fst kv) @ ''='' @ query_escape (snd kv)"

lemma parse_escaped_pair: "parse_pair (escaped_pair kv) = Some kv"
proof -
  have "cut_at c (a @ c # b) = Some (a, b)" if "c \<notin> set a" for a b c
    using that by (induction a) auto
  then show ?thesis
    using query_escape_no_delimiter [of "fst kv"] query_escape_no_delimiter [of "snd kv"]
    by (simp add: parse_pair_def escaped_pair_def)
qed

lemma escaped_pair_chars:
  "CHR ''&'' \<notin> set (escaped_pair kv)" "CHR ''#'' \<notin> set (escaped_pair kv)" "CHR ''?'' \<notin> set (escaped_pair kv)"
  using query_escape_no_delimiter [of "fst kv"] query_escape_no_delimiter [of "snd kv"] by (auto simp: escaped_pair_def)

lemma parse_query_join:
  "kvs \<noteq> [] \<Longrightarrow> parse_query (join ''&'' (List.map escaped_pair kvs)) = kvs"
proof -
  assume "kvs \<noteq> []"
  then have "split_on (CHR ''&'') (join ''&'' (List.map escaped_pair kvs)) = List.map escaped_pair kvs"
    by (intro split_on_join) (auto simp: escaped_pair_chars)
  then show ?thesis by (simp add: parse_query_def map_filter_def parse_escaped_pair comp_def)
qed

lemma url_query_append:
  "\<forall>c \<in> set base. c \<noteq> CHR ''?'' \<and> c \<noteq> CHR ''#'' \<Longrightarrow> CHR ''#'' \<notin> set q \<Longrightarrow> url_query (base @ CHR ''?'' # q) = q"
proof -
  assume b: "\<forall>c \<in> set base. c \<noteq> CHR ''?'' \<and> c \<noteq> CHR ''#''" and q: "CHR ''#'' \<notin> set q"
  have t: "takeWhile (\<lambda>c. c \<noteq> CHR ''#'') (base @ CHR ''?'' # q) = base @ CHR ''?'' # q"
    using b q by (auto simp: takeWhile_eq_all_conv)
  have c: "cut_at (CHR ''?'') (base @ CHR ''?'' # q) = Some (base, q)"
    using b by (induction base) auto
  show ?thesis unfolding url_query_def t c by simp
qed

end
