(* ===== verification/Sinkhole.thy ===== *)
theory Sinkhole
  imports Events GoHttp
begin

text \<open>
  \<open>internal/drivers/driver.go\<close> and \<open>internal/drivers/sinkhole.go\<close>: the driver interface and the DNS sinkhole,
  which edits AdGuard Home's list of user rules by read, modify and write. AdGuard itself, HTTP and
  the JSON codec of its two messages are not part of the repository: they are the parameter
  \<open>adguard\<close>. The mutex \<open>rulesMu\<close> makes Apply and Revert atomic.
\<close>

subsection \<open>The driver interface\<close>

text \<open>A driver over a world \<open>'w\<close>; \<open>None\<close> is the nil error.\<close>

record 'w driver =
  drv_name :: string
  drv_apply :: "enforcement_action \<Rightarrow> 'w \<Rightarrow> string option \<times> 'w"
  drv_revert :: "enforcement_action \<Rightarrow> 'w \<Rightarrow> string option \<times> 'w"

subsection \<open>Domains\<close>

definition alnum_lower :: "char \<Rightarrow> bool" where
  "alnum_lower c = (let n = of_char c :: nat in (97 \<le> n \<and> n \<le> 122) \<or> (48 \<le> n \<and> n \<le> 57))"

text \<open>One label of \<open>domainPattern\<close>: 1 to 63 characters, hyphens only inside.\<close>

definition label_ok :: "string \<Rightarrow> bool" where
  "label_ok l = (l \<noteq> [] \<and> length l \<le> 63 \<and> list_all (\<lambda>c. alnum_lower c \<or> c = CHR ''-'') l
     \<and> alnum_lower (hd l) \<and> alnum_lower (last l))"

definition domainPattern :: "string \<Rightarrow> bool" where
  "domainPattern d = (let ls = split_on (CHR ''.'') d in length ls \<ge> 2 \<and> list_all label_ok ls)"

datatype domain_error = EmptyDomain | DomainTooLong nat | NotHostname string

fun domain_error_text :: "domain_error \<Rightarrow> string" where
  "domain_error_text EmptyDomain = ''empty domain''"
| "domain_error_text (DomainTooLong n) = ''domain too long ('' @ show_nat n @ '' bytes)''"
| "domain_error_text (NotHostname d) = ''refusing to build a filter rule: not a plain hostname: '' @ d"

definition validateDomain :: "string \<Rightarrow> domain_error + string" where
  "validateDomain domain =
     (let d = to_lower (trim_space (trim_suffix (trim_space domain) ''.''))
      in if d = [] then Inl EmptyDomain
         else if length d > 253 then Inl (DomainTooLong (length d))
         else if \<not> domainPattern d then Inl (NotHostname domain)
         else Inr d)"

subsection \<open>The driver\<close>

record 'w adguard =
  ag_do :: "http_request \<Rightarrow> 'w \<Rightarrow> http_result \<times> 'w"
  ag_decode :: "string \<Rightarrow> string + string list"
  ag_encode :: "string list \<Rightarrow> string"

record sinkhole =
  sk_baseURL :: string
  sk_user :: string
  sk_password :: string

definition NewSinkholeDriver :: "string \<Rightarrow> string \<Rightarrow> string \<Rightarrow> sinkhole" where
  "NewSinkholeDriver url user password =
     \<lparr> sk_baseURL = trim_right_char url (CHR ''/''), sk_user = user, sk_password = password \<rparr>"

definition adguard_status :: "int \<Rightarrow> string \<Rightarrow> string" where
  "adguard_status code body = ''adguard '' @ show_int code @ '': '' @ take 512 body"

definition getRules :: "'w adguard \<Rightarrow> sinkhole \<Rightarrow> 'w \<Rightarrow> (string + string list) \<times> 'w" where
  "getRules ag d w =
     (let (r, w') = ag_do ag \<lparr> hr_method = ''GET'', hr_url = sk_baseURL d @ ''/control/filtering/status'',
            hr_headers = [], hr_auth = Some (sk_user d, sk_password d), hr_body = [] \<rparr> w
      in case r of
           Transport e \<Rightarrow> (Inl e, w')
         | Response code body \<Rightarrow>
             if code \<noteq> 200 then (Inl (adguard_status code body), w')
             else (case ag_decode ag (take (8 * 2 ^ 20) body) of
                     Inl e \<Rightarrow> (Inl (''decode: '' @ e), w')
                   | Inr rules \<Rightarrow> (Inr rules, w')))"

definition setRules :: "'w adguard \<Rightarrow> sinkhole \<Rightarrow> string list \<Rightarrow> 'w \<Rightarrow> string option \<times> 'w" where
  "setRules ag d rules w =
     (let (r, w') = ag_do ag \<lparr> hr_method = ''POST'', hr_url = sk_baseURL d @ ''/control/filtering/set_rules'',
            hr_headers = [(''Content-Type'', ''application/json'')],
            hr_auth = Some (sk_user d, sk_password d), hr_body = ag_encode ag rules \<rparr> w
      in case r of
           Transport e \<Rightarrow> (Some e, w')
         | Response code body \<Rightarrow>
             if code \<noteq> 200 then (Some (adguard_status code body), w') else (None, w'))"

definition block_rule :: "string \<Rightarrow> string" where
  "block_rule domain = ''||'' @ domain @ ''^''"

definition sinkhole_apply :: "'w adguard \<Rightarrow> sinkhole \<Rightarrow> enforcement_action \<Rightarrow> 'w \<Rightarrow> string option \<times> 'w" where
  "sinkhole_apply ag d action w =
     (case validateDomain (ea_BlockedDomain action) of
        Inl e \<Rightarrow> (Some (domain_error_text e), w)
      | Inr domain \<Rightarrow>
          (let rule = block_rule domain in
           case getRules ag d w of
             (Inl e, w1) \<Rightarrow> (Some (''get rules: '' @ e), w1)
           | (Inr rules, w1) \<Rightarrow>
               if rule \<in> set rules then (None, w1)
               else case setRules ag d (rules @ [rule]) w1 of
                   (Some e, w2) \<Rightarrow> (Some (''set rules: '' @ e), w2)
                 | (None, w2) \<Rightarrow> (None, w2)))"

definition sinkhole_revert :: "'w adguard \<Rightarrow> sinkhole \<Rightarrow> enforcement_action \<Rightarrow> 'w \<Rightarrow> string option \<times> 'w" where
  "sinkhole_revert ag d action w =
     (case validateDomain (ea_BlockedDomain action) of
        Inl e \<Rightarrow> (None, w)
      | Inr domain \<Rightarrow>
          (let rule = block_rule domain in
           case getRules ag d w of
             (Inl e, w1) \<Rightarrow> (Some (''get rules: '' @ e), w1)
           | (Inr rules, w1) \<Rightarrow>
               (let filtered = filter (\<lambda>r. r \<noteq> rule) rules in
                if length filtered = length rules then (None, w1)
                else case setRules ag d filtered w1 of
                    (Some e, w2) \<Rightarrow> (Some (''set rules: '' @ e), w2)
                  | (None, w2) \<Rightarrow> (None, w2))))"

definition sinkhole_driver :: "'w adguard \<Rightarrow> sinkhole \<Rightarrow> 'w driver" where
  "sinkhole_driver ag d =
     \<lparr> drv_name = ''dns_sinkhole'', drv_apply = sinkhole_apply ag d, drv_revert = sinkhole_revert ag d \<rparr>"

subsection \<open>Only plain hostnames become rules\<close>

lemma alnum_lower_facts: "alnum_lower c \<Longrightarrow> \<not> is_space c \<and> to_lower_char c = c \<and> c \<noteq> CHR ''.'' \<and> c \<noteq> CHR ''\<newline>''"
  by (auto simp: alnum_lower_def is_space_def to_lower_char_def Let_def)

lemma hostname_char: "c = CHR ''-'' \<or> c = CHR ''.'' \<or> alnum_lower c \<Longrightarrow> \<not> is_space c \<and> to_lower_char c = c"
proof -
  have "\<not> is_space (CHR ''-'')" "\<not> is_space (CHR ''.'')" "to_lower_char (CHR ''-'') = CHR ''-''"
    "to_lower_char (CHR ''.'') = CHR ''.''" by code_simp+
  then show "c = CHR ''-'' \<or> c = CHR ''.'' \<or> alnum_lower c \<Longrightarrow> ?thesis" using alnum_lower_facts by auto
qed

lemma domainPattern_chars:
  assumes "domainPattern d" "c \<in> set d"
  shows "c = CHR ''-'' \<or> c = CHR ''.'' \<or> alnum_lower c"
proof -
  have "c \<in> set (join [CHR ''.''] (split_on (CHR ''.'') d))" using assms(2) by (simp add: join_split_on)
  then have "c \<in> {CHR ''.''} \<union> \<Union> (set ` set (split_on (CHR ''.'') d))"
    using set_join [of "[CHR ''.'']" "split_on (CHR ''.'') d"] by auto
  then show ?thesis using assms(1) by (auto simp: domainPattern_def Let_def list_all_iff label_ok_def)
qed

lemma split_on_snoc: "\<exists>x xs. split_on c (s @ [c]) = (x # xs) @ [[]]"
proof (induction s)
  case (Cons a s)
  then obtain x xs where "split_on c (s @ [c]) = (x # xs) @ [[]]" by blast
  then show ?case by auto
qed simp

lemma last_split_on: "last (split_on c (s @ [c])) = []"
  using split_on_snoc [of c s] by auto

lemma domainPattern_last: "domainPattern d \<Longrightarrow> \<not> has_suffix d ''.''"
proof
  assume d: "domainPattern d" and "has_suffix d ''.''"
  then obtain s where "d = s @ ''.''" by (auto simp: has_suffix_iff suffix_def)
  then have "last (split_on (CHR ''.'') d) = []" by (simp add: last_split_on)
  moreover have "last (split_on (CHR ''.'') d) \<in> set (split_on (CHR ''.'') d)" by simp
  ultimately show False using d by (auto simp: domainPattern_def Let_def list_all_iff label_ok_def)
qed

lemma validateDomain_fixed:
  assumes "domainPattern d" "length d \<le> 253"
  shows "validateDomain d = Inr d"
proof -
  have ns: "\<forall>c \<in> set d. \<not> is_space c" and lo: "to_lower d = d"
    using domainPattern_chars [OF assms(1)] hostname_char by (auto simp: to_lower_def intro!: map_idI)
  have "trim_suffix d ''.'' = d" using domainPattern_last [OF assms(1)] by (simp add: trim_suffix_def)
  moreover have "d \<noteq> []" using assms(1) by (auto simp: domainPattern_def)
  ultimately show ?thesis using ns lo assms by (simp add: validateDomain_def Let_def trim_space_no_space)
qed

lemma validateDomain_ok:
  "validateDomain s = Inr d \<Longrightarrow> domainPattern d \<and> length d \<le> 253 \<and> d \<noteq> []"
  by (auto simp: validateDomain_def Let_def split: if_splits)

text \<open>
  Property C23. Control-plane injection is impossible: whatever text a detection carries as its domain,
  the domain a rule is built from consists of at least two labels of lower-case letters, digits and
  inner hyphens, at most 253 bytes, so the rule has no newline, blank, \<open>|\<close>, \<open>^\<close> or \<open>*\<close> of its own;
  and the domain is in normal form (validating it again returns it).
\<close>

theorem validateDomain_safe:
  assumes "validateDomain s = Inr d"
  shows "(\<forall>c \<in> set (block_rule d). c \<in> set ''|^.-'' \<or> alnum_lower c)
    \<and> length (split_on (CHR ''.'') d) \<ge> 2 \<and> list_all label_ok (split_on (CHR ''.'') d)
    \<and> length (block_rule d) \<le> 256 \<and> validateDomain d = Inr d"
  using validateDomain_ok [OF assms] domainPattern_chars [of d] validateDomain_fixed [of d]
  by (auto simp: block_rule_def domainPattern_def Let_def)

theorem validateDomain_safe_witness:
  "validateDomain ''evil.example.com'' = Inr ''evil.example.com''
   \<and> validateDomain ''a.b^\<newline>||*^'' = Inl (NotHostname ''a.b^\<newline>||*^'')"
proof
  have "validateDomain '' Evil.Example.COM. '' = Inr ''evil.example.com''" by code_simp
  from validateDomain_safe [OF this] show "validateDomain ''evil.example.com'' = Inr ''evil.example.com''" by blast
  show "validateDomain ''a.b^\<newline>||*^'' = Inl (NotHostname ''a.b^\<newline>||*^'')" by code_simp
qed

subsection \<open>Apply and Revert edit one rule\<close>

text \<open>
  What is relied on of AdGuard: \<open>rules_of\<close> is the list it holds; reading never changes it, and a
  readable answer lists it; a write answered with 200 has stored the list sent, any other answer has not.
\<close>

definition adguard_ok :: "'w adguard \<Rightarrow> ('w \<Rightarrow> string list) \<Rightarrow> bool" where
  "adguard_ok ag rules_of \<longleftrightarrow>
     (\<forall>req w. hr_method req = ''GET'' \<longrightarrow> rules_of (snd (ag_do ag req w)) = rules_of w
        \<and> (\<forall>body rs. fst (ag_do ag req w) = Response 200 body \<longrightarrow> ag_decode ag (take (8 * 2 ^ 20) body) = Inr rs \<longrightarrow>
             rs = rules_of w))
   \<and> (\<forall>req w rs. hr_method req = ''POST'' \<longrightarrow> hr_body req = ag_encode ag rs \<longrightarrow>
        rules_of (snd (ag_do ag req w)) =
          (case fst (ag_do ag req w) of Response c _ \<Rightarrow> if c = 200 then rs else rules_of w | Transport _ \<Rightarrow> rules_of w))"

lemma getRules_ok:
  assumes "adguard_ok ag rules_of"
  shows "rules_of (snd (getRules ag d w)) = rules_of w"
    and "fst (getRules ag d w) = Inr rs \<Longrightarrow> rs = rules_of w"
proof -
  let ?q = "\<lparr> hr_method = ''GET'', hr_url = sk_baseURL d @ ''/control/filtering/status'',
            hr_headers = [], hr_auth = Some (sk_user d, sk_password d), hr_body = [] \<rparr>"
  obtain r w' where q: "ag_do ag ?q w = (r, w')" by fastforce
  have "hr_method ?q = ''GET''" by simp
  then have *: "rules_of w' = rules_of w" "\<And>body rs. r = Response 200 body \<Longrightarrow> ag_decode ag (take (8 * 2 ^ 20) body) = Inr rs \<Longrightarrow>
             rs = rules_of w"
    using assms q unfolding adguard_ok_def by (metis snd_conv, metis fst_conv)
  show "rules_of (snd (getRules ag d w)) = rules_of w"
    unfolding getRules_def q Let_def prod.case using *(1) by (auto split: http_result.splits sum.splits)
  show "fst (getRules ag d w) = Inr rs \<Longrightarrow> rs = rules_of w"
    unfolding getRules_def q Let_def prod.case using *(2)
    by (auto simp del: power_numeral split: http_result.splits sum.splits if_splits)
qed

lemma setRules_ok:
  assumes "adguard_ok ag rules_of"
  shows "rules_of (snd (setRules ag d rs w)) = (if fst (setRules ag d rs w) = None then rs else rules_of w)"
proof -
  let ?q = "\<lparr> hr_method = ''POST'', hr_url = sk_baseURL d @ ''/control/filtering/set_rules'',
            hr_headers = [(''Content-Type'', ''application/json'')],
            hr_auth = Some (sk_user d, sk_password d), hr_body = ag_encode ag rs \<rparr>"
  obtain r w' where q: "ag_do ag ?q w = (r, w')" by fastforce
  have "hr_method ?q = ''POST''" "hr_body ?q = ag_encode ag rs" by simp_all
  then have "rules_of w' = (case r of Response c _ \<Rightarrow> if c = 200 then rs else rules_of w | Transport _ \<Rightarrow> rules_of w)"
    using assms q unfolding adguard_ok_def by (metis fst_conv snd_conv)
  then show ?thesis
    unfolding setRules_def q Let_def prod.case by (auto split: http_result.splits)
qed

lemma sinkhole_apply_cases:
  assumes ok: "adguard_ok ag rules_of" and d: "validateDomain (ea_BlockedDomain a) = Inr dn"
  shows "rules_of (snd (sinkhole_apply ag d a w)) =
    (if fst (sinkhole_apply ag d a w) = None \<and> block_rule dn \<notin> set (rules_of w)
     then rules_of w @ [block_rule dn] else rules_of w)"
proof (cases "getRules ag d w")
  case (Pair r w1)
  have w1: "rules_of w1 = rules_of w" and r: "\<And>rs. r = Inr rs \<Longrightarrow> rs = rules_of w"
    using getRules_ok [OF ok, where d = d and w = w] Pair by auto
  show ?thesis
  proof (cases r)
    case (Inl e)
    then show ?thesis using Pair w1 d by (simp add: sinkhole_apply_def Let_def)
  next
    case (Inr rs)
    with r have rs: "rs = rules_of w" by simp
    show ?thesis using setRules_ok [OF ok, of d "rules_of w @ [block_rule dn]" w1] w1
      by (cases "setRules ag d (rules_of w @ [block_rule dn]) w1")
        (auto simp: sinkhole_apply_def d Pair Inr rs Let_def split: option.splits)
  qed
qed

lemma sinkhole_revert_cases:
  assumes ok: "adguard_ok ag rules_of" and d: "validateDomain (ea_BlockedDomain a) = Inr dn"
  shows "rules_of (snd (sinkhole_revert ag d a w)) =
    (if fst (sinkhole_revert ag d a w) = None then filter (\<lambda>r. r \<noteq> block_rule dn) (rules_of w) else rules_of w)"
proof (cases "getRules ag d w")
  case (Pair r w1)
  have w1: "rules_of w1 = rules_of w" and r: "\<And>rs. r = Inr rs \<Longrightarrow> rs = rules_of w"
    using getRules_ok [OF ok, where d = d and w = w] Pair by auto
  show ?thesis
  proof (cases r)
    case (Inl e)
    then show ?thesis using Pair w1 d by (simp add: sinkhole_revert_def Let_def)
  next
    case (Inr rs)
    with r have rs: "rs = rules_of w" by simp
    let ?f = "filter (\<lambda>r. r \<noteq> block_rule dn) (rules_of w)"
    have len: "length ?f = length (rules_of w) \<longleftrightarrow> ?f = rules_of w"
      by (metis filter_id_conv length_filter_less less_irrefl)
    show ?thesis using setRules_ok [OF ok, of d ?f w1] w1
      by (cases "setRules ag d ?f w1")
        (auto simp: sinkhole_revert_def d Pair Inr rs Let_def len split: option.splits)
  qed
qed


text \<open>
  A server that satisfies the contract, to instantiate the parameter: it keeps the list, and its
  encoding marks every character and every end of rule.
\<close>

definition ref_encode :: "string list \<Rightarrow> string" where
  "ref_encode rs = concat (map (\<lambda>r. concat (map (\<lambda>c. [CHR ''c'', c]) r) @ ''n'') rs)"

fun ref_dec :: "string \<Rightarrow> string \<Rightarrow> string list option" where
  "ref_dec cur [] = (if cur = [] then Some [] else None)"
| "ref_dec cur [m] = (if m = CHR ''n'' then Some [rev cur] else None)"
| "ref_dec cur (m # c # cs) =
     (if m = CHR ''n'' then map_option (Cons (rev cur)) (ref_dec [] (c # cs)) else ref_dec (c # cur) cs)"

definition ref_do :: "http_request \<Rightarrow> string list \<Rightarrow> http_result \<times> string list" where
  "ref_do req rules =
     (if hr_method req = ''GET'' then
        (if length (ref_encode rules) \<le> 8 * 2 ^ 20 then (Response 200 (ref_encode rules), rules)
         else (Response 500 [], rules))
      else case ref_dec [] (hr_body req) of
          Some rs \<Rightarrow> (Response 200 [], rs)
        | None \<Rightarrow> (Response 400 [], rules))"

definition ref_adguard :: "string list adguard" where
  "ref_adguard = \<lparr> ag_do = ref_do,
     ag_decode = (\<lambda>s. case ref_dec [] s of None \<Rightarrow> Inl ''syntax'' | Some rs \<Rightarrow> Inr rs), ag_encode = ref_encode \<rparr>"

lemma ref_dec_rule:
  "ref_dec cur (concat (map (\<lambda>c. [CHR ''c'', c]) r) @ CHR ''n'' # rest) =
     map_option (Cons (rev cur @ r)) (ref_dec [] rest)"
proof (induction r arbitrary: cur)
  case Nil
  then show ?case by (cases rest) auto
next
  case (Cons a r)
  then show ?case by simp
qed

lemma ref_dec_encode [simp]: "ref_dec [] (ref_encode rs) = Some rs"
  by (induction rs) (auto simp: ref_encode_def ref_dec_rule)

lemma ref_adguard_ok: "adguard_ok ref_adguard (\<lambda>rs. rs)"
  unfolding adguard_ok_def ref_adguard_def by (simp add: ref_do_def)

definition sample_action :: "string \<Rightarrow> string \<Rightarrow> enforcement_action" where
  "sample_action i dn = \<lparr> ea_SchemaVersion = EnforcementSchemaVersion, ea_ID = i, ea_Timestamp = 0,
     ea_DetectionID = ''DET-42'', ea_ActionType = ActionDNSSinkhole, ea_State = StateApproved,
     ea_TargetMAC = ''aa:bb:cc:dd:ee:ff'', ea_TargetIP = ''192.168.1.42'', ea_BlockedDomain = dn,
     ea_PolicyRule = [], ea_AutoApproved = True, ea_TTLSeconds = 3600, ea_ExpiresAt = None,
     ea_RevertedAt = None, ea_ApprovedBy = ''auto-policy'', ea_Reason = [], ea_FailureReason = [] \<rparr>"

definition sample_sinkhole :: sinkhole where
  "sample_sinkhole = NewSinkholeDriver ''http://adguard-web.dns.svc:3000/'' ''u'' ''p''"


end
