(* ===== verification/Allowlist.thy ===== *)
theory Allowlist
  imports Events
begin

text \<open>
  \<open>internal/policy/allowlist.go\<close> of the killswitch controller: the devices that must never be
  blocked. Entries are normalised on the way in and on every lookup. The locale
  \<open>protected_set\<close> is the contract that the policy and the controller's start-up rely on;
  the driver guard (theory \<open>Guard\<close>) implements it too. The \<open>RWMutex\<close> makes each operation
  atomic; an operation is a function of the record.
\<close>

record allowlist =
  al_macs :: "(string, unit) gomap"
  al_addrs :: "(addr, unit) gomap"
  al_nets :: "prefix list"

definition empty_allowlist :: allowlist where
  "empty_allowlist = \<lparr> al_macs = [], al_addrs = [], al_nets = [] \<rparr>"

subsection \<open>Operations\<close>

definition NormalizeMAC :: "string \<Rightarrow> string option" where
  "NormalizeMAC mac =
     (let s = trim_space mac
      in if s = [] then None
         else case parse_mac s of
             Some hw \<Rightarrow> Some (to_lower (mac_string hw))
           | None \<Rightarrow>
               (let bare = mac_hex s
                in if length bare = 12
                   then case parse_mac (join '':'' (chunks 2 bare)) of
                       Some hw2 \<Rightarrow> Some (to_lower (mac_string hw2))
                     | None \<Rightarrow> None
                   else None))"

definition canonicalAddr :: "addr \<Rightarrow> addr" where
  "canonicalAddr a = without_zone (if is4in6 a then unmap a else a)"

text \<open>The flag says whether the entry was accepted (Go's nil error).\<close>

definition AddMAC :: "string \<Rightarrow> allowlist \<Rightarrow> bool \<times> allowlist" where
  "AddMAC mac al =
     (case NormalizeMAC mac of
        None \<Rightarrow> (False, al)
      | Some norm \<Rightarrow> (True, al \<lparr> al_macs := mput norm () (al_macs al) \<rparr>))"

definition AddIP :: "string \<Rightarrow> allowlist \<Rightarrow> bool \<times> allowlist" where
  "AddIP entry al =
     (let s = trim_space entry
      in if s = [] then (False, al)
         else if contains_char s (CHR ''/'') then
           (case parse_prefix s of
              None \<Rightarrow> (False, al)
            | Some p \<Rightarrow> (True, al \<lparr> al_nets := al_nets al @ [prefix_masked p] \<rparr>))
         else
           (case parse_addr s of
              None \<Rightarrow> (False, al)
            | Some a \<Rightarrow> (True, al \<lparr> al_addrs := mput (canonicalAddr a) () (al_addrs al) \<rparr>)))"

definition RemoveMAC :: "string \<Rightarrow> allowlist \<Rightarrow> allowlist" where
  "RemoveMAC mac al =
     (case NormalizeMAC mac of
        None \<Rightarrow> al
      | Some norm \<Rightarrow> al \<lparr> al_macs := mdel norm (al_macs al) \<rparr>)"

definition RemoveIP :: "string \<Rightarrow> allowlist \<Rightarrow> allowlist" where
  "RemoveIP ip al =
     (case parse_addr (trim_space ip) of
        None \<Rightarrow> al
      | Some a \<Rightarrow> al \<lparr> al_addrs := mdel (canonicalAddr a) (al_addrs al) \<rparr>)"

definition allowed_mac :: "allowlist \<Rightarrow> string \<Rightarrow> bool" where
  "allowed_mac al mac =
     (mac \<noteq> [] \<and> (case NormalizeMAC mac of
        None \<Rightarrow> False
      | Some norm \<Rightarrow> mget (al_macs al) norm \<noteq> None))"

definition allowed_ip :: "allowlist \<Rightarrow> string \<Rightarrow> bool" where
  "allowed_ip al ip =
     (ip \<noteq> [] \<and> (case parse_addr (trim_space ip) of
        None \<Rightarrow> False
      | Some a \<Rightarrow> (let canon = canonicalAddr a in
          mget (al_addrs al) canon \<noteq> None \<or> list_ex (\<lambda>p. prefix_contains p canon) (al_nets al))))"

definition Contains :: "allowlist \<Rightarrow> string \<Rightarrow> string \<Rightarrow> bool" where
  "Contains al mac ip = (allowed_mac al mac \<or> allowed_ip al ip)"

definition Len :: "allowlist \<Rightarrow> nat" where
  "Len al = length (al_macs al) + length (al_addrs al) + length (al_nets al)"

definition MACs :: "allowlist \<Rightarrow> string list" where
  "MACs al = mkeys (al_macs al)"

definition IPs :: "allowlist \<Rightarrow> string list" where
  "IPs al = map addr_string (mkeys (al_addrs al)) @ map prefix_string (al_nets al)"

subsection \<open>The contract of a protected set\<close>

locale protected_set =
  fixes mac_in :: "'s \<Rightarrow> string \<Rightarrow> bool"
    and ip_in :: "'s \<Rightarrow> string \<Rightarrow> bool"
    and add_mac :: "string \<Rightarrow> 's \<Rightarrow> 's"
    and add_ip :: "string \<Rightarrow> 's \<Rightarrow> 's"
    and mac_covers :: "string \<Rightarrow> string \<Rightarrow> bool"
    and ip_covers :: "string \<Rightarrow> string \<Rightarrow> bool"
  assumes mac_in_add_mac: "mac_in (add_mac e s) m \<longleftrightarrow> mac_covers e m \<or> mac_in s m"
    and mac_in_add_ip: "mac_in (add_ip e s) m \<longleftrightarrow> mac_in s m"
    and ip_in_add_mac: "ip_in (add_mac e s) i \<longleftrightarrow> ip_in s i"
    and ip_in_add_ip: "ip_in (add_ip e s) i \<longleftrightarrow> ip_covers e i \<or> ip_in s i"
begin

definition add_macs :: "string list \<Rightarrow> 's \<Rightarrow> 's" where
  "add_macs es s = foldl (\<lambda>s e. add_mac e s) s es"

definition add_ips :: "string list \<Rightarrow> 's \<Rightarrow> 's" where
  "add_ips es s = foldl (\<lambda>s e. add_ip e s) s es"

lemma mac_in_add_macs: "mac_in (add_macs es s) m \<longleftrightarrow> (\<exists>e \<in> set es. mac_covers e m) \<or> mac_in s m"
  unfolding add_macs_def by (induction es arbitrary: s) (auto simp: mac_in_add_mac)

lemma ip_in_add_macs: "ip_in (add_macs es s) i \<longleftrightarrow> ip_in s i"
  unfolding add_macs_def by (induction es arbitrary: s) (auto simp: ip_in_add_mac)

lemma ip_in_add_ips: "ip_in (add_ips es s) i \<longleftrightarrow> (\<exists>e \<in> set es. ip_covers e i) \<or> ip_in s i"
  unfolding add_ips_def by (induction es arbitrary: s) (auto simp: ip_in_add_ip)

lemma mac_in_add_ips: "mac_in (add_ips es s) m \<longleftrightarrow> mac_in s m"
  unfolding add_ips_def by (induction es arbitrary: s) (auto simp: mac_in_add_ip)

lemmas bulk = mac_in_add_macs ip_in_add_macs ip_in_add_ips mac_in_add_ips

text \<open>Loading entries only ever protects more, and the order of the entries is irrelevant.\<close>

lemma add_order:
  "set es = set es' \<Longrightarrow> mac_in (add_macs es s) m = mac_in (add_macs es' s) m
     \<and> ip_in (add_ips es s) i = ip_in (add_ips es' s) i"
  by (simp add: bulk)

end

subsection \<open>MAC spellings\<close>

lemma chunks2_hex:
  "hex_encode bs = to_lower bare \<Longrightarrow> to_lower (join '':'' (chunks 2 bare)) = mac_string bs"
proof (induction bs arbitrary: bare)
  case (Cons b bs)
  have "hex_encode (b # bs) = hex2 b @ hex_encode bs" by (simp add: hex_encode_def)
  with Cons.prems obtain c d cs where bare: "bare = c # d # cs"
    and h: "to_lower [c, d] = hex2 b" and t: "hex_encode bs = to_lower cs"
    by (cases bare; cases "tl bare") (auto simp: hex2_def to_lower_def)
  have "chunks 2 cs = [] \<longleftrightarrow> bs = []"
    using t by (cases cs) (auto simp: hex_encode_def to_lower_def hex2_def)
  with Cons.IH [OF t] h show ?case
    by (cases "chunks 2 cs"; cases bs)
      (auto simp: bare mac_string_def to_lower_append join_Cons, auto simp: to_lower_def to_lower_char_def)
next
  case Nil
  then have "to_lower bare = []" by (simp add: hex_encode_def)
  then show ?case by (simp add: mac_string_def)
qed

lemma parse_mac_12:
  assumes "\<forall>c \<in> set bare. is_hex c" "length bare = 12"
  shows "\<exists>bs. length bs = 6 \<and> hex_encode bs = to_lower bare
    \<and> parse_mac (join '':'' (chunks 2 bare)) = Some bs"
proof -
  obtain bs where bs: "hex_decode bare = Some bs" "length bs = 6"
    using hex_decode_total [of bare 6] assms by auto
  then have e: "hex_encode bs = to_lower bare" by (rule_tac hex_encode_decode)
  then have "parse_mac (to_lower (join '':'' (chunks 2 bare))) = Some bs"
    using bs by (simp add: chunks2_hex parse_mac_string)
  with bs e show ?thesis by (simp add: parse_mac_lower)
qed

text \<open>The bytes a spelling denotes.\<close>

lemma mac_hex_joined: "mac_hex (join '':'' (chunks 2 s)) = mac_hex s"
proof (induction "length s" arbitrary: s rule: less_induct)
  case less
  have colon: "mac_hex (CHR '':'' # t) = mac_hex t" for t by (simp add: mac_hex_def)
  show ?case
  proof (cases "length s \<le> 2")
    case True
    then show ?thesis by (cases s; cases "tl s") (auto simp: numeral_2_eq_2)
  next
    case False
    then obtain c d e s' where s: "s = c # d # e # s'" by (metis length_0_conv list.exhaust not_less_eq_eq length_Cons nat_le_linear numeral_2_eq_2 Suc_le_mono le_0_eq)
    have "chunks 2 s = [c, d] # chunks 2 (e # s')" "chunks 2 (e # s') \<noteq> []" by (simp_all add: s)
    then have "join '':'' (chunks 2 s) = c # d # CHR '':'' # join '':'' (chunks 2 (e # s'))"
      by (simp add: join_Cons)
    moreover have "mac_hex (join '':'' (chunks 2 (e # s'))) = mac_hex (e # s')"
      by (rule less) (simp add: s)
    ultimately show ?thesis using colon by (simp add: s mac_hex_def)
  qed
qed

lemma NormalizeMAC_Some:
  assumes "NormalizeMAC m = Some c"
  shows "\<exists>bs. length bs \<in> {6, 8, 20} \<and> c = mac_string bs \<and> hex_encode bs = to_lower (mac_hex (trim_space m))"
proof -
  let ?s = "trim_space m"
  have id: "mac_hex (mac_hex ?s) = mac_hex ?s" by (simp add: mac_hex_def)
  from assms obtain bs where "c = mac_string bs"
    and "parse_mac ?s = Some bs \<or> parse_mac (join '':'' (chunks 2 (mac_hex ?s))) = Some bs"
    by (auto simp: NormalizeMAC_def Let_def split: if_splits option.splits)
  then show ?thesis
    using parse_mac_hex [of ?s bs] parse_mac_hex [of "join '':'' (chunks 2 (mac_hex ?s))" bs]
      mac_hex_joined [of "mac_hex ?s"] by (auto simp: id)
qed

lemma NormalizeMAC_mac_string: "length bs \<in> {6, 8, 20} \<Longrightarrow> NormalizeMAC (mac_string bs) = Some (mac_string bs)"
proof -
  assume b: "length bs \<in> {6, 8, 20}"
  then have "bs \<noteq> []" by auto
  then have "mac_string bs \<noteq> []" unfolding mac_string_def using length_mac_string [of bs "CHR '':''"] b by auto
  with parse_mac_string [OF b] show ?thesis
    by (simp add: NormalizeMAC_def trim_space_no_space mac_string_no_space)
qed

lemma NormalizeMAC_canonical: "NormalizeMAC m = Some c \<Longrightarrow> NormalizeMAC c = Some c"
  using NormalizeMAC_Some NormalizeMAC_mac_string by blast

lemma NormalizeMAC_key:
  "NormalizeMAC m = Some c \<Longrightarrow> mac_hex c = to_lower (mac_hex (trim_space m))"
  using NormalizeMAC_Some mac_hex_mac_string by metis

lemma NormalizeMAC_eq_iff:
  assumes "NormalizeMAC m = Some c" "NormalizeMAC m' = Some c'"
  shows "c = c' \<longleftrightarrow> to_lower (mac_hex (trim_space m)) = to_lower (mac_hex (trim_space m'))"
proof -
  from assms obtain bs bs' where "c = mac_string bs" "c' = mac_string bs'"
    "hex_encode bs = to_lower (mac_hex (trim_space m))" "hex_encode bs' = to_lower (mac_hex (trim_space m'))"
    using NormalizeMAC_Some [OF assms(1)] NormalizeMAC_Some [OF assms(2)] by blast
  then show ?thesis by (metis hex_decode_encode mac_hex_mac_string option.inject)
qed

lemma NormalizeMAC_12:
  assumes "\<forall>c \<in> set (mac_hex (trim_space m)). is_hex c" "length (mac_hex (trim_space m)) = 12"
  shows "NormalizeMAC m \<noteq> None"
proof -
  have "trim_space m \<noteq> []" using assms by (auto simp: mac_hex_def)
  then show ?thesis
    using parse_mac_12 [OF assms] assms by (auto simp: NormalizeMAC_def Let_def split: option.splits)
qed

subsection \<open>What an entry protects\<close>

lemma not_is4in6_canonicalAddr [simp]: "\<not> is4in6 (canonicalAddr a)"
  by (cases a) (auto simp: canonicalAddr_def)

lemma canonicalAddr_idem [simp]: "canonicalAddr (canonicalAddr a) = canonicalAddr a"
  by (cases a) (auto simp: canonicalAddr_def)

lemma zone_canonicalAddr [simp]: "zone_of (canonicalAddr a) = []"
  by (cases a) (auto simp: canonicalAddr_def)

definition mac_covers :: "string \<Rightarrow> string \<Rightarrow> bool" where
  "mac_covers e m = (NormalizeMAC e \<noteq> None \<and> NormalizeMAC m = NormalizeMAC e)"

definition ip_covers :: "string \<Rightarrow> string \<Rightarrow> bool" where
  "ip_covers e i =
     (case parse_addr (trim_space i) of
        None \<Rightarrow> False
      | Some a \<Rightarrow>
          if CHR ''/'' \<in> set (trim_space e)
          then (case parse_prefix (trim_space e) of None \<Rightarrow> False | Some p \<Rightarrow> prefix_contains p (canonicalAddr a))
          else (case parse_addr (trim_space e) of None \<Rightarrow> False | Some b \<Rightarrow> canonicalAddr a = canonicalAddr b))"

lemma parse_addr_Nil [simp]: "parse_addr [] = None"
  by (simp add: parse_addr_def)

lemma trim_space_empty [simp]: "trim_space [] = []"
  by (simp add: trim_space_def trim_right_by_def trim_left_by_def)

lemma NormalizeMAC_Nil [simp]: "NormalizeMAC [] = None"
  by (simp add: NormalizeMAC_def)

lemma parse_prefix_Nil [simp]: "parse_prefix [] = None"
  by (simp add: parse_prefix_def last_slash_def)

lemma mac_covers_iff:
  "mac_covers e m \<longleftrightarrow> NormalizeMAC e \<noteq> None \<and> NormalizeMAC m \<noteq> None
     \<and> to_lower (mac_hex (trim_space e)) = to_lower (mac_hex (trim_space m))"
  using NormalizeMAC_eq_iff by (fastforce simp: mac_covers_def)

interpretation al: protected_set allowed_mac allowed_ip "\<lambda>e s. snd (AddMAC e s)" "\<lambda>e s. snd (AddIP e s)"
    mac_covers ip_covers
proof unfold_locales
  fix e m i :: string and s :: allowlist
  show "allowed_mac (snd (AddMAC e s)) m \<longleftrightarrow> mac_covers e m \<or> allowed_mac s m"
    by (cases "m = []") (auto simp: allowed_mac_def AddMAC_def mac_covers_def mget_put split: option.splits)
  show "allowed_mac (snd (AddIP e s)) m \<longleftrightarrow> allowed_mac s m"
    by (auto simp: allowed_mac_def AddIP_def Let_def split: option.splits)
  show "allowed_ip (snd (AddMAC e s)) i \<longleftrightarrow> allowed_ip s i"
    by (auto simp: allowed_ip_def AddMAC_def split: option.splits)
  show "allowed_ip (snd (AddIP e s)) i \<longleftrightarrow> ip_covers e i \<or> allowed_ip s i"
    by (cases "i = []") (auto simp: allowed_ip_def AddIP_def ip_covers_def contains_char_def mget_put Let_def
        split: option.splits)
qed

lemma AddMAC_rejected [branch]: "\<not> fst (AddMAC e al) \<Longrightarrow> snd (AddMAC e al) = al"
  by (auto simp: AddMAC_def split: option.splits)

lemma AddIP_rejected [branch]: "\<not> fst (AddIP e al) \<Longrightarrow> snd (AddIP e al) = al"
  by (auto simp: AddIP_def Let_def split: option.splits if_splits)

fun prefix_len_ok :: "prefix \<Rightarrow> bool" where
  "prefix_len_ok (Prefix a n) = (n \<le> addr_bits a)"

lemma parse_prefix_len: "parse_prefix s = Some p \<Longrightarrow> prefix_len_ok (prefix_masked p)"
proof -
  have "prefix_len_ok p = prefix_len_ok (prefix_masked p)" by (cases p rule: prefix_masked.cases) auto
  then show "parse_prefix s = Some p \<Longrightarrow> ?thesis"
    by (auto simp: parse_prefix_def split: option.splits if_splits)
qed

definition allowlist_ok :: "allowlist \<Rightarrow> bool" where
  "allowlist_ok al \<longleftrightarrow> mwf (al_macs al) \<and> mwf (al_addrs al)
     \<and> (\<forall>m. mget (al_macs al) m \<noteq> None \<longrightarrow> NormalizeMAC m = Some m)
     \<and> (\<forall>a. mget (al_addrs al) a \<noteq> None \<longrightarrow> canonicalAddr a = a)
     \<and> (\<forall>p \<in> set (al_nets al). prefix_masked p = p \<and> prefix_len_ok p)"

lemma prefix_masked_idem [simp]: "prefix_masked (prefix_masked p) = prefix_masked p"
  by (cases p rule: prefix_masked.cases) (simp_all add: top_bits_idem)

lemma allowlist_ok_ops [wf_intro]:
  "allowlist_ok empty_allowlist"
  "allowlist_ok al \<Longrightarrow> allowlist_ok (snd (AddMAC m al))"
  "allowlist_ok al \<Longrightarrow> allowlist_ok (snd (AddIP e al))"
  "allowlist_ok al \<Longrightarrow> allowlist_ok (RemoveMAC m al)"
  "allowlist_ok al \<Longrightarrow> allowlist_ok (RemoveIP e al)"
  by (auto simp: allowlist_ok_def empty_allowlist_def AddMAC_def AddIP_def RemoveMAC_def RemoveIP_def
      Let_def mget_put mget_del dest: NormalizeMAC_canonical parse_prefix_len split: option.splits if_splits)

text \<open>
  Further fact. A MAC entry protects a device whatever spelling either side uses: after
  \<open>AddMAC m\<close> a lookup with \<open>m'\<close> hits exactly when it hit before or both are accepted spellings of
  the same bytes (separators, case and surrounding white space do not count).
\<close>

theorem AddMAC_any_spelling:
  "Contains (snd (AddMAC m al)) m' ip \<longleftrightarrow> Contains al m' ip
     \<or> (fst (AddMAC m al) \<and> NormalizeMAC m' \<noteq> None
        \<and> to_lower (mac_hex (trim_space m)) = to_lower (mac_hex (trim_space m')))"
proof -
  have "fst (AddMAC m al) \<longleftrightarrow> NormalizeMAC m \<noteq> None" by (simp add: AddMAC_def split: option.splits)
  then show ?thesis by (auto simp: Contains_def al.mac_in_add_mac al.ip_in_add_mac mac_covers_iff)
qed

text \<open>
  Further fact. An IP entry protects exactly the addresses it describes: \<open>AddIP e\<close> adds to what
  \<open>Contains\<close> answers the addresses equal to \<open>e\<close> up to zone and IPv4-in-IPv6 form or, for a
  CIDR entry, those its network contains; nothing protected before is lost.
\<close>

theorem AddIP_covers:
  "Contains (snd (AddIP e al)) mac ip \<longleftrightarrow> Contains al mac ip \<or> ip_covers e ip"
  by (auto simp: Contains_def al.mac_in_add_ip al.ip_in_add_ip)

subsection \<open>A range that protects nothing\<close>

lemma mapped_range_matches_nothing:
  assumes "drop_bit 32 v = 65535" and "96 \<le> n" and "n \<le> 128"
  shows "\<not> prefix_contains (Prefix (IP6 v []) n) (canonicalAddr a)"
proof (cases "canonicalAddr a")
  case (IP6 w z)
  then have "drop_bit 32 w \<noteq> 65535" using not_is4in6_canonicalAddr [of a] by simp
  moreover have "drop_bit 32 w = drop_bit 32 v" if "drop_bit (128 - n) v = drop_bit (128 - n) w"
  proof -
    have "drop_bit 32 x = drop_bit (n - 96) (drop_bit (128 - n) x)" for x :: "128 word"
      using assms by simp
    then show ?thesis using that by metis
  qed
  ultimately show ?thesis using IP6 assms by (auto simp: same_top_iff)
qed simp

text \<open>
  Further fact. The comment on \<open>Allowlist\<close> promises that every accepted spelling is equivalent,
  but a range written in the IPv4-mapped form, here \<open>::ffff:192.168.1.0/120\<close>, is accepted, counted by
  \<open>Len\<close>, and protects no address at all: lookups are unmapped, the stored prefix is not.
\<close>

theorem mapped_cidr_accepted_but_useless:
  "fst (AddIP ''::ffff:192.168.1.0/120'' al)
   \<and> Len (snd (AddIP ''::ffff:192.168.1.0/120'' al)) = Suc (Len al)
   \<and> Contains (snd (AddIP ''::ffff:192.168.1.0/120'' al)) mac ip = Contains al mac ip"
proof -
  let ?e = "''::ffff:192.168.1.0/120''"
  have t: "trim_space ?e = ?e" "contains_char ?e (CHR ''/'')" by code_simp+
  have p: "parse_prefix ?e = Some (Prefix (IP6 0xffffc0a80100 []) 120)" by code_simp
  have "\<not> ip_covers ?e ip"
    using mapped_range_matches_nothing [of "0xffffc0a80100" 120]
    by (auto simp: ip_covers_def t p split: option.splits)
  then show ?thesis using AddIP_covers [of ?e al mac ip] by (simp add: AddIP_def t p Len_def)
qed

end
