(* ===== verification/Policy.thy ===== *)
theory Policy
  imports Allowlist
begin

text \<open>
  \<open>internal/policy/policy.go\<close>: thresholds read from the environment, and the decision for a
  detection event. An environment is a function from names to values, the empty string
  standing for an unset variable (\<open>os.Getenv\<close>). Log lines are not modelled.
\<close>

record decision =
  dc_Action :: string
  dc_ActionType :: string
  dc_TTLSeconds :: int
  dc_Reason :: string

record policy =
  AutoMinConfidence :: int
  AutoMinSeverity :: string
  PendMinConfidence :: int
  PendMinSeverity :: string
  DefaultTTL :: int
  DefaultAction :: string
  AutoMinSignals :: int
  AutoRequireKnownBad :: bool
  pol_Allowlist :: allowlist

definition DefaultPolicy :: policy where
  "DefaultPolicy = \<lparr> AutoMinConfidence = 90, AutoMinSeverity = SeverityCritical,
     PendMinConfidence = 50, PendMinSeverity = SeverityMedium, DefaultTTL = 3600,
     DefaultAction = ActionDNSSinkhole, AutoMinSignals = 1, AutoRequireKnownBad = True,
     pol_Allowlist = empty_allowlist \<rparr>"

definition validSeverities :: "string list" where
  "validSeverities = [SeverityCritical, SeverityHigh, SeverityMedium, SeverityLow]"

definition validActions :: "string list" where
  "validActions = [ActionDNSSinkhole, ActionARPIsolate, ActionSwitchACL]"

type_synonym environment = "string \<Rightarrow> string"

definition envOr :: "environment \<Rightarrow> string \<Rightarrow> string \<Rightarrow> string" where
  "envOr env key fallback = (let v = env key in if v \<noteq> [] then v else fallback)"

subsection \<open>Loading\<close>

definition parseConfidence :: "string \<Rightarrow> int option" where
  "parseConfidence v =
     (case atoi v of None \<Rightarrow> None | Some n \<Rightarrow> if n < 0 \<or> n > 100 then None else Some n)"

definition parseSeverity :: "string \<Rightarrow> string option" where
  "parseSeverity v =
     (let s = to_lower (trim_space v) in if s \<in> set validSeverities then Some s else None)"

text \<open>One \<open>if v := os.Getenv(key); v != ""\<close> block: the update runs on a value that parses.\<close>

definition env_update :: "environment \<Rightarrow> string \<Rightarrow> (string \<Rightarrow> 'a option) \<Rightarrow> ('a \<Rightarrow> policy \<Rightarrow> policy)
    \<Rightarrow> policy \<Rightarrow> policy" where
  "env_update env key parse upd p =
     (let v = env key in
      if v = [] then p else case parse v of None \<Rightarrow> p | Some x \<Rightarrow> upd x p)"

definition atoi_from :: "int \<Rightarrow> string \<Rightarrow> int option" where
  "atoi_from lo v = (case atoi v of None \<Rightarrow> None | Some n \<Rightarrow> if n \<ge> lo then Some n else None)"

definition parse_action :: "string \<Rightarrow> string option" where
  "parse_action v = (if v \<in> set validActions then Some v else None)"

definition parse_known_bad :: "string \<Rightarrow> bool option" where
  "parse_known_bad v =
     (let s = to_lower v in
      if s \<in> {''0'', ''false'', ''no''} then Some False
      else if s \<in> {''1'', ''true'', ''yes''} then Some True else None)"

text \<open>The loops over the comma-separated allowlist entries.\<close>

fun load_macs :: "string list \<Rightarrow> allowlist \<Rightarrow> allowlist" where
  "load_macs [] al = al"
| "load_macs (m # ms) al =
     (let m' = trim_space m in load_macs ms (if m' \<noteq> [] then snd (AddMAC m' al) else al))"

fun load_ips :: "string list \<Rightarrow> allowlist \<Rightarrow> allowlist" where
  "load_ips [] al = al"
| "load_ips (i # is) al =
     (let i' = trim_space i in load_ips is (if i' \<noteq> [] then snd (AddIP i' al) else al))"

definition load_allowlist :: "environment \<Rightarrow> allowlist \<Rightarrow> allowlist" where
  "load_allowlist env al =
     (let macs = env ''ALLOWLIST_MACS'';
          al1 = (if macs \<noteq> [] then load_macs (split_on (CHR '','') macs) al else al);
          ips = env ''ALLOWLIST_IPS''
      in if ips \<noteq> [] then load_ips (split_on (CHR '','') ips) al1 else al1)"

definition LoadFromEnv :: "environment \<Rightarrow> policy" where
  "LoadFromEnv env =
     (let p = DefaultPolicy;
          p = env_update env ''POLICY_AUTO_CONFIDENCE'' parseConfidence (\<lambda>n. AutoMinConfidence_update (\<lambda>_. n)) p;
          p = env_update env ''POLICY_AUTO_SEVERITY'' parseSeverity (\<lambda>s. AutoMinSeverity_update (\<lambda>_. s)) p;
          p = env_update env ''POLICY_PENDING_CONFIDENCE'' parseConfidence (\<lambda>n. PendMinConfidence_update (\<lambda>_. n)) p;
          p = env_update env ''POLICY_PENDING_SEVERITY'' parseSeverity (\<lambda>s. PendMinSeverity_update (\<lambda>_. s)) p;
          p = env_update env ''POLICY_DEFAULT_TTL'' (atoi_from 1) (\<lambda>n. DefaultTTL_update (\<lambda>_. n)) p;
          p = env_update env ''POLICY_DEFAULT_ACTION'' parse_action (\<lambda>a. DefaultAction_update (\<lambda>_. a)) p;
          p = env_update env ''POLICY_AUTO_MIN_SIGNALS'' (atoi_from 1) (\<lambda>n. AutoMinSignals_update (\<lambda>_. n)) p;
          p = env_update env ''POLICY_AUTO_REQUIRE_KNOWN_BAD'' parse_known_bad (\<lambda>b. AutoRequireKnownBad_update (\<lambda>_. b)) p
      in p \<lparr> pol_Allowlist := load_allowlist env (pol_Allowlist p) \<rparr>)"

subsection \<open>Deciding\<close>

definition severityRank :: "string \<Rightarrow> int" where
  "severityRank s =
     (if s = SeverityCritical then 4 else if s = SeverityHigh then 3
      else if s = SeverityMedium then 2 else if s = SeverityLow then 1 else 0)"

definition signalCount :: "detection_event \<Rightarrow> int" where
  "signalCount ev = (if de_SignalCount ev = 0 then 1 else de_SignalCount ev)"

definition corroborated :: "policy \<Rightarrow> detection_event \<Rightarrow> bool" where
  "corroborated p ev =
     (if AutoMinSignals p \<le> 1 then True
      else if de_SignalCount ev = 0 then True
      else de_SignalCount ev \<ge> AutoMinSignals p)"

definition autoBlockBlockedBy :: "policy \<Rightarrow> detection_event \<Rightarrow> string \<times> bool" where
  "autoBlockBlockedBy p ev =
     (if AutoRequireKnownBad p \<and> \<not> HasKnownBadSignal ev
      then (''no known-bad signal: heuristics alone never auto-block'', False)
      else if \<not> corroborated p ev
      then (''needs '' @ show_int (AutoMinSignals p) @ '' signals, has '' @ show_int (signalCount ev), False)
      else ([], True))"

definition conf_sev :: "detection_event \<Rightarrow> string" where
  "conf_sev ev = ''confidence='' @ show_int (de_Confidence ev) @ '' severity='' @ de_Severity ev"

definition Evaluate :: "policy \<Rightarrow> detection_event \<Rightarrow> decision" where
  "Evaluate p ev =
     (if Contains (pol_Allowlist p) (de_ClientMAC ev) (de_ClientIP ev) then
        \<lparr> dc_Action = ''ignore'', dc_ActionType = [], dc_TTLSeconds = 0,
          dc_Reason = ''allowlisted device '' @ de_ClientMAC ev @ '' / '' @ de_ClientIP ev \<rparr>
      else let evRank = severityRank (de_Severity ev) in
        if de_Confidence ev \<ge> AutoMinConfidence p \<and> evRank \<ge> severityRank (AutoMinSeverity p) then
          (case autoBlockBlockedBy p ev of
             (reason, False) \<Rightarrow>
               \<lparr> dc_Action = ''pending'', dc_ActionType = DefaultAction p, dc_TTLSeconds = DefaultTTL p,
                 dc_Reason = ''pending ('' @ reason @ ''): '' @ conf_sev ev @ '' signals='' @ show_int (signalCount ev) \<rparr>
           | (_, True) \<Rightarrow>
               \<lparr> dc_Action = ''auto_block'', dc_ActionType = DefaultAction p, dc_TTLSeconds = DefaultTTL p,
                 dc_Reason = ''auto: '' @ conf_sev ev @ '' signals='' @ show_int (signalCount ev)
                    @ '' known_bad='' @ fmt_strings (KnownBadSignals ev) \<rparr>)
        else if de_Confidence ev \<ge> PendMinConfidence p \<and> evRank \<ge> severityRank (PendMinSeverity p) then
          \<lparr> dc_Action = ''pending'', dc_ActionType = DefaultAction p, dc_TTLSeconds = DefaultTTL p,
            dc_Reason = ''pending: '' @ conf_sev ev \<rparr>
        else
          \<lparr> dc_Action = ''ignore'', dc_ActionType = [], dc_TTLSeconds = 0,
            dc_Reason = ''below thresholds: '' @ conf_sev ev \<rparr>)"

subsection \<open>A loaded policy is valid\<close>

definition policy_ok :: "policy \<Rightarrow> bool" where
  "policy_ok p \<longleftrightarrow>
     0 \<le> AutoMinConfidence p \<and> AutoMinConfidence p \<le> 100 \<and>
     0 \<le> PendMinConfidence p \<and> PendMinConfidence p \<le> 100 \<and>
     AutoMinSeverity p \<in> set validSeverities \<and> PendMinSeverity p \<in> set validSeverities \<and>
     DefaultAction p \<in> set validActions \<and>
     1 \<le> DefaultTTL p \<and> DefaultTTL p < 2 ^ 63 \<and> 1 \<le> AutoMinSignals p \<and> AutoMinSignals p < 2 ^ 63 \<and>
     allowlist_ok (pol_Allowlist p)"

lemma severityRank_valid: "s \<in> set validSeverities \<longleftrightarrow> severityRank s \<ge> 1"
  by (auto simp: validSeverities_def severityRank_def)

lemma env_update_inv:
  assumes "P p" and "\<And>x p. P p \<Longrightarrow> parse (env key) = Some x \<Longrightarrow> P (upd x p)"
  shows "P (env_update env key parse upd p)"
  using assms by (auto simp: env_update_def Let_def split: option.splits)

lemma load_macs_ok: "allowlist_ok al \<Longrightarrow> allowlist_ok (load_macs ms al)"
  by (induction ms arbitrary: al) (auto simp: Let_def allowlist_ok_ops)

lemma load_ips_ok: "allowlist_ok al \<Longrightarrow> allowlist_ok (load_ips is al)"
  by (induction "is" arbitrary: al) (auto simp: Let_def allowlist_ok_ops)

lemma load_allowlist_ok [wf_intro]: "allowlist_ok al \<Longrightarrow> allowlist_ok (load_allowlist env al)"
  by (simp add: load_allowlist_def Let_def load_macs_ok load_ips_ok)

lemma parse_ranges:
  "parseConfidence v = Some n \<Longrightarrow> 0 \<le> n \<and> n \<le> 100"
  "parseSeverity v = Some s \<Longrightarrow> s \<in> set validSeverities"
  "atoi_from lo v = Some n \<Longrightarrow> lo \<le> n \<and> n < 2 ^ 63"
  "parse_action v = Some a \<Longrightarrow> a \<in> set validActions"
  using atoi_range [of v]
  by (auto simp: parseConfidence_def parseSeverity_def atoi_from_def parse_action_def Let_def
      split: option.splits if_splits)

lemma policy_ok_default: "policy_ok DefaultPolicy"
  by (simp add: policy_ok_def DefaultPolicy_def validSeverities_def validActions_def allowlist_ok_ops)

lemma env_update_ok [wf_intro]:
  "policy_ok p \<Longrightarrow> policy_ok (env_update env k parseConfidence (\<lambda>n. AutoMinConfidence_update (\<lambda>_. n)) p)"
  "policy_ok p \<Longrightarrow> policy_ok (env_update env k parseSeverity (\<lambda>n. AutoMinSeverity_update (\<lambda>_. n)) p)"
  "policy_ok p \<Longrightarrow> policy_ok (env_update env k parseConfidence (\<lambda>n. PendMinConfidence_update (\<lambda>_. n)) p)"
  "policy_ok p \<Longrightarrow> policy_ok (env_update env k parseSeverity (\<lambda>n. PendMinSeverity_update (\<lambda>_. n)) p)"
  "policy_ok p \<Longrightarrow> policy_ok (env_update env k (atoi_from 1) (\<lambda>n. DefaultTTL_update (\<lambda>_. n)) p)"
  "policy_ok p \<Longrightarrow> policy_ok (env_update env k parse_action (\<lambda>n. DefaultAction_update (\<lambda>_. n)) p)"
  "policy_ok p \<Longrightarrow> policy_ok (env_update env k (atoi_from 1) (\<lambda>n. AutoMinSignals_update (\<lambda>_. n)) p)"
  "policy_ok p \<Longrightarrow> policy_ok (env_update env k parse_known_bad (\<lambda>n. AutoRequireKnownBad_update (\<lambda>_. n)) p)"
  by (rule env_update_inv [where P = policy_ok]; auto simp: policy_ok_def dest: parse_ranges)+

lemma policy_ok_allowlist:
  "policy_ok p \<Longrightarrow> policy_ok (p \<lparr> pol_Allowlist := load_allowlist env (pol_Allowlist p) \<rparr>)"
  by (simp add: policy_ok_def load_allowlist_ok)

text \<open>
  Further fact. Whatever the environment holds, \<open>LoadFromEnv\<close> returns a usable policy:
  confidences within 0..100, severities that rank, an action type a driver can exist for, a positive
  TTL, at least one signal and a well-formed allowlist. A mistyped variable never widens enforcement.
\<close>

theorem LoadFromEnv_valid: "policy_ok (LoadFromEnv env)"
  unfolding LoadFromEnv_def Let_def
  by (intro policy_ok_allowlist env_update_ok policy_ok_default)

lemma Contains_empty [simp]: "\<not> Contains empty_allowlist mac ip"
  by (auto simp: Contains_def allowed_mac_def allowed_ip_def empty_allowlist_def split: option.splits)

subsection \<open>When the killswitch may act on its own\<close>

lemma autoBlockBlockedBy_ok [branch]:
  "snd (autoBlockBlockedBy p ev) \<longleftrightarrow>
     (AutoRequireKnownBad p \<longrightarrow> HasKnownBadSignal ev) \<and> corroborated p ev"
  by (simp add: autoBlockBlockedBy_def)

lemma Evaluate_allowlisted [branch]:
  "Contains (pol_Allowlist p) (de_ClientMAC ev) (de_ClientIP ev) \<Longrightarrow> dc_Action (Evaluate p ev) = ''ignore''"
  by (simp add: Evaluate_def)

lemma Evaluate_above [branch]:
  assumes "\<not> Contains (pol_Allowlist p) (de_ClientMAC ev) (de_ClientIP ev)"
    and "de_Confidence ev \<ge> AutoMinConfidence p" "severityRank (de_Severity ev) \<ge> severityRank (AutoMinSeverity p)"
  shows "dc_Action (Evaluate p ev) = (if snd (autoBlockBlockedBy p ev) then ''auto_block'' else ''pending'')"
  using assms by (cases "autoBlockBlockedBy p ev") (auto simp: Evaluate_def Let_def split: bool.splits)

lemma Evaluate_below [branch]:
  assumes "\<not> Contains (pol_Allowlist p) (de_ClientMAC ev) (de_ClientIP ev)"
    and "\<not> (de_Confidence ev \<ge> AutoMinConfidence p \<and> severityRank (de_Severity ev) \<ge> severityRank (AutoMinSeverity p))"
  shows "dc_Action (Evaluate p ev) =
    (if de_Confidence ev \<ge> PendMinConfidence p \<and> severityRank (de_Severity ev) \<ge> severityRank (PendMinSeverity p)
     then ''pending'' else ''ignore'')"
  unfolding Evaluate_def Let_def if_not_P [OF assms(1)] if_not_P [OF assms(2)] by simp

lemma Evaluate_act [branch]:
  "dc_Action (Evaluate p ev) \<noteq> ''ignore'' \<Longrightarrow>
     dc_ActionType (Evaluate p ev) = DefaultAction p \<and> dc_TTLSeconds (Evaluate p ev) = DefaultTTL p"
  by (cases "autoBlockBlockedBy p ev"; cases "snd (autoBlockBlockedBy p ev)")
    (simp_all add: Evaluate_def Let_def split: if_splits)

text \<open>
  Property C1. The complete condition for automatic enforcement. An event is auto-blocked exactly
  when its device is not allowlisted, confidence and severity reach the automatic thresholds, a
  known-bad signal class is present (unless that gate is switched off) and the signal-count gate
  holds; heuristic signals alone, however confident, are never enough.
\<close>

theorem auto_block_iff:
  "dc_Action (Evaluate p ev) = ''auto_block'' \<longleftrightarrow>
     \<not> Contains (pol_Allowlist p) (de_ClientMAC ev) (de_ClientIP ev)
   \<and> AutoMinConfidence p \<le> de_Confidence ev
   \<and> severityRank (AutoMinSeverity p) \<le> severityRank (de_Severity ev)
   \<and> (AutoRequireKnownBad p \<longrightarrow>
        {SignalIoC, SignalIDS} \<inter> insert (de_SignalClass ev) (set (de_Signals ev)) \<noteq> {})
   \<and> (AutoMinSignals p \<le> 1 \<or> de_SignalCount ev = 0 \<or> AutoMinSignals p \<le> de_SignalCount ev)"
proof (cases "Contains (pol_Allowlist p) (de_ClientMAC ev) (de_ClientIP ev)")
  case False
  have k: "HasKnownBadSignal ev \<longleftrightarrow>
      {SignalIoC, SignalIDS} \<inter> insert (de_SignalClass ev) (set (de_Signals ev)) \<noteq> {}"
    by (auto simp: HasKnownBadSignal_iff IsKnownBadSignal_def)
  have c: "corroborated p ev \<longleftrightarrow>
      AutoMinSignals p \<le> 1 \<or> de_SignalCount ev = 0 \<or> AutoMinSignals p \<le> de_SignalCount ev"
    by (auto simp: corroborated_def)
  show ?thesis
  proof (cases "AutoMinConfidence p \<le> de_Confidence ev \<and> severityRank (AutoMinSeverity p) \<le> severityRank (de_Severity ev)")
    case True
    with Evaluate_above [OF False] show ?thesis
      unfolding k [symmetric] c [symmetric] by (simp add: False autoBlockBlockedBy_ok)
  next
    case f: False
    with Evaluate_below [OF False f] show ?thesis by auto
  qed
qed (simp add: Evaluate_allowlisted)

definition sample_event :: detection_event where
  "sample_event = \<lparr> de_SchemaVersion = DetectionSchemaVersion, de_ID = ''DET-42'', de_Timestamp = 0,
     de_Domain = ''evil.example.com'', de_MatchedIoC = ''evil.example.com'', de_IoCType = ''domain'',
     de_ClientIP = ''192.168.1.42'', de_ClientMAC = ''aa:bb:cc:dd:ee:ff'', de_ClientName = [],
     de_Severity = SeverityCritical, de_Confidence = 95, de_Source = ''threatfox'',
     de_Threat = ''emotet'', de_MitreID = [], de_MitreName = [], de_QueryType = ''A'', de_Tags = [],
     de_SignalClass = SignalIoC, de_Signals = [], de_SignalCount = 0 \<rparr>"

theorem auto_block_iff_witness:
  "dc_Action (Evaluate DefaultPolicy sample_event) = ''auto_block''"
  by (simp add: auto_block_iff DefaultPolicy_def sample_event_def severityRank_def Contains_empty)

definition decision_level :: "decision \<Rightarrow> nat" where
  "decision_level d = (if dc_Action d = ''auto_block'' then 2 else if dc_Action d = ''pending'' then 1 else 0)"

lemma decision_level_Evaluate:
  "decision_level (Evaluate p ev) =
    (if Contains (pol_Allowlist p) (de_ClientMAC ev) (de_ClientIP ev) then 0
     else if de_Confidence ev \<ge> AutoMinConfidence p \<and> severityRank (de_Severity ev) \<ge> severityRank (AutoMinSeverity p)
       then if (AutoRequireKnownBad p \<longrightarrow> HasKnownBadSignal ev) \<and> corroborated p ev then 2 else 1
     else if de_Confidence ev \<ge> PendMinConfidence p \<and> severityRank (de_Severity ev) \<ge> severityRank (PendMinSeverity p)
       then 1 else 0)"
  using Evaluate_above [of p ev] Evaluate_below [of p ev]
  by (auto simp: decision_level_def Evaluate_allowlisted autoBlockBlockedBy_ok)

text \<open>
  Further fact. More evidence never weakens the response: for the same device and signal count, an
  event with at least the confidence, the severity rank and the signal classes of another is
  decided at least as strongly (ignore, pending, auto-block), for every policy.
\<close>

theorem Evaluate_monotone:
  assumes "de_ClientMAC ev' = de_ClientMAC ev" and "de_ClientIP ev' = de_ClientIP ev"
    and "de_Confidence ev \<le> de_Confidence ev'"
    and "severityRank (de_Severity ev) \<le> severityRank (de_Severity ev')"
    and "insert (de_SignalClass ev) (set (de_Signals ev)) \<subseteq> insert (de_SignalClass ev') (set (de_Signals ev'))"
    and "de_SignalCount ev' = de_SignalCount ev"
  shows "decision_level (Evaluate p ev) \<le> decision_level (Evaluate p ev')"
proof -
  have "HasKnownBadSignal ev'" if "HasKnownBadSignal ev"
    using that assms(5) unfolding HasKnownBadSignal_iff by blast
  moreover have "corroborated p ev' = corroborated p ev" using assms(6) by (simp add: corroborated_def)
  ultimately show ?thesis using assms(1-4) unfolding decision_level_Evaluate by auto
qed

theorem Evaluate_monotone_witness:
  "decision_level (Evaluate DefaultPolicy (sample_event \<lparr> de_Confidence := 60, de_Severity := SeverityMedium \<rparr>))
     \<le> decision_level (Evaluate DefaultPolicy sample_event)"
  by (rule Evaluate_monotone) (simp_all add: sample_event_def severityRank_def)

lemma load_macs_add: "load_macs ms al = al.add_macs (filter (\<lambda>m. m \<noteq> []) (map trim_space ms)) al"
  by (induction ms arbitrary: al) (auto simp: al.add_macs_def Let_def)

lemma load_ips_add: "load_ips is al = al.add_ips (filter (\<lambda>i. i \<noteq> []) (map trim_space is)) al"
  by (induction "is" arbitrary: al) (auto simp: al.add_ips_def Let_def)

lemma mac_covers_trim [simp]: "mac_covers (trim_space e) m = mac_covers e m"
  by (simp add: mac_covers_def NormalizeMAC_def)

lemma ip_covers_trim [simp]: "ip_covers (trim_space e) i = ip_covers e i"
  unfolding ip_covers_def trim_space_idem ..

lemma covers_Nil [simp]: "\<not> mac_covers [] m" "\<not> ip_covers [] i"
  by (simp_all add: mac_covers_def ip_covers_def split: option.splits)

lemma covers_not_blank: "mac_covers e m \<Longrightarrow> trim_space e \<noteq> []" "ip_covers e i \<Longrightarrow> trim_space e \<noteq> []"
  using mac_covers_trim [of e m] ip_covers_trim [of e i] by force+

lemma covers_trimmed:
  "(\<exists>e \<in> set (filter (\<lambda>m. m \<noteq> []) (map trim_space es)). mac_covers e m) \<longleftrightarrow> (\<exists>e \<in> set es. mac_covers e m)"
  "(\<exists>e \<in> set (filter (\<lambda>m. m \<noteq> []) (map trim_space es)). ip_covers e i) \<longleftrightarrow> (\<exists>e \<in> set es. ip_covers e i)"
  using covers_not_blank by fastforce+

lemma load_macs_mem:
  "allowed_mac (load_macs es al) m \<longleftrightarrow> (\<exists>e \<in> set es. mac_covers e m) \<or> allowed_mac al m"
  "allowed_ip (load_macs es al) i \<longleftrightarrow> allowed_ip al i"
  by (simp_all only: load_macs_add al.bulk covers_trimmed)

lemma load_ips_mem:
  "allowed_ip (load_ips es al) i \<longleftrightarrow> (\<exists>e \<in> set es. ip_covers e i) \<or> allowed_ip al i"
  "allowed_mac (load_ips es al) m \<longleftrightarrow> allowed_mac al m"
  by (simp_all only: load_ips_add al.bulk covers_trimmed)

lemma load_allowlist_contains:
  "Contains (load_allowlist env al) mac ip \<longleftrightarrow> Contains al mac ip
     \<or> (\<exists>e \<in> set (split_on (CHR '','') (env ''ALLOWLIST_MACS'')). mac_covers e mac)
     \<or> (\<exists>e \<in> set (split_on (CHR '','') (env ''ALLOWLIST_IPS'')). ip_covers e ip)"
  by (auto simp: Contains_def load_allowlist_def Let_def load_macs_mem load_ips_mem)

lemma pol_Allowlist_env_update:
  "(\<And>x p. pol_Allowlist (upd x p) = pol_Allowlist p) \<Longrightarrow> pol_Allowlist (env_update env k parse upd p) = pol_Allowlist p"
  by (auto simp: env_update_def Let_def split: option.splits)

lemma pol_Allowlist_LoadFromEnv: "pol_Allowlist (LoadFromEnv env) = load_allowlist env empty_allowlist"
  by (simp add: LoadFromEnv_def Let_def pol_Allowlist_env_update DefaultPolicy_def)

text \<open>
  Property C10. The allowlist of the environment protects end to end: when some comma-separated
  entry of \<open>ALLOWLIST_MACS\<close> denotes the event's MAC, or some entry of \<open>ALLOWLIST_IPS\<close> its IP, in whatever
  position and spelling and whatever else the environment holds, the loaded policy ignores the event.
\<close>

theorem env_allowlist_protects:
  assumes "(\<exists>e \<in> set (split_on (CHR '','') (env ''ALLOWLIST_MACS'')). mac_covers e (de_ClientMAC ev))
         \<or> (\<exists>e \<in> set (split_on (CHR '','') (env ''ALLOWLIST_IPS'')). ip_covers e (de_ClientIP ev))"
  shows "dc_Action (Evaluate (LoadFromEnv env) ev) = ''ignore''"
  using assms by (intro Evaluate_allowlisted) (simp add: pol_Allowlist_LoadFromEnv load_allowlist_contains)

theorem env_allowlist_protects_witness:
  "dc_Action (Evaluate (LoadFromEnv (\<lambda>k. if k = ''ALLOWLIST_MACS'' then ''AA-BB-CC-DD-EE-FF, aabb.ccdd.ee00'' else []))
     sample_event) = ''ignore''"
proof (rule env_allowlist_protects)
  have "mac_covers ''AA-BB-CC-DD-EE-FF'' (de_ClientMAC sample_event)" by code_simp
  then show "(\<exists>e \<in> set (split_on (CHR '','') ((\<lambda>k. if k = ''ALLOWLIST_MACS'' then ''AA-BB-CC-DD-EE-FF, aabb.ccdd.ee00'' else []) ''ALLOWLIST_MACS'')).
        mac_covers e (de_ClientMAC sample_event))
    \<or> (\<exists>e \<in> set (split_on (CHR '','') ((\<lambda>k. if k = ''ALLOWLIST_MACS'' then ''AA-BB-CC-DD-EE-FF, aabb.ccdd.ee00'' else []) ''ALLOWLIST_IPS'')).
        ip_covers e (de_ClientIP sample_event))"
    by simp
qed

end
