(* ===== verification/Guard.thy ===== *)
theory Guard
  imports Policy
begin

text \<open>
  \<open>internal/drivers/guard.go\<close>: the target guard every destructive driver consults, a second
  implementation of the protected-set contract with its own MAC key, and its construction from
  the gateway address and the policy allowlist at start-up (\<open>main.go\<close>).
\<close>

record target_guard =
  tg_ips :: "(addr, unit) gomap"
  tg_macs :: "(string, unit) gomap"
  tg_nets :: "prefix list"
  tg_names :: "string list"

definition empty_guard :: target_guard where
  "empty_guard = \<lparr> tg_ips = [], tg_macs = [], tg_nets = [], tg_names = [] \<rparr>"

definition normalizeAddr :: "addr \<Rightarrow> addr" where
  "normalizeAddr a = without_zone (if is4in6 a then unmap a else a)"

text \<open>The loop over the characters; \<open>None\<close> is the early return of the empty key.\<close>

fun mac_key_loop :: "string \<Rightarrow> string \<Rightarrow> string option" where
  "mac_key_loop sb [] = Some sb"
| "mac_key_loop sb (r # rs) =
     (if (CHR ''0'' \<le> r \<and> r \<le> CHR ''9'') \<or> (CHR ''a'' \<le> r \<and> r \<le> CHR ''f'') then mac_key_loop (sb @ [r]) rs
      else if r = CHR '':'' \<or> r = CHR ''-'' \<or> r = CHR ''.'' then mac_key_loop sb rs
      else None)"

definition normalizeMACKey :: "string \<Rightarrow> string" where
  "normalizeMACKey mac =
     (case mac_key_loop [] (to_lower (trim_space mac)) of
        None \<Rightarrow> []
      | Some sb \<Rightarrow> if length sb \<noteq> 12 then [] else sb)"

definition ProtectIP :: "string \<Rightarrow> target_guard \<Rightarrow> target_guard" where
  "ProtectIP entry g =
     (let s = trim_space entry in
      if s = [] then g
      else if contains_char s (CHR ''/'') then
        (case parse_prefix s of None \<Rightarrow> g
         | Some p \<Rightarrow> g \<lparr> tg_nets := tg_nets g @ [prefix_masked p] \<rparr>)
      else (case parse_addr s of None \<Rightarrow> g
            | Some a \<Rightarrow> g \<lparr> tg_ips := mput (normalizeAddr a) () (tg_ips g) \<rparr>))"

definition ProtectMAC :: "string \<Rightarrow> target_guard \<Rightarrow> target_guard" where
  "ProtectMAC mac g =
     (let s = normalizeMACKey mac in
      if s = [] then g else g \<lparr> tg_macs := mput s () (tg_macs g) \<rparr>)"

definition ProtectName :: "string \<Rightarrow> target_guard \<Rightarrow> target_guard" where
  "ProtectName name g = g \<lparr> tg_names := tg_names g @ [name] \<rparr>"

datatype guard_error = ProtectedDevice string | ProtectedAddress string | ProtectedRange prefix string

fun guard_error_text :: "guard_error \<Rightarrow> string" where
  "guard_error_text (ProtectedDevice mac) = ''refusing to enforce against protected device '' @ mac"
| "guard_error_text (ProtectedAddress ip) = ''refusing to enforce against protected address '' @ ip"
| "guard_error_text (ProtectedRange p ip) =
     ''refusing to enforce against protected range '' @ prefix_string p @ '' ('' @ ip @ '')''"

text \<open>A nil guard refuses nothing; \<open>None\<close> as a result is the nil error.\<close>

definition Check :: "target_guard option \<Rightarrow> string \<Rightarrow> string \<Rightarrow> guard_error option" where
  "Check g mac ip =
     (case g of None \<Rightarrow> None
      | Some g \<Rightarrow>
          (let key = normalizeMACKey mac in
           if key \<noteq> [] \<and> mget (tg_macs g) key \<noteq> None then Some (ProtectedDevice mac)
           else let s = trim_space ip in
             if s = [] then None
             else case parse_addr s of None \<Rightarrow> None
               | Some a \<Rightarrow>
                   (let canon = normalizeAddr a in
                    if mget (tg_ips g) canon \<noteq> None then Some (ProtectedAddress ip)
                    else case find (\<lambda>p. prefix_contains p canon) (tg_nets g) of
                        None \<Rightarrow> None
                      | Some p \<Rightarrow> Some (ProtectedRange p ip))))"

subsection \<open>The guard is a protected set\<close>

lemma normalizeAddr_canonical: "normalizeAddr = canonicalAddr"
  by (simp add: fun_eq_iff normalizeAddr_def canonicalAddr_def)

definition guards_mac :: "target_guard \<Rightarrow> string \<Rightarrow> bool" where
  "guards_mac g mac = (normalizeMACKey mac \<noteq> [] \<and> mget (tg_macs g) (normalizeMACKey mac) \<noteq> None)"

definition guards_ip :: "target_guard \<Rightarrow> string \<Rightarrow> bool" where
  "guards_ip g ip =
     (case parse_addr (trim_space ip) of None \<Rightarrow> False
      | Some a \<Rightarrow> mget (tg_ips g) (canonicalAddr a) \<noteq> None
          \<or> (\<exists>p \<in> set (tg_nets g). prefix_contains p (canonicalAddr a)))"

definition key_covers :: "string \<Rightarrow> string \<Rightarrow> bool" where
  "key_covers e m = (normalizeMACKey e \<noteq> [] \<and> normalizeMACKey m = normalizeMACKey e)"

lemma Check_iff: "Check (Some g) mac ip = None \<longleftrightarrow> \<not> guards_mac g mac \<and> \<not> guards_ip g ip"
proof -
  have "find P xs \<noteq> None \<longleftrightarrow> (\<exists>x \<in> set xs. P x)" for P :: "prefix \<Rightarrow> bool" and xs
    by (auto simp: find_None_iff)
  then have f: "find P xs = Some y \<Longrightarrow> \<exists>x \<in> set xs. P x" for P :: "prefix \<Rightarrow> bool" and xs y by blast
  show ?thesis
    by (auto simp: Check_def guards_mac_def guards_ip_def normalizeAddr_canonical Let_def find_None_iff
      dest!: f split: option.splits)
qed

interpretation tg: protected_set guards_mac guards_ip ProtectMAC ProtectIP key_covers ip_covers
proof unfold_locales
  fix e m i :: string and g :: target_guard
  show "guards_mac (ProtectMAC e g) m \<longleftrightarrow> key_covers e m \<or> guards_mac g m"
    by (auto simp: guards_mac_def ProtectMAC_def key_covers_def mget_put Let_def)
  show "guards_mac (ProtectIP e g) m \<longleftrightarrow> guards_mac g m"
    by (auto simp: guards_mac_def ProtectIP_def Let_def split: option.splits)
  show "guards_ip (ProtectMAC e g) i \<longleftrightarrow> guards_ip g i"
    by (auto simp: guards_ip_def ProtectMAC_def Let_def split: option.splits)
  show "guards_ip (ProtectIP e g) i \<longleftrightarrow> ip_covers e i \<or> guards_ip g i"
    by (auto simp: guards_ip_def ProtectIP_def ip_covers_def contains_char_def normalizeAddr_canonical mget_put Let_def
        split: option.splits)
qed

text \<open>The start-up code of \<open>main.go\<close>: the gateway address, then every allowlist entry as printed.\<close>

definition startup_guard :: "environment \<Rightarrow> policy \<Rightarrow> target_guard" where
  "startup_guard env pol =
     (let gw = env ''ARP_GATEWAY_IP'';
          g = (if gw \<noteq> [] then ProtectIP gw empty_guard else empty_guard);
          g = fold ProtectIP (IPs (pol_Allowlist pol)) g
      in fold ProtectMAC (MACs (pol_Allowlist pol)) g)"

subsection \<open>The two MAC normalisations agree on 48-bit addresses\<close>

lemma is_hex_lower_range:
  "to_lower_char c = c \<Longrightarrow> ((CHR ''0'' \<le> c \<and> c \<le> CHR ''9'') \<or> (CHR ''a'' \<le> c \<and> c \<le> CHR ''f'')) = is_hex c"
proof -
  assume l: "to_lower_char c = c"
  have "\<not> (65 \<le> (of_char c :: nat) \<and> (of_char c :: nat) \<le> 90)"
  proof
    assume a: "65 \<le> (of_char c :: nat) \<and> (of_char c :: nat) \<le> 90"
    then have "of_char (char_of (of_char c + 32 :: nat) :: char) = (of_char c :: nat)"
      using l by (simp add: to_lower_char_def)
    with a show False by (simp add: of_char_of)
  qed
  then show ?thesis by (auto simp: is_hex_def hex_val_def Let_def less_eq_char_def)
qed

lemma mac_key_loop_eq:
  "\<forall>c \<in> set s. to_lower_char c = c \<Longrightarrow>
   mac_key_loop sb s = (if \<forall>c \<in> set (mac_hex s). is_hex c then Some (sb @ mac_hex s) else None)"
proof (induction s arbitrary: sb)
  case (Cons c s)
  then have h: "((CHR ''0'' \<le> c \<and> c \<le> CHR ''9'') \<or> (CHR ''a'' \<le> c \<and> c \<le> CHR ''f'')) = is_hex c"
    by (simp only: is_hex_lower_range list.set_intros)
  have "is_mac_sep c \<Longrightarrow> \<not> is_hex c" using hex_not_sep by blast
  with Cons show ?case unfolding mac_key_loop.simps h
    by (cases "is_mac_sep c") (auto simp: mac_hex_def is_mac_sep_def)
qed (simp add: mac_hex_def)

lemma mac_hex_lower: "mac_hex (to_lower s) = to_lower (mac_hex s)"
proof -
  have "is_mac_sep (to_lower_char c) = is_mac_sep c" for c
    using lower_sep [of "to_lower_char c" c] lower_sep [of c c]
    by (metis is_mac_sep_def lower_sep mac_seps)
  then show ?thesis by (induction s) (auto simp: mac_hex_def to_lower_def)
qed

lemma normalizeMACKey_eq:
  "normalizeMACKey m =
    (let h = to_lower (mac_hex (trim_space m)) in if (\<forall>c \<in> set h. is_hex c) \<and> length h = 12 then h else [])"
proof -
  have "\<forall>c \<in> set (to_lower s). to_lower_char c = c" for s by (auto simp: to_lower_def)
  then show ?thesis
    unfolding normalizeMACKey_def by (simp add: mac_key_loop_eq mac_hex_lower Let_def)
qed

lemma length_mac_string_6: "length bs \<in> {6, 8, 20} \<Longrightarrow> length (mac_string bs) = 17 \<longleftrightarrow> length bs = 6"
  unfolding mac_string_def using length_mac_string [of bs "CHR '':''"] by (cases bs) auto

lemma is_hex_to_lower_set: "(\<forall>c \<in> set (to_lower s). is_hex c) \<longleftrightarrow> (\<forall>c \<in> set s. is_hex c)"
  by (simp add: to_lower_def)

text \<open>
  Further fact. The driver guard and the policy allowlist recognise the same 48-bit MACs: the guard's
  key of a text is the hexadecimal digits of the canonical form the allowlist computes when that form has
  six bytes, and is empty (nothing protected, nothing matched) otherwise. The 8- and 20-byte addresses
  the allowlist accepts are invisible to the guard.
\<close>

theorem guard_key_of_canonical:
  "normalizeMACKey m =
     (case NormalizeMAC m of None \<Rightarrow> []
      | Some c \<Rightarrow> if length c = 17 then mac_hex c else [])"
proof (cases "NormalizeMAC m")
  case None
  then show ?thesis using NormalizeMAC_12 [of m] normalizeMACKey_eq [of m]
    by (auto simp: Let_def is_hex_to_lower_set)
next
  case (Some c)
  then obtain bs where bs: "length bs \<in> {6, 8, 20}" "c = mac_string bs"
    "hex_encode bs = to_lower (mac_hex (trim_space m))"
    using NormalizeMAC_Some by blast
  then have "length c = 17 \<longleftrightarrow> length (to_lower (mac_hex (trim_space m))) = 12"
    by (simp add: length_mac_string_6 flip: bs(3))
  moreover have "\<forall>c \<in> set (to_lower (mac_hex (trim_space m))). is_hex c"
    unfolding bs(3) [symmetric] using is_hex_hex_encode by blast
  ultimately show ?thesis
    unfolding normalizeMACKey_eq using Some bs NormalizeMAC_key [OF Some] by (simp add: Let_def)
qed

subsection \<open>The start-up guard covers the allowlist\<close>

lemma fold_tg: "fold ProtectIP es g = tg.add_ips es g" "fold ProtectMAC es g = tg.add_macs es g"
  by (simp_all add: tg.add_ips_def tg.add_macs_def foldl_conv_fold)

lemma startup_guard_members:
  "\<exists>e \<in> set (MACs (pol_Allowlist pol)). key_covers e mac \<Longrightarrow> guards_mac (startup_guard env pol) mac"
  "\<exists>e \<in> set (IPs (pol_Allowlist pol)). ip_covers e ip \<Longrightarrow> guards_ip (startup_guard env pol) ip"
  by (auto simp: startup_guard_def Let_def fold_tg tg.bulk)

lemma digit_not_space: "is_digit c \<Longrightarrow> \<not> is_space c"
  by (auto simp: is_space_def is_digit_def Let_def)

lemma trim_space_v4 [simp]: "trim_space (v4_string w) = v4_string w"
proof (rule trim_space_no_space)
  have "\<not> is_space (CHR ''.'')" by code_simp
  then show "\<forall>c \<in> set (v4_string w). \<not> is_space c" using v4_string_chars digit_not_space by blast
qed

lemma v4_string_no_slash: "CHR ''/'' \<notin> set (v4_string w)"
  by (auto dest!: v4_string_chars simp: is_digit_def)

lemma ip_covers_v4: "parse_addr (trim_space ip) = Some a \<Longrightarrow> canonicalAddr a = IP4 w \<Longrightarrow> ip_covers (v4_string w) ip"
  by (simp add: ip_covers_def v4_string_no_slash parse_addr_v4_string) (simp add: canonicalAddr_def)

lemma prefix_string_v4_chars: "\<forall>c \<in> set (prefix_string (Prefix (IP4 w) n)). \<not> is_space c"
proof
  fix c assume "c \<in> set (prefix_string (Prefix (IP4 w) n))"
  then have "is_digit c \<or> c \<in> {CHR ''.'', CHR ''/''}"
    using is_digit_show_nat [of n] v4_string_chars [of c w] by (auto simp: list_all_iff)
  then show "\<not> is_space c" using digit_not_space by (auto simp: is_space_def)
qed

lemma ip_covers_v4_prefix:
  assumes "n \<le> 32" "parse_addr (trim_space ip) = Some a" "prefix_contains (Prefix (IP4 v) n) (canonicalAddr a)"
  shows "ip_covers (prefix_string (Prefix (IP4 v) n)) ip"
proof -
  have "trim_space (prefix_string (Prefix (IP4 v) n)) = prefix_string (Prefix (IP4 v) n)"
    by (rule trim_space_no_space [OF prefix_string_v4_chars])
  moreover have "CHR ''/'' \<in> set (prefix_string (Prefix (IP4 v) n))" by simp
  ultimately show ?thesis
    using assms parse_prefix_v4_string [OF assms(1), of v]
    unfolding ip_covers_def by (simp del: prefix_string.simps)
qed

text \<open>
  Property C25. Defence in depth at start-up: every device the allowlist protects is refused by the guard
  the controller builds from it, for a 48-bit MAC and an IPv4 address. The guard is fed the printed
  entries, so this also says that printing and re-reading addresses and ranges loses nothing.
\<close>

theorem startup_guard_covers_allowlist:
  assumes "allowlist_ok (pol_Allowlist pol)" and "Contains (pol_Allowlist pol) mac ip"
    and "NormalizeMAC mac = Some c" and "length c = 17"
    and "parse_addr (trim_space ip) = Some a" and "canonicalAddr a = IP4 w"
  shows "Check (Some (startup_guard env pol)) mac ip \<noteq> None"
proof (cases "allowed_mac (pol_Allowlist pol) mac")
  case True
  then have "c \<in> set (MACs (pol_Allowlist pol))"
    using assms(3) by (auto simp: allowed_mac_def MACs_def dest: map_of_SomeD) (metis fst_conv imageI map_of_SomeD)
  moreover have "key_covers c mac"
  proof -
    have "NormalizeMAC c = Some c" by (rule NormalizeMAC_canonical [OF assms(3)])
    then have "normalizeMACKey c = mac_hex c" "normalizeMACKey mac = mac_hex c"
      using assms(3,4) by (simp_all add: guard_key_of_canonical)
    moreover have "mac_hex c \<noteq> []"
    proof -
      obtain bs where "length bs \<in> {6, 8, 20}" "c = mac_string bs" using NormalizeMAC_Some [OF assms(3)] by blast
      then have "length (mac_hex c) \<noteq> 0" by (auto simp: mac_hex_mac_string)
      then show ?thesis by simp
    qed
    ultimately show ?thesis by (simp add: key_covers_def)
  qed
  ultimately show ?thesis unfolding Check_iff using startup_guard_members(1) by blast
next
  case False
  with assms(2,5,6) have "mget (al_addrs (pol_Allowlist pol)) (IP4 w) \<noteq> None
      \<or> (\<exists>p \<in> set (al_nets (pol_Allowlist pol)). prefix_contains p (IP4 w))"
    by (auto simp: Contains_def allowed_ip_def Let_def list_ex_iff)
  then have "\<exists>e \<in> set (IPs (pol_Allowlist pol)). ip_covers e ip"
  proof
    assume "mget (al_addrs (pol_Allowlist pol)) (IP4 w) \<noteq> None"
    then have "v4_string w \<in> set (IPs (pol_Allowlist pol))"
      by (force simp: IPs_def dest: map_of_SomeD)
    then show ?thesis using ip_covers_v4 [OF assms(5,6)] by blast
  next
    assume "\<exists>p \<in> set (al_nets (pol_Allowlist pol)). prefix_contains p (IP4 w)"
    then obtain v n where p: "Prefix (IP4 v) n \<in> set (al_nets (pol_Allowlist pol))"
      "prefix_contains (Prefix (IP4 v) n) (IP4 w)"
      by (metis prefix_contains.simps(3) prefix.exhaust addr.exhaust)
    then have "n \<le> 32" using assms(1) by (force simp: allowlist_ok_def)
    moreover have "prefix_string (Prefix (IP4 v) n) \<in> set (IPs (pol_Allowlist pol))"
      using p(1) by (simp only: IPs_def set_append set_map) blast
    ultimately show ?thesis using ip_covers_v4_prefix [OF _ assms(5), of n v] p(2) assms(6) by auto
  qed
  then show ?thesis unfolding Check_iff using startup_guard_members(2) by blast
qed

definition sample_policy :: policy where
  "sample_policy = LoadFromEnv (\<lambda>k. if k = ''ALLOWLIST_IPS'' then ''192.168.1.0/29'' else [])"

theorem startup_guard_covers_allowlist_witness:
  "Check (Some (startup_guard (\<lambda>_. []) sample_policy)) ''aabbccddeeff'' ''::ffff:192.168.1.1'' \<noteq> None"
proof (rule startup_guard_covers_allowlist)
  show "allowlist_ok (pol_Allowlist sample_policy)"
    unfolding sample_policy_def pol_Allowlist_LoadFromEnv by (intro load_allowlist_ok allowlist_ok_ops)
  show "Contains (pol_Allowlist sample_policy) ''aabbccddeeff'' ''::ffff:192.168.1.1''" by code_simp
  show "NormalizeMAC ''aabbccddeeff'' = Some ''aa:bb:cc:dd:ee:ff''" by code_simp
  show "length ''aa:bb:cc:dd:ee:ff'' = 17" by simp
  show "parse_addr (trim_space ''::ffff:192.168.1.1'') = Some (IP6 0xffffc0a80101 [])" by code_simp
  show "canonicalAddr (IP6 0xffffc0a80101 []) = IP4 0xc0a80101" by code_simp
qed

end
