(* ===== verification/SwitchPort.thy ===== *)
theory SwitchPort
  imports Sinkhole Guard
begin

text \<open>
  \<open>internal/drivers/switchport.go\<close>: the managed-switch driver. The webhook behind it, HTTP and
  \<open>json.Marshal\<close> of the request are parameters (\<open>send\<close>, \<open>marshal\<close>); what the driver decides, refuses
  and signs is modelled.
\<close>

record switch_request =
  sr_ActionID :: string
  sr_Operation :: string
  sr_TargetMAC :: string
  sr_TargetIP :: string
  sr_QuarantineVLAN :: int

record switch_port =
  sp_webhookURL :: string
  sp_quarantineVLAN :: int
  sp_secret :: string
  sp_guard :: "target_guard option"

definition NewSwitchPortDriver :: "string \<Rightarrow> int \<Rightarrow> string \<Rightarrow> target_guard option \<Rightarrow> switch_port" where
  "NewSwitchPortDriver url vlan secret guard =
     \<lparr> sp_webhookURL = url, sp_quarantineVLAN = vlan, sp_secret = secret, sp_guard = guard \<rparr>"

definition switch_http :: "switch_port \<Rightarrow> string \<Rightarrow> http_request" where
  "switch_http d body =
     \<lparr> hr_method = ''POST'', hr_url = sp_webhookURL d,
       hr_headers = (''Content-Type'', ''application/json'')
         # (if sp_secret d \<noteq> [] then [(SignatureHeader, SignPayload (sp_secret d) (bytes_of body))] else []),
       hr_auth = None, hr_body = body \<rparr>"

definition switch_call :: "'w http \<Rightarrow> (switch_request \<Rightarrow> string) \<Rightarrow> switch_port \<Rightarrow> switch_request
    \<Rightarrow> 'w \<Rightarrow> string option \<times> 'w" where
  "switch_call send marshal d sr w =
     (let body = marshal sr; (r, w') = send (switch_http d body) w
      in case r of
           Transport e \<Rightarrow> (Some (''request: '' @ e), w')
         | Response code rbody \<Rightarrow>
             if code \<ge> 200 \<and> code < 300 then (None, w')
             else (Some (''webhook '' @ show_int code @ '': '' @ take 512 rbody), w'))"

definition switch_apply_request :: "switch_port \<Rightarrow> enforcement_action \<Rightarrow> switch_request" where
  "switch_apply_request d action =
     \<lparr> sr_ActionID = ea_ID action,
       sr_Operation = (if sp_quarantineVLAN d > 0 then ''quarantine_vlan'' else ''disable_port''),
       sr_TargetMAC = ea_TargetMAC action, sr_TargetIP = ea_TargetIP action,
       sr_QuarantineVLAN = sp_quarantineVLAN d \<rparr>"

definition switch_apply :: "'w http \<Rightarrow> (switch_request \<Rightarrow> string) \<Rightarrow> switch_port \<Rightarrow> enforcement_action
    \<Rightarrow> 'w \<Rightarrow> string option \<times> 'w" where
  "switch_apply send marshal d action w =
     (case Check (sp_guard d) (ea_TargetMAC action) (ea_TargetIP action) of
        Some e \<Rightarrow> (Some (guard_error_text e), w)
      | None \<Rightarrow>
          (case switch_call send marshal d (switch_apply_request d action) w of
             (Some e, w') \<Rightarrow> (Some (''switch apply: '' @ e), w')
           | (None, w') \<Rightarrow> (None, w')))"

definition switch_revert_request :: "enforcement_action \<Rightarrow> switch_request" where
  "switch_revert_request action =
     \<lparr> sr_ActionID = ea_ID action, sr_Operation = ''restore'', sr_TargetMAC = ea_TargetMAC action,
       sr_TargetIP = ea_TargetIP action, sr_QuarantineVLAN = 0 \<rparr>"

definition switch_revert :: "'w http \<Rightarrow> (switch_request \<Rightarrow> string) \<Rightarrow> switch_port \<Rightarrow> enforcement_action
    \<Rightarrow> 'w \<Rightarrow> string option \<times> 'w" where
  "switch_revert send marshal d action w =
     (case switch_call send marshal d (switch_revert_request action) w of
        (Some e, w') \<Rightarrow> (Some (''switch revert: '' @ e), w')
      | (None, w') \<Rightarrow> (None, w'))"

definition switch_driver :: "'w http \<Rightarrow> (switch_request \<Rightarrow> string) \<Rightarrow> switch_port \<Rightarrow> 'w driver" where
  "switch_driver send marshal d =
     \<lparr> drv_name = ''switch_acl'', drv_apply = switch_apply send marshal d, drv_revert = switch_revert send marshal d \<rparr>"

lemma switch_call_world: "snd (switch_call send marshal d sr w) = snd (send (switch_http d (marshal sr)) w)"
  by (auto simp: switch_call_def Let_def split: prod.splits http_result.splits)

text \<open>
  Further fact. The switch is only ever touched through one request, and never for a protected device:
  Apply reports an error and leaves the outside world alone when the guard refuses the target; otherwise
  it sends exactly one request naming the action's device, whose signature (when a secret is set) the
  receiver's \<open>VerifyPayload\<close> accepts for exactly the body sent.
\<close>

theorem switch_apply_guarded_and_signed:
  "snd (switch_apply send marshal d action w) =
     (if Check (sp_guard d) (ea_TargetMAC action) (ea_TargetIP action) = None
      then snd (send (switch_http d (marshal (switch_apply_request d action))) w) else w)
   \<and> (Check (sp_guard d) (ea_TargetMAC action) (ea_TargetIP action) = None
      \<or> fst (switch_apply send marshal d action w) \<noteq> None)
   \<and> (sp_secret d = [] \<or>
        (\<exists>sig. (SignatureHeader, sig) \<in> set (hr_headers (switch_http d body))
           \<and> VerifyPayload (sp_secret d) sig (bytes_of (hr_body (switch_http d body))) = None))"
proof -
  have "snd (case r of (Some e, w') \<Rightarrow> (Some (f e), w') | (None, w') \<Rightarrow> (None, w')) = snd r"
    for r :: "string option \<times> 'a" and f :: "string \<Rightarrow> string"
    by (cases r; cases "fst r") auto
  then have "snd (switch_apply send marshal d action w) =
     (if Check (sp_guard d) (ea_TargetMAC action) (ea_TargetIP action) = None
      then snd (send (switch_http d (marshal (switch_apply_request d action))) w) else w)"
    by (auto simp: switch_apply_def switch_call_world split: option.splits)
  moreover have "fst (switch_apply send marshal d action w) \<noteq> None"
    if "Check (sp_guard d) (ea_TargetMAC action) (ea_TargetIP action) \<noteq> None"
    using that by (auto simp: switch_apply_def)
  moreover have "sp_secret d = [] \<or> (\<exists>sig. (SignatureHeader, sig) \<in> set (hr_headers (switch_http d body))
           \<and> VerifyPayload (sp_secret d) sig (bytes_of (hr_body (switch_http d body))) = None)"
    by (auto simp: switch_http_def)
  ultimately show ?thesis by blast
qed

end
