(* ===== verification/ArpFrame.thy ===== *)
theory ArpFrame
  imports GoIP
begin

text \<open>
  The ARP frames of the program: what the isolation driver sends (\<open>sendARP\<close> of
  \<open>killswitch-controller/internal/drivers/arpisolate.go\<close>), byte for byte.
\<close>

definition ethPARP :: nat where [simp]: "ethPARP = 0x0806"
definition ethHdrLen :: nat where [simp]: "ethHdrLen = 14"
definition arpHdrLen :: nat where [simp]: "arpHdrLen = 28"
definition arpReply :: nat where [simp]: "arpReply = 2"

text \<open>\<open>binary.BigEndian.PutUint16\<close> and \<open>Uint16\<close>; \<open>copy(frame[lo:hi], src)\<close> into a buffer.\<close>

definition be16 :: "nat \<Rightarrow> byte list" where
  "be16 v = [of_nat (v div 256), of_nat v]"

definition from_be16 :: "byte list \<Rightarrow> nat \<Rightarrow> nat" where
  "from_be16 bs i = unat (bs ! i) * 256 + unat (bs ! (i + 1))"

definition copy_at :: "nat \<Rightarrow> nat \<Rightarrow> byte list \<Rightarrow> byte list \<Rightarrow> byte list" where
  "copy_at lo hi src frame = (let n = min (hi - lo) (length src) in take lo frame @ take n src @ drop (lo + n) frame)"

definition htons :: "16 word \<Rightarrow> 16 word" where
  "htons v = (drop_bit 8 v OR push_bit 8 v)"

lemma length_copy_at [simp]: "lo \<le> hi \<Longrightarrow> hi \<le> length f \<Longrightarrow> length (copy_at lo hi src f) = length f"
  by (auto simp: copy_at_def Let_def min_def)

lemma copy_at_full:
  "length src = hi - lo \<Longrightarrow> lo \<le> hi \<Longrightarrow> copy_at lo hi src f = take lo f @ src @ drop hi f"
  by (simp add: copy_at_def Let_def)

definition arp_frame :: "byte list \<Rightarrow> byte list \<Rightarrow> byte list \<Rightarrow> byte list \<Rightarrow> byte list \<Rightarrow> byte list" where
  "arp_frame ifaceMAC dstMAC sender4 senderMAC target4 =
     (let f = replicate (ethHdrLen + arpHdrLen) 0;
          f = copy_at 0 6 dstMAC f;
          f = copy_at 6 12 ifaceMAC f;
          f = copy_at 12 14 (be16 ethPARP) f;
          f = copy_at 14 16 (be16 1) f;
          f = copy_at 16 18 (be16 0x0800) f;
          f = f[18 := 6];
          f = f[19 := 4];
          f = copy_at 20 22 (be16 arpReply) f;
          f = copy_at 22 28 senderMAC f;
          f = copy_at 28 32 sender4 f;
          f = copy_at 32 38 dstMAC f
      in copy_at 38 42 target4 f)"

lemma arp_frame_layout:
  assumes "length ifaceMAC = 6" "length dstMAC = 6" "length sender4 = 4" "length senderMAC = 6" "length target4 = 4"
  shows "arp_frame ifaceMAC dstMAC sender4 senderMAC target4 =
    dstMAC @ ifaceMAC @ [8, 6, 0, 1, 8, 0, 6, 4, 0, 2] @ senderMAC @ sender4 @ dstMAC @ target4"
proof -
  have l6: "\<exists>a b c d e f. xs = [a, b, c, d, e, f]" if "length xs = 6" for xs :: "byte list"
    using that by (auto simp: length_Suc_conv numeral_eq_Suc)
  have l4: "\<exists>a b c d. xs = [a, b, c, d]" if "length xs = 4" for xs :: "byte list"
    using that by (auto simp: length_Suc_conv numeral_eq_Suc)
  obtain i1 i2 i3 i4 i5 i6 where i: "ifaceMAC = [i1, i2, i3, i4, i5, i6]" using l6 assms(1) by blast
  obtain d1 d2 d3 d4 d5 d6 where d: "dstMAC = [d1, d2, d3, d4, d5, d6]" using l6 assms(2) by blast
  obtain s1 s2 s3 s4 s5 s6 where s: "senderMAC = [s1, s2, s3, s4, s5, s6]" using l6 assms(4) by blast
  obtain p1 p2 p3 p4 where p: "sender4 = [p1, p2, p3, p4]" using l4 assms(3) by blast
  obtain t1 t2 t3 t4 where t: "target4 = [t1, t2, t3, t4]" using l4 assms(5) by blast
  have b: "be16 ethPARP = [8, 6]" "be16 1 = [0, 1]" "be16 0x0800 = [8, 0]" "be16 arpReply = [0, 2]"
    by (simp_all add: be16_def)
  have z: "replicate (ethHdrLen + arpHdrLen) 0 = ([0, 0, 0, 0, 0, 0, 0, 0, 0, 0, 0, 0, 0, 0, 0, 0, 0, 0, 0, 0, 0, 0, 0, 0, 0, 0, 0, 0, 0, 0, 0, 0, 0, 0, 0, 0, 0, 0, 0, 0, 0, 0] :: byte list)"
    by (simp add: numeral_eq_Suc)
  show ?thesis unfolding arp_frame_def Let_def i d s p t b z
    by (simp add: copy_at_full)
qed

end
