(* ===== verification/ArpIsolate.thy ===== *)
theory ArpIsolate
  imports ArpFrame Sinkhole Guard
begin

text \<open>
  \<open>internal/drivers/arpisolate.go\<close>: layer-2 isolation. The operating system is the parameter
  \<open>arp_os\<close> over a world \<open>'w\<close> (interfaces, the neighbour table, raw sockets). The driver keeps the set of
  running poison loops; a loop is represented by its entry in \<open>ad_active\<close>, and one tick of it is
  \<open>poison_tick\<close>. The target guard is shared with the other drivers, so it is threaded through.
\<close>

record 'w arp_os =
  os_interface :: "string \<Rightarrow> 'w \<Rightarrow> string + (byte list \<times> int)"
  os_arp_table :: "'w \<Rightarrow> string option"
  os_socket :: "'w \<Rightarrow> string option \<times> 'w"
  os_sendto :: "byte list \<Rightarrow> byte list \<Rightarrow> 'w \<Rightarrow> string option \<times> 'w"

record arp_driver =
  ad_ifaceMAC :: "byte list"
  ad_ifaceIndex :: int
  ad_gatewayIP :: "32 word"
  ad_gatewayMAC :: "byte list"
  ad_gatewayAt :: instant
  ad_active :: "(string, 32 word \<times> byte list) gomap"

definition gatewayMACTTL :: duration where
  [simp]: "gatewayMACTTL = 5 * 60 * 1000000000"

subsection \<open>The neighbour table\<close>

fun scan_arp :: "string \<Rightarrow> string list \<Rightarrow> string + byte list" where
  "scan_arp target [] = Inl (''no ARP entry for '' @ target @ '' (is the host reachable?)'')"
| "scan_arp target (line # lines) =
     (let fs = GoStrings.fields line in
      if length fs \<ge> 4 \<and> fs ! 0 = target then
        (case parse_mac (fs ! 3) of
           None \<Rightarrow> Inl (''neighbour entry for '' @ target @ '' has invalid MAC '' @ fs ! 3)
         | Some mac \<Rightarrow>
             if mac_string mac = ''00:00:00:00:00:00''
             then Inl (''neighbour entry for '' @ target @ '' is incomplete'')
             else Inr mac)
      else scan_arp target lines)"

definition resolveFromProcARP :: "'w arp_os \<Rightarrow> addr \<Rightarrow> 'w \<Rightarrow> string + byte list" where
  "resolveFromProcARP os ip w =
     (case os_arp_table os w of
        None \<Rightarrow> Inl ''read /proc/net/arp''
      | Some table \<Rightarrow> scan_arp (addr_string ip) (tl (split_on (CHR ''\<newline>'') table)))"

subsection \<open>Construction\<close>

definition NewARPIsolateDriver :: "'w arp_os \<Rightarrow> instant \<Rightarrow> string \<Rightarrow> addr option \<Rightarrow> target_guard option \<Rightarrow> 'w
    \<Rightarrow> (string + arp_driver) \<times> target_guard option \<times> 'w" where
  "NewARPIsolateDriver os now ifaceName gatewayIP guard w =
     (case gatewayIP of
        None \<Rightarrow> (Inl ''gateway IP is required'', guard, w)
      | Some gw \<Rightarrow>
          (case os_interface os ifaceName w of
             Inl e \<Rightarrow> (Inl (''interface '' @ ifaceName @ '': '' @ e), guard, w)
           | Inr (hw, idx) \<Rightarrow>
               if length hw \<noteq> 6 then (Inl (''interface '' @ ifaceName @ '' has no usable hardware address''), guard, w)
               else (case resolveFromProcARP os gw w of
                   Inl e \<Rightarrow> (Inl (''resolve gateway MAC for '' @ addr_string gw @ '': '' @ e), guard, w)
                 | Inr gwMAC \<Rightarrow>
                     (case os_socket os w of
                        (Some e, w1) \<Rightarrow> (Inl (''raw socket unavailable (CAP_NET_RAW?): '' @ e), guard, w1)
                      | (None, w1) \<Rightarrow>
                          (case gw of
                             IP6 v z \<Rightarrow> (Inl (''gateway IP '' @ addr_string gw @ '' is not IPv4; ARP isolation is IPv4-only''), guard, w1)
                           | IP4 v \<Rightarrow>
                               (let d = \<lparr> ad_ifaceMAC = hw, ad_ifaceIndex = idx, ad_gatewayIP = v, ad_gatewayMAC = gwMAC,
                                      ad_gatewayAt = now, ad_active = [] \<rparr>;
                                    guard' = map_option (\<lambda>g. ProtectName ''default gateway''
                                      (ProtectMAC (mac_string gwMAC) (ProtectIP (v4_string v) g))) guard
                                in (Inr d, guard', w1)))))))"

subsection \<open>Sending\<close>

definition sendARP :: "'w arp_os \<Rightarrow> arp_driver \<Rightarrow> byte list \<Rightarrow> 32 word \<Rightarrow> byte list \<Rightarrow> 32 word \<Rightarrow> 'w \<Rightarrow> string option \<times> 'w" where
  "sendARP os d dstMAC senderIP senderMAC targetIP w =
     (if length dstMAC \<noteq> 6 \<or> length senderMAC \<noteq> 6 then (Some ''ARP requires 6-byte hardware addresses'', w)
      else case os_sendto os (arp_frame (ad_ifaceMAC d) dstMAC (v4_bytes senderIP) senderMAC (v4_bytes targetIP)) dstMAC w of
          (Some e, w') \<Rightarrow> (Some (''sendto '' @ mac_string dstMAC @ '': '' @ e), w')
        | (None, w') \<Rightarrow> (None, w'))"

definition sendPoison :: "'w arp_os \<Rightarrow> arp_driver \<Rightarrow> 32 word \<Rightarrow> byte list \<Rightarrow> byte list \<Rightarrow> 'w \<Rightarrow> string option \<times> 'w" where
  "sendPoison os d targetIP targetMAC gatewayMAC w =
     (case sendARP os d targetMAC (ad_gatewayIP d) (ad_ifaceMAC d) targetIP w of
        (Some e, w1) \<Rightarrow> (Some (''poison target: '' @ e), w1)
      | (None, w1) \<Rightarrow>
          (case sendARP os d gatewayMAC targetIP (ad_ifaceMAC d) (ad_gatewayIP d) w1 of
             (Some e, w2) \<Rightarrow> (Some (''poison gateway: '' @ e), w2)
           | (None, w2) \<Rightarrow> (None, w2)))"

definition gatewayHardwareAddr :: "'w arp_os \<Rightarrow> instant \<Rightarrow> arp_driver \<Rightarrow> target_guard option \<Rightarrow> 'w
    \<Rightarrow> (string + byte list) \<times> arp_driver \<times> target_guard option" where
  "gatewayHardwareAddr os now d guard w =
     (if now - ad_gatewayAt d < gatewayMACTTL \<and> length (ad_gatewayMAC d) = 6 then (Inr (ad_gatewayMAC d), d, guard)
      else case resolveFromProcARP os (IP4 (ad_gatewayIP d)) w of
          Inl e \<Rightarrow> (if length (ad_gatewayMAC d) = 6 then (Inr (ad_gatewayMAC d), d, guard) else (Inl e, d, guard))
        | Inr mac \<Rightarrow>
            (let guard' = (if mac \<noteq> ad_gatewayMAC d then map_option (ProtectMAC (mac_string mac)) guard else guard)
             in (Inr mac, d \<lparr> ad_gatewayMAC := mac, ad_gatewayAt := now \<rparr>, guard')))"

definition parseTarget :: "enforcement_action \<Rightarrow> string + (32 word \<times> byte list)" where
  "parseTarget action =
     (case parse_ip (ea_TargetIP action) of
        Some (IP4 ip) \<Rightarrow>
          (case parse_mac (ea_TargetMAC action) of
             Some mac \<Rightarrow> if length mac = 6 then Inr (ip, mac) else Inl (''invalid target MAC: '' @ ea_TargetMAC action)
           | None \<Rightarrow> Inl (''invalid target MAC: '' @ ea_TargetMAC action))
      | _ \<Rightarrow> Inl (''invalid IPv4 target IP: '' @ ea_TargetIP action))"

subsection \<open>Apply, Revert and the poison loop\<close>

type_synonym 'w arp_state = "arp_driver \<times> target_guard option \<times> 'w"

definition arp_apply :: "'w arp_os \<Rightarrow> instant \<Rightarrow> enforcement_action \<Rightarrow> 'w arp_state \<Rightarrow> string option \<times> 'w arp_state" where
  "arp_apply os now action = (\<lambda>(d, guard, w).
     case parseTarget action of
       Inl e \<Rightarrow> (Some e, d, guard, w)
     | Inr (targetIP, targetMAC) \<Rightarrow>
         (case Check guard (ea_TargetMAC action) (ea_TargetIP action) of
            Some e \<Rightarrow> (Some (guard_error_text e), d, guard, w)
          | None \<Rightarrow>
              if targetIP = ad_gatewayIP d then
                (Some (''refusing to isolate the default gateway '' @ v4_string targetIP), d, guard, w)
              else if targetMAC = ad_gatewayMAC d then
                (Some (''refusing to isolate the default gateway MAC '' @ mac_string targetMAC), d, guard, w)
              else if targetMAC = ad_ifaceMAC d then
                (Some (''refusing to isolate the own interface of the sensor '' @ mac_string targetMAC), d, guard, w)
              else case gatewayHardwareAddr os now d guard w of
                  (Inl e, d1, g1) \<Rightarrow> (Some (''gateway MAC unavailable: '' @ e), d1, g1, w)
                | (Inr gwMAC, d1, g1) \<Rightarrow>
                    (case os_socket os w of
                       (Some e, w1) \<Rightarrow> (Some (''raw socket: '' @ e), d1, g1, w1)
                     | (None, w1) \<Rightarrow>
                         (case sendPoison os d1 targetIP targetMAC gwMAC w1 of
                            (Some e, w2) \<Rightarrow> (Some (''initial poison failed: '' @ e), d1, g1, w2)
                          | (None, w2) \<Rightarrow>
                              (None, d1 \<lparr> ad_active := mput (ea_ID action) (targetIP, targetMAC) (ad_active d1) \<rparr>, g1, w2)))))"

text \<open>
  The three rounds of corrective ARP: round \<open>i\<close> of \<open>3\<close>, the last error so far, and whether the caller's
  context is done after a round. \<open>None\<close> as the outer result is the early return with a nil error.
\<close>

fun restore_rounds :: "'w arp_os \<Rightarrow> arp_driver \<Rightarrow> (nat \<Rightarrow> bool) \<Rightarrow> 32 word \<Rightarrow> byte list \<Rightarrow> byte list \<Rightarrow> nat \<Rightarrow> nat
    \<Rightarrow> string option \<Rightarrow> 'w \<Rightarrow> string option option \<times> 'w" where
  "restore_rounds os d done targetIP targetMAC gwMAC 0 i lastErr w = (Some lastErr, w)"
| "restore_rounds os d done targetIP targetMAC gwMAC (Suc n) i lastErr w =
     (let (e1, w1) = sendARP os d targetMAC (ad_gatewayIP d) gwMAC targetIP w;
          err1 = (if e1 \<noteq> None then e1 else lastErr);
          (e2, w2) = sendARP os d gwMAC targetIP targetMAC (ad_gatewayIP d) w1;
          err2 = (if e2 \<noteq> None then e2 else err1)
      in if n = 0 then (Some err2, w2)
         else if done i then (None, w2)
         else restore_rounds os d done targetIP targetMAC gwMAC n (Suc i) err2 w2)"

definition arp_revert :: "'w arp_os \<Rightarrow> instant \<Rightarrow> (nat \<Rightarrow> bool) \<Rightarrow> enforcement_action \<Rightarrow> 'w arp_state
    \<Rightarrow> string option \<times> 'w arp_state" where
  "arp_revert os now done action = (\<lambda>(d0, guard, w).
     let d = d0 \<lparr> ad_active := mdel (ea_ID action) (ad_active d0) \<rparr> in
     case parseTarget action of
       Inl e \<Rightarrow> (None, d, guard, w)
     | Inr (targetIP, targetMAC) \<Rightarrow>
         (case gatewayHardwareAddr os now d guard w of
            (Inl e, d1, g1) \<Rightarrow> (Some (''gateway MAC unavailable for restore: '' @ e), d1, g1, w)
          | (Inr gwMAC, d1, g1) \<Rightarrow>
              (case os_socket os w of
                 (Some e, w1) \<Rightarrow> (Some (''raw socket for restore: '' @ e), d1, g1, w1)
               | (None, w1) \<Rightarrow>
                   (case restore_rounds os d1 done targetIP targetMAC gwMAC 3 0 None w1 of
                      (None, w2) \<Rightarrow> (None, d1, g1, w2)
                    | (Some None, w2) \<Rightarrow> (None, d1, g1, w2)
                    | (Some (Some e), w2) \<Rightarrow> (Some (''restore ARP send failed: '' @ e), d1, g1, w2)))))"

text \<open>One tick of the loop of an active action, with its count of consecutive failures.\<close>

definition poison_tick :: "'w arp_os \<Rightarrow> instant \<Rightarrow> 32 word \<times> byte list \<Rightarrow> nat \<Rightarrow> 'w arp_state \<Rightarrow> nat \<times> 'w arp_state" where
  "poison_tick os now target failures = (\<lambda>(d, guard, w).
     case gatewayHardwareAddr os now d guard w of
       (Inl e, d1, g1) \<Rightarrow> (failures, d1, g1, w)
     | (Inr gwMAC, d1, g1) \<Rightarrow>
         (case sendPoison os d1 (fst target) (snd target) gwMAC w of
            (Some e, w1) \<Rightarrow> (Suc failures, d1, g1, w1)
          | (None, w1) \<Rightarrow> (0, d1, g1, w1)))"

subsection \<open>What the driver refuses\<close>

definition arp_refuses :: "enforcement_action \<Rightarrow> arp_driver \<Rightarrow> target_guard option \<Rightarrow> bool" where
  "arp_refuses action d guard =
     (case parseTarget action of Inl _ \<Rightarrow> True
      | Inr (ip, mac) \<Rightarrow> Check guard (ea_TargetMAC action) (ea_TargetIP action) \<noteq> None
          \<or> ip = ad_gatewayIP d \<or> mac = ad_gatewayMAC d \<or> mac = ad_ifaceMAC d)"

text \<open>
  Further fact. Layer-2 isolation never touches protected infrastructure: for a target that is not an
  IPv4 device, is protected by the guard, is the default gateway (by address or MAC) or is the sensor
  itself, Apply reports an error and changes nothing: no socket is opened, no frame is sent, no
  poison loop is started.
\<close>

theorem arp_apply_refuses:
  assumes "arp_refuses action d guard"
  shows "fst (arp_apply os now action (d, guard, w)) \<noteq> None
    \<and> snd (arp_apply os now action (d, guard, w)) = (d, guard, w)"
  using assms
  by (auto simp: arp_refuses_def arp_apply_def split: sum.splits prod.splits option.splits)

definition sample_arp_driver :: arp_driver where
  "sample_arp_driver = \<lparr> ad_ifaceMAC = [2, 0, 0, 0, 0, 1], ad_ifaceIndex = 2, ad_gatewayIP = 0xc0a80101,
     ad_gatewayMAC = [2, 0, 0, 0, 0, 254], ad_gatewayAt = 0, ad_active = [] \<rparr>"

text \<open>A network whose socket always works and which records the frames sent.\<close>

definition sample_os :: "byte list list arp_os" where
  "sample_os = \<lparr> os_interface = (\<lambda>_ _. Inr ([2, 0, 0, 0, 0, 1], 2)),
     os_arp_table = (\<lambda>_. Some (''IP address HW type Flags HW address Mask Device\<newline>'' @
        ''192.168.1.1 0x1 0x2 02:00:00:00:00:99 * eth0\<newline>'')),
     os_socket = (\<lambda>w. (None, w)), os_sendto = (\<lambda>frame dst w. (None, w @ [frame])) \<rparr>"

definition arp_target :: "string \<Rightarrow> string \<Rightarrow> enforcement_action" where
  "arp_target ip mac = (sample_action ''ACT-7'' []) \<lparr> ea_TargetIP := ip, ea_TargetMAC := mac \<rparr>"

theorem arp_apply_refuses_witness:
  "fst (arp_apply sample_os 0 (arp_target ''::ffff:192.168.1.1'' ''02:00:00:00:00:42'') (sample_arp_driver, None, [])) \<noteq> None"
proof -
  have "arp_refuses (arp_target ''::ffff:192.168.1.1'' ''02:00:00:00:00:42'') sample_arp_driver None" by code_simp
  from arp_apply_refuses [OF this, of sample_os 0 "[]"] show ?thesis by blast
qed

text \<open>
  Further fact. A gap after a router swap. The gateway-MAC refusal compares with the cached address, and
  only then is a cached address older than five minutes re-resolved: an action naming the new
  router's MAC (under an address other than the gateway's) passes every check, and Apply reports success
  and starts to poison the machine it has just learned to be the gateway.
\<close>

theorem arp_apply_hits_new_gateway:
  "let action = arp_target ''192.168.1.254'' ''02:00:00:00:00:99'';
       (err, d, g, w) = arp_apply sample_os 600000000000 action (sample_arp_driver, Some empty_guard, [])
   in err = None \<and> ad_gatewayMAC d = [2, 0, 0, 0, 0, 0x99]
      \<and> mget (ad_active d) ''ACT-7'' = Some (0xc0a801fe, ad_gatewayMAC d) \<and> length w = 2
      \<and> Check g ''02:00:00:00:00:99'' [] \<noteq> None"
  by code_simp

subsection \<open>The gateway stays protected\<close>

definition gateway_guarded :: "arp_driver \<Rightarrow> target_guard option \<Rightarrow> bool" where
  "gateway_guarded d guard =
     (case guard of None \<Rightarrow> False
      | Some g \<Rightarrow> guards_ip g (v4_string (ad_gatewayIP d))
          \<and> (length (ad_gatewayMAC d) = 6 \<longrightarrow> guards_mac g (mac_string (ad_gatewayMAC d))))"

lemma key_covers_mac: "length mac = 6 \<Longrightarrow> key_covers (mac_string mac) (mac_string mac)"
proof -
  assume l: "length mac = 6"
  have "NormalizeMAC (mac_string mac) = Some (mac_string mac)" by (rule NormalizeMAC_mac_string) (simp add: l)
  moreover have "length (mac_string mac) = 17" using l by (simp add: length_mac_string_6)
  ultimately have "normalizeMACKey (mac_string mac) = hex_encode mac"
    by (simp add: guard_key_of_canonical mac_hex_mac_string)
  moreover have "hex_encode mac \<noteq> []" using length_hex_encode [of mac] l by (metis list.size(3) mult_eq_0_iff zero_neq_numeral)
  ultimately show "key_covers (mac_string mac) (mac_string mac)" by (simp add: key_covers_def)
qed

lemma ip_covers_self: "ip_covers (v4_string v) (v4_string v)"
  using ip_covers_v4 [of "v4_string v" "IP4 v" v] by (simp add: parse_addr_v4_string canonicalAddr_def)

lemma gateway_guarded_active [simp]:
  "gateway_guarded (d \<lparr> ad_active := x \<rparr>) g = gateway_guarded d g"
  by (simp add: gateway_guarded_def split: option.split)

lemma gatewayHardwareAddr_guarded:
  assumes "gateway_guarded d guard" "gatewayHardwareAddr os now d guard w = (r, d', guard')"
  shows "gateway_guarded d' guard' \<and> ad_active d' = ad_active d"
  using assms key_covers_mac
  by (auto simp: gatewayHardwareAddr_def gateway_guarded_def Let_def tg.mac_in_add_mac tg.ip_in_add_mac
      split: if_splits sum.splits option.splits)

lemma ProtectName_guards [simp]: "guards_mac (ProtectName n g) m = guards_mac g m" "guards_ip (ProtectName n g) i = guards_ip g i"
  by (simp_all add: ProtectName_def guards_mac_def guards_ip_def split: option.split)

datatype arp_op = ArpApply instant enforcement_action | ArpRevert instant "nat \<Rightarrow> bool" enforcement_action
  | ArpTick instant string nat

fun arp_run :: "'w arp_os \<Rightarrow> arp_op \<Rightarrow> 'w arp_state \<Rightarrow> 'w arp_state" where
  "arp_run os (ArpApply now a) st = snd (arp_apply os now a st)"
| "arp_run os (ArpRevert now done a) st = snd (arp_revert os now done a st)"
| "arp_run os (ArpTick now i n) st =
     (case mget (ad_active (fst st)) i of None \<Rightarrow> st | Some t \<Rightarrow> snd (poison_tick os now t n st))"

definition arp_guarded :: "'w arp_state \<Rightarrow> bool" where
  "arp_guarded st = gateway_guarded (fst st) (fst (snd st))"

lemma arp_run_guarded: "arp_guarded st \<Longrightarrow> arp_guarded (arp_run os op st)"
  by (cases op; cases st)
    (auto simp: arp_guarded_def arp_apply_def arp_revert_def poison_tick_def Let_def
      dest!: gatewayHardwareAddr_guarded [rotated] split: sum.splits prod.splits option.splits)

interpretation arpm: machine "arp_run os" arp_guarded
  by unfold_locales (rule arp_run_guarded)

text \<open>
  Property C26. The default gateway is never a target. Once the driver is constructed with a guard, and
  whatever Applies, Reverts and poison ticks follow (with the gateway MAC re-resolved as it changes),
  the shared guard refuses the gateway's IPv4 address and its current 48-bit MAC, for every driver.
\<close>

theorem gateway_always_refused:
  assumes "NewARPIsolateDriver os now iface gw (Some g) w = (Inr d, g0, w0)"
    and "fold (arp_run os) ops (d, g0, w0) = (d', g', w')" and "length (ad_gatewayMAC d') = 6"
  shows "Check g' mac (v4_string (ad_gatewayIP d')) \<noteq> None \<and> Check g' (mac_string (ad_gatewayMAC d')) ip \<noteq> None"
proof -
  have "gateway_guarded d g0"
    using assms(1) ip_covers_self key_covers_mac
    by (auto simp: NewARPIsolateDriver_def gateway_guarded_def Let_def tg.mac_in_add_mac tg.ip_in_add_mac
        tg.ip_in_add_ip tg.mac_in_add_ip split: option.splits sum.splits prod.splits if_splits addr.splits)
  then have "gateway_guarded d' g'"
    using arpm.runs_ok [of "(d, g0, w0)" os ops] assms(2) by (simp add: arp_guarded_def)
  then obtain g1 where "g' = Some g1" "guards_ip g1 (v4_string (ad_gatewayIP d'))"
    "guards_mac g1 (mac_string (ad_gatewayMAC d'))"
    using assms(3) by (auto simp: gateway_guarded_def split: option.splits)
  then show ?thesis
    using Check_iff [of g1 mac "v4_string (ad_gatewayIP d')"] Check_iff [of g1 "mac_string (ad_gatewayMAC d')" ip]
    by blast
qed

definition sample_boot :: "(string + arp_driver) \<times> target_guard option \<times> byte list list" where
  "sample_boot = NewARPIsolateDriver sample_os 0 ''eth0'' (parse_ip ''192.168.1.1'') (Some empty_guard) []"

definition sample_run :: "byte list list arp_state" where
  "sample_run = fold (arp_run sample_os)
     [ArpApply 1 (arp_target ''192.168.1.50'' ''02:00:00:00:00:50''), ArpTick 600000000000 ''ACT-7'' 0]
     (projr (fst sample_boot), snd sample_boot)"

theorem gateway_always_refused_witness:
  "Check (fst (snd sample_run)) [] (v4_string (ad_gatewayIP (fst sample_run))) \<noteq> None
   \<and> length (snd (snd sample_run)) = 4"
proof -
  have "\<not> isl (fst sample_boot)" by code_simp
  then obtain d g0 w0 where b: "sample_boot = (Inr d, g0, w0)" by (cases sample_boot) (metis fst_conv isl_def sum.collapse(2))
  obtain d' g' w' where r: "sample_run = (d', g', w')" by (cases sample_run)
  have 1: "NewARPIsolateDriver sample_os 0 ''eth0'' (parse_ip ''192.168.1.1'') (Some empty_guard) [] = (Inr d, g0, w0)"
    using b by (simp add: sample_boot_def)
  have 2: "fold (arp_run sample_os)
     [ArpApply 1 (arp_target ''192.168.1.50'' ''02:00:00:00:00:50''), ArpTick 600000000000 ''ACT-7'' 0] (d, g0, w0) = (d', g', w')"
    using r by (simp only: sample_run_def b) simp
  have "length (ad_gatewayMAC (fst sample_run)) = 6" by code_simp
  then have 3: "length (ad_gatewayMAC d') = 6" by (simp add: r)
  have "length (snd (snd sample_run)) = 4" by code_simp
  then show ?thesis using gateway_always_refused [OF 1 2 3, of "[]"] by (simp add: r)
qed

text \<open>
  Further fact. Revert always stops the poisoning of its action, whatever it reports: afterwards the
  action has no running loop, and no other action's loop has been touched.
\<close>

theorem arp_revert_stops_poisoning:
  "ad_active (fst (snd (arp_revert os now done action (d, guard, w)))) = mdel (ea_ID action) (ad_active d)"
proof -
  have g: "ad_active d1 = ad_active d0" if "gatewayHardwareAddr os now d0 g w = (r, d1, g1)" for d0 g r d1 g1
    using that by (auto simp: gatewayHardwareAddr_def Let_def split: if_splits sum.splits)
  show ?thesis
    by (auto simp: arp_revert_def Let_def dest!: g split: sum.splits prod.splits option.splits)
qed

end
