(* ===== verification/Controller.thy ===== *)
theory Controller
  imports ActionStore SwitchPort ArpIsolate
begin

text \<open>
  \<open>cmd/killswitch-controller/main.go\<close>: start-up decisions, authentication, the HTTP handlers, driver
  resolution and the TTL loop. A handler is one atomic step of the controller; the drivers act on
  a world \<open>'w\<close>. JSON decoding of request bodies is a parameter, as is the driver map, whose entries
  are the drivers of the theories before. Gauges and log lines are not modelled, the two failure
  counters are.
\<close>

record 'w ctl =
  ks_store :: store
  ks_world :: 'w
  ks_rejected :: "string list"
  ks_driverFailures :: "string list"

type_synonym 'w resolver = "string \<Rightarrow> string + 'w driver"

subsection \<open>Start-up\<close>

definition envInt :: "environment \<Rightarrow> string \<Rightarrow> int \<Rightarrow> int" where
  "envInt env key fallback =
     (let v = env key in
      if v \<noteq> [] then (case atoi v of Some n \<Rightarrow> if n > 0 then n else fallback | None \<Rightarrow> fallback) else fallback)"

definition allowEmptyAllowlist :: "environment \<Rightarrow> bool" where
  "allowEmptyAllowlist env = (to_lower (env ''POLICY_ALLOW_EMPTY_ALLOWLIST'') \<in> {''1'', ''true'', ''yes''})"

definition startup_autoBlockAllowed :: "environment \<Rightarrow> policy \<Rightarrow> bool" where
  "startup_autoBlockAllowed env pol =
     (if Len (pol_Allowlist pol) = 0 then allowEmptyAllowlist env else True)"

definition instanceIDPrefix :: "string option \<Rightarrow> instant \<Rightarrow> string" where
  "instanceIDPrefix host now =
     (case host of
        Some h \<Rightarrow> if h \<noteq> [] then ''ACT-'' @ h @ ''-'' @ show_int (now div 1000000000)
                  else ''ACT-'' @ show_int (now div 1000000000)
      | None \<Rightarrow> ''ACT-'' @ show_int (now div 1000000000))"

definition startup_store :: "environment \<Rightarrow> string option \<Rightarrow> instant \<Rightarrow> audit_writer option \<Rightarrow> store" where
  "startup_store env host now audit =
     NewStore audit \<lparr> so_MaxActions = envInt env ''KILLSWITCH_MAX_ACTIONS'' 10000,
       so_IDPrefix = envOr env ''KILLSWITCH_ID_PREFIX'' (instanceIDPrefix host now) \<rparr>"

text \<open>The VLAN of the switch driver; -1 is a value that was refused.\<close>

definition startup_vlan :: "environment \<Rightarrow> int" where
  "startup_vlan env =
     (let v = env ''SWITCH_QUARANTINE_VLAN'' in
      if v \<noteq> [] then (case atoi v of None \<Rightarrow> -1 | Some n \<Rightarrow> if n < 0 \<or> n > 4094 then -1 else n) else 0)"

text \<open>
  The driver map: the sinkhole always, ARP isolation when a gateway is configured and its driver could
  be constructed (\<open>arp\<close>), the switch when a webhook is configured with an acceptable VLAN.
\<close>

definition startup_drivers :: "environment \<Rightarrow> 'w driver \<Rightarrow> (string + 'w driver) \<Rightarrow> (switch_port \<Rightarrow> 'w driver)
    \<Rightarrow> target_guard \<Rightarrow> (string, 'w driver) gomap" where
  "startup_drivers env sinkhole arp switch guard =
     (let m = mput ActionDNSSinkhole sinkhole [];
          m = (if env ''ARP_GATEWAY_IP'' \<noteq> [] then (case arp of Inl e \<Rightarrow> m | Inr d \<Rightarrow> mput ActionARPIsolate d m) else m)
      in if env ''SWITCH_WEBHOOK_URL'' \<noteq> [] \<and> startup_vlan env \<ge> 0
         then mput ActionSwitchACL (switch (NewSwitchPortDriver (env ''SWITCH_WEBHOOK_URL'') (startup_vlan env)
                (env ''SWITCH_WEBHOOK_SECRET'') (Some guard))) m
         else m)"

definition resolve_in :: "(string, 'w driver) gomap \<Rightarrow> 'w resolver" where
  "resolve_in m actionType =
     (case mget m actionType of
        Some d \<Rightarrow> Inr d
      | None \<Rightarrow> Inl (''no driver configured for action type '' @ [CHR 0x22] @ actionType @ [CHR 0x22]))"

definition arp_isolate_driver :: "'w arp_os \<Rightarrow> ('w \<Rightarrow> instant) \<Rightarrow> ('w \<Rightarrow> nat \<Rightarrow> bool) \<Rightarrow> 'w arp_state driver" where
  "arp_isolate_driver os clock done =
     \<lparr> drv_name = ''arp_isolate'',
       drv_apply = (\<lambda>a st. arp_apply os (clock (snd (snd st))) a st),
       drv_revert = (\<lambda>a st. arp_revert os (clock (snd (snd st))) (done (snd (snd st))) a st) \<rparr>"

subsection \<open>Responses\<close>

datatype payload =
    PError string
  | PStatusOK
  | PAction "enforcement_action option"
  | PDecision decision "enforcement_action option"
  | PActions "enforcement_action list"
  | PAllowlist "string list" "string list"
  | PPolicy policy bool nat

type_synonym response = "int \<times> payload"

subsection \<open>Handlers\<close>

definition count_failure :: "string \<Rightarrow> 'w ctl \<Rightarrow> 'w ctl" where
  "count_failure op s = s \<lparr> ks_driverFailures := ks_driverFailures s @ [op] \<rparr>"

definition applyAction :: "instant \<Rightarrow> 'w resolver \<Rightarrow> enforcement_action \<Rightarrow> 'w ctl \<Rightarrow> 'w ctl" where
  "applyAction now resolve action s =
     (case resolve (ea_ActionType action) of
        Inl err \<Rightarrow>
          (let s = count_failure ''apply'' s
           in s \<lparr> ks_store := RecordFailure now (ea_ID action) (''no driver: '' @ err) (ks_store s) \<rparr>)
      | Inr drv \<Rightarrow>
          (case drv_apply drv action (ks_world s) of
             (Some err, w) \<Rightarrow>
               (let s = count_failure ''apply'' (s \<lparr> ks_world := w \<rparr>)
                in s \<lparr> ks_store := RecordFailure now (ea_ID action) err (ks_store s) \<rparr>)
           | (None, w) \<Rightarrow>
               s \<lparr> ks_world := w, ks_store := snd (Activate now (ea_ID action) (ks_store s)) \<rparr>))"

definition create_for :: "instant \<Rightarrow> detection_event \<Rightarrow> decision \<Rightarrow> bool \<Rightarrow> 'w ctl \<Rightarrow> enforcement_action \<times> 'w ctl" where
  "create_for now ev d auto s =
     (let (a, st) = Create now (de_ID ev) (de_ClientMAC ev) (de_ClientIP ev) (dc_ActionType d) (dc_Reason d)
            (dc_TTLSeconds d) auto (de_Domain ev) (ks_store s)
      in (a, s \<lparr> ks_store := st \<rparr>))"

definition handleEvaluate :: "instant \<Rightarrow> policy \<Rightarrow> 'w resolver \<Rightarrow> bool \<Rightarrow> detection_event option \<Rightarrow> 'w ctl
    \<Rightarrow> response \<times> 'w ctl" where
  "handleEvaluate now pol resolve autoBlockAllowed body s =
     (case body of
        None \<Rightarrow> ((400, PError ''invalid body''), s)
      | Some ev \<Rightarrow>
          (let d0 = Evaluate pol ev;
               d = (if dc_Action d0 = ''auto_block'' \<and> \<not> autoBlockAllowed
                    then d0 \<lparr> dc_Action := ''pending'',
                           dc_Reason := ''pending (auto-block disabled: allowlist is empty): '' @ dc_Reason d0 \<rparr>
                    else d0);
               (act, s') =
                 (if dc_Action d = ''auto_block'' then
                    (let (a, s1) = create_for now ev d True s in (Some a, applyAction now resolve a s1))
                  else if dc_Action d = ''pending'' then
                    (let (a, s1) = create_for now ev d False s in (Some a, s1))
                  else (None, s))
           in ((200, PDecision d (Get (case act of None \<Rightarrow> [] | Some a \<Rightarrow> ea_ID a) (ks_store s'))), s')))"

definition or_default :: "string \<Rightarrow> string \<Rightarrow> string" where
  "or_default v d = (if v = [] then d else v)"

definition handleApprove :: "instant \<Rightarrow> 'w resolver \<Rightarrow> string \<Rightarrow> string \<Rightarrow> 'w ctl \<Rightarrow> response \<times> 'w ctl" where
  "handleApprove now resolve approvedBy i s =
     (case Approve now i (or_default approvedBy ''operator'') (ks_store s) of
        (Some err, st) \<Rightarrow> ((409, PError (store_error_text err)), s \<lparr> ks_store := st \<rparr>)
      | (None, st) \<Rightarrow>
          (let s1 = s \<lparr> ks_store := st \<rparr>;
               s2 = (case Get i st of
                       None \<Rightarrow> s1
                     | Some a \<Rightarrow> if ea_State a = StateApproved then applyAction now resolve a s1 else s1)
           in ((200, PAction (Get i (ks_store s2))), s2)))"

definition handleReject :: "instant \<Rightarrow> string \<Rightarrow> string \<Rightarrow> 'w ctl \<Rightarrow> response \<times> 'w ctl" where
  "handleReject now reason i s =
     (case Reject now i (or_default reason ''rejected by operator'') (ks_store s) of
        (Some err, st) \<Rightarrow> ((409, PError (store_error_text err)), s \<lparr> ks_store := st \<rparr>)
      | (None, st) \<Rightarrow> ((200, PAction (Get i st)), s \<lparr> ks_store := st \<rparr>))"

definition finish_revert :: "instant \<Rightarrow> string \<Rightarrow> string \<Rightarrow> 'w ctl \<Rightarrow> response \<times> 'w ctl" where
  "finish_revert now reason i s =
     (case Revert now i reason (ks_store s) of
        (Some err, st) \<Rightarrow> ((409, PError (store_error_text err)), s \<lparr> ks_store := st \<rparr>)
      | (None, st) \<Rightarrow> ((200, PAction (Get i st)), s \<lparr> ks_store := st \<rparr>))"

definition handleRevert :: "instant \<Rightarrow> 'w resolver \<Rightarrow> string \<Rightarrow> string \<Rightarrow> 'w ctl \<Rightarrow> response \<times> 'w ctl" where
  "handleRevert now resolve reason0 i s =
     (let reason = or_default reason0 ''manual revert'' in
      case Get i (ks_store s) of
        None \<Rightarrow> ((404, PError ''not found''), s)
      | Some action \<Rightarrow>
          if ea_State action = StateActive then
            (case resolve (ea_ActionType action) of
               Inl err \<Rightarrow> ((503, PError ''no driver for action type; enforcement may still be active''), count_failure ''revert'' s)
             | Inr drv \<Rightarrow>
                 (case drv_revert drv action (ks_world s) of
                    (Some err, w) \<Rightarrow>
                      (let s1 = count_failure ''revert'' (s \<lparr> ks_world := w \<rparr>)
                       in ((502, PError (''revert failed, enforcement still active: '' @ err)),
                           s1 \<lparr> ks_store := RecordFailure now i (''revert failed: '' @ err) (ks_store s1) \<rparr>))
                  | (None, w) \<Rightarrow> finish_revert now reason i (s \<lparr> ks_world := w \<rparr>)))
          else finish_revert now reason i s)"

definition revertOne :: "instant \<Rightarrow> 'w resolver \<Rightarrow> string \<Rightarrow> enforcement_action \<Rightarrow> 'w ctl \<Rightarrow> 'w ctl" where
  "revertOne now resolve reason a s =
     (case resolve (ea_ActionType a) of
        Inl err \<Rightarrow> count_failure ''revert'' s
      | Inr drv \<Rightarrow>
          (case drv_revert drv a (ks_world s) of
             (Some err, w) \<Rightarrow> count_failure ''revert'' (s \<lparr> ks_world := w \<rparr>)
           | (None, w) \<Rightarrow> s \<lparr> ks_world := w, ks_store := snd (Revert now (ea_ID a) reason (ks_store s)) \<rparr>))"

text \<open>One tick of \<open>runSafeTTLRevert\<close>.\<close>

definition ttl_tick :: "instant \<Rightarrow> 'w resolver \<Rightarrow> 'w ctl \<Rightarrow> 'w ctl" where
  "ttl_tick now resolve s = fold (revertOne now resolve ''TTL expired'') (ListExpired now (ks_store s)) s"

subsection \<open>Routing and authentication\<close>

record request =
  rq_method :: string
  rq_path :: string
  rq_authorization :: string
  rq_signature :: string
  rq_body :: "byte list"

record json_dec =
  jd_event :: "byte list \<Rightarrow> detection_event option"
  jd_approved_by :: "byte list \<Rightarrow> string"
  jd_reason :: "byte list \<Rightarrow> string"

record config =
  cf_policy :: policy
  cf_autoBlockAllowed :: bool
  cf_apiKey :: string
  cf_webhookSecret :: string

definition maxBodyBytes :: nat where
  "maxBodyBytes = 2 ^ 20"

text \<open>The patterns of the \<open>ServeMux\<close>; a GET pattern also serves HEAD.\<close>

definition mux :: "instant \<Rightarrow> config \<Rightarrow> json_dec \<Rightarrow> 'w resolver \<Rightarrow> request \<Rightarrow> 'w ctl \<Rightarrow> response \<times> 'w ctl" where
  "mux now cf jd resolve r s =
     (let p = split_on (CHR ''/'') (rq_path r);
          get = (rq_method r = ''GET'' \<or> rq_method r = ''HEAD'');
          post = (rq_method r = ''POST'')
      in if get \<and> p = [[], ''healthz''] then ((200, PStatusOK), s)
         else if get \<and> p = [[], ''metrics''] then ((200, PStatusOK), s)
         else if get \<and> p = [[], ''policy''] then
           ((200, PPolicy (cf_policy cf) (cf_autoBlockAllowed cf) (Len (pol_Allowlist (cf_policy cf)))), s)
         else if post \<and> p = [[], ''evaluate''] then
           handleEvaluate now (cf_policy cf) resolve (cf_autoBlockAllowed cf) (jd_event jd (rq_body r)) s
         else if get \<and> p = [[], ''allowlist''] then
           ((200, PAllowlist (MACs (pol_Allowlist (cf_policy cf))) (IPs (pol_Allowlist (cf_policy cf)))), s)
         else if get \<and> p = [[], ''actions'', ''pending''] then
           ((200, PActions (ListByState StatePending (ks_store s))), s)
         else if get \<and> p = [[], ''actions'', ''active''] then
           ((200, PActions (ListByState StateActive (ks_store s))), s)
         else case p of
             [a, b, i] \<Rightarrow>
               if get \<and> a = [] \<and> b = ''actions'' \<and> i \<noteq> [] then
                 (case Get i (ks_store s) of
                    None \<Rightarrow> ((404, PError ''not found''), s)
                  | Some act \<Rightarrow> ((200, PAction (Some act)), s))
               else ((404, PError ''not found''), s)
           | [a, b, i, c] \<Rightarrow>
               if post \<and> a = [] \<and> b = ''actions'' \<and> i \<noteq> [] then
                 (if c = ''approve'' then handleApprove now resolve (jd_approved_by jd (rq_body r)) i s
                  else if c = ''reject'' then handleReject now (jd_reason jd (rq_body r)) i s
                  else if c = ''revert'' then handleRevert now resolve (jd_reason jd (rq_body r)) i s
                  else ((404, PError ''not found''), s))
               else ((404, PError ''not found''), s)
           | _ \<Rightarrow> ((404, PError ''not found''), s))"

definition validBearer :: "string \<Rightarrow> string \<Rightarrow> bool" where
  "validBearer hdr apiKey =
     (if \<not> has_prefix hdr ''Bearer '' then False else drop (length ''Bearer '') hdr = apiKey)"

definition reject_request :: "string \<Rightarrow> response \<Rightarrow> 'w ctl \<Rightarrow> response \<times> 'w ctl" where
  "reject_request why resp s = (resp, s \<lparr> ks_rejected := ks_rejected s @ [why] \<rparr>)"

definition authMiddleware :: "string \<Rightarrow> string \<Rightarrow> (request \<Rightarrow> 'w ctl \<Rightarrow> response \<times> 'w ctl) \<Rightarrow> request \<Rightarrow> 'w ctl
    \<Rightarrow> response \<times> 'w ctl" where
  "authMiddleware apiKey webhookSecret next r s =
     (if rq_method r = ''GET'' then next r s
      else if apiKey \<noteq> [] \<and> \<not> validBearer (rq_authorization r) apiKey then
        reject_request ''bad_token'' (401, PError ''unauthorized'') s
      else if length (rq_body r) > maxBodyBytes then
        reject_request ''body_too_large'' (413, PError ''request body too large'') s
      else if webhookSecret \<noteq> [] \<and> rq_path r = ''/evaluate''
            \<and> VerifyPayload webhookSecret (rq_signature r) (rq_body r) \<noteq> None then
        reject_request ''bad_signature'' (401, PError ''invalid webhook signature'') s
      else next r s)"

definition serve :: "instant \<Rightarrow> config \<Rightarrow> json_dec \<Rightarrow> 'w resolver \<Rightarrow> request \<Rightarrow> 'w ctl \<Rightarrow> response \<times> 'w ctl" where
  "serve now cf jd resolve = authMiddleware (cf_apiKey cf) (cf_webhookSecret cf) (mux now cf jd resolve)"

subsection \<open>The controller only moves the store by its operations\<close>

definition store_path :: "store \<Rightarrow> store \<Rightarrow> bool" where
  "store_path s t \<longleftrightarrow> (\<exists>ops. t = fold store_run ops s)"

lemma store_path_refl [simp, intro]: "store_path s s"
  unfolding store_path_def by (rule exI [of _ "[]"]) simp

lemma store_path_trans: "store_path s t \<Longrightarrow> store_path t u \<Longrightarrow> store_path s u"
  unfolding store_path_def by (metis fold_append comp_apply)

lemma store_path_step: "store_path s (store_run op s)"
  unfolding store_path_def by (rule exI [of _ "[op]"]) simp

lemma store_path_ops [simp, intro]:
  "store_path s (snd (Create now det mac ip ty rule ttl auto dn s))" "store_path s (snd (Approve now i who s))"
  "store_path s (snd (Reject now i r s))" "store_path s (snd (Activate now i s))"
  "store_path s (snd (Revert now i r s))" "store_path s (RecordFailure now i r s)"
  using store_path_step [of s "OpCreate now det mac ip ty rule ttl auto dn"] store_path_step [of s "OpApprove now i who"]
    store_path_step [of s "OpReject now i r"] store_path_step [of s "OpActivate now i"]
    store_path_step [of s "OpRevert now i r"] store_path_step [of s "OpFail now i r"]
  by simp_all

lemma store_path_snd:
  "Approve now i who s = (e, t) \<Longrightarrow> store_path s t" "Reject now i r s = (e, t) \<Longrightarrow> store_path s t"
  "Revert now i r s = (e, t) \<Longrightarrow> store_path s t"
  by (metis store_path_ops snd_conv)+

lemma count_failure_fields [simp]:
  "ks_store (count_failure op s) = ks_store s" "ks_world (count_failure op s) = ks_world s"
  by (simp_all add: count_failure_def)

lemma applyAction_path: "store_path (ks_store s) (ks_store (applyAction now resolve a s))"
  by (auto simp: applyAction_def Let_def split: sum.splits prod.splits option.splits)

lemma create_for_path: "create_for now ev d auto s = (a, s') \<Longrightarrow> store_path (ks_store s) (ks_store s')"
  by (auto simp: create_for_def Let_def split: prod.splits) (metis store_path_ops(1) snd_conv)

lemma handleEvaluate_path: "store_path (ks_store s) (ks_store (snd (handleEvaluate now pol resolve abo body s)))"
  by (auto simp: handleEvaluate_def Let_def split: option.splits prod.splits if_splits
      dest: create_for_path intro: store_path_trans applyAction_path)

lemma handleApprove_path: "store_path (ks_store s) (ks_store (snd (handleApprove now resolve who i s)))"
proof -
  have "store_path (ks_store s) (ks_store (applyAction now resolve a (s \<lparr> ks_store := t \<rparr>)))"
    if "store_path (ks_store s) t" for a t
    using that applyAction_path [of "s \<lparr> ks_store := t \<rparr>"] by (auto intro: store_path_trans)
  then show ?thesis
    by (auto simp: handleApprove_def Let_def dest!: store_path_snd split: option.splits prod.splits)
qed

lemma handleReject_path: "store_path (ks_store s) (ks_store (snd (handleReject now r i s)))"
  by (auto simp: handleReject_def dest!: store_path_snd split: option.splits prod.splits)

lemma finish_revert_path: "store_path (ks_store s) (ks_store (snd (finish_revert now r i s)))"
  by (auto simp: finish_revert_def dest!: store_path_snd split: option.splits prod.splits)

lemma handleRevert_path: "store_path (ks_store s) (ks_store (snd (handleRevert now resolve r i s)))"
  using finish_revert_path [of "s \<lparr> ks_world := w \<rparr>" for w] finish_revert_path [of s]
  by (auto simp: handleRevert_def Let_def split: option.splits sum.splits prod.splits)

lemma revertOne_path: "store_path (ks_store s) (ks_store (revertOne now resolve r a s))"
  by (auto simp: revertOne_def split: sum.splits prod.splits option.splits)

lemma ttl_tick_path: "store_path (ks_store s) (ks_store (ttl_tick now resolve s))"
proof -
  have "store_path (ks_store s) (ks_store (fold (revertOne now resolve r) as s))" for r as
    by (induction as arbitrary: s) (auto intro: store_path_trans revertOne_path)
  then show ?thesis by (simp add: ttl_tick_def)
qed

lemma mux_path: "store_path (ks_store s) (ks_store (snd (mux now cf jd resolve r s)))"
proof -
  show ?thesis
    by (auto simp: mux_def Let_def handleEvaluate_path handleApprove_path handleReject_path handleRevert_path
        split: list.split option.split)
qed

lemma serve_path: "store_path (ks_store s) (ks_store (snd (serve now cf jd resolve r s)))"
  by (simp add: serve_def authMiddleware_def reject_request_def mux_path)

datatype ctl_op = Serve instant request | Tick instant

fun ctl_run :: "config \<Rightarrow> json_dec \<Rightarrow> 'w resolver \<Rightarrow> ctl_op \<Rightarrow> 'w ctl \<Rightarrow> 'w ctl" where
  "ctl_run cf jd resolve (Serve now r) s = snd (serve now cf jd resolve r s)"
| "ctl_run cf jd resolve (Tick now) s = ttl_tick now resolve s"

definition startup_ctl :: "environment \<Rightarrow> string option \<Rightarrow> instant \<Rightarrow> audit_writer option \<Rightarrow> 'w \<Rightarrow> 'w ctl" where
  "startup_ctl env host now audit w =
     \<lparr> ks_store = startup_store env host now audit, ks_world = w, ks_rejected = [], ks_driverFailures = [] \<rparr>"

definition ctl_ok :: "'w ctl \<Rightarrow> bool" where
  "ctl_ok s = store_inv (ks_store s)"

lemma store_path_inv: "store_path s t \<Longrightarrow> store_inv s \<Longrightarrow> store_inv t"
  unfolding store_path_def using sm.runs_ok by blast

interpretation cm: machine "ctl_run cf jd resolve" ctl_ok
proof
  fix op and s :: "'a ctl"
  assume "ctl_ok s"
  then show "ctl_ok (ctl_run cf jd resolve op s)"
    unfolding ctl_ok_def by (cases op) (auto intro: store_path_inv serve_path ttl_tick_path)
qed

lemma ctl_runs_path: "store_path (ks_store s) (ks_store (fold (ctl_run cf jd resolve) ops s))"
proof (induction ops arbitrary: s)
  case (Cons op ops)
  have "store_path (ks_store s) (ks_store (ctl_run cf jd resolve op s))"
    by (cases op) (auto intro: serve_path ttl_tick_path)
  with Cons show ?case by (auto intro: store_path_trans)
qed simp


subsection \<open>Who may change anything\<close>

lemma mux_get: "rq_method r = ''GET'' \<Longrightarrow> snd (mux now cf jd resolve r s) = s"
  by (auto simp: mux_def Let_def split: list.splits option.splits)

text \<open>
  Property C5. Authentication and integrity. A request that changes the action store or the network
  passed every check that is configured: it is not a GET, it carries the API key as bearer token, its body
  is within the cap, and if it reaches /evaluate its body carries the HMAC of the webhook secret.
\<close>

theorem serve_changes_only_authenticated:
  assumes "ks_store (snd (serve now cf jd resolve r s)) \<noteq> ks_store s
         \<or> ks_world (snd (serve now cf jd resolve r s)) \<noteq> ks_world s"
  shows "rq_method r \<noteq> ''GET''
    \<and> (cf_apiKey cf = [] \<or> rq_authorization r = ''Bearer '' @ cf_apiKey cf)
    \<and> length (rq_body r) \<le> maxBodyBytes
    \<and> (cf_webhookSecret cf = [] \<or> rq_path r \<noteq> ''/evaluate''
        \<or> VerifyPayload (cf_webhookSecret cf) (rq_signature r) (rq_body r) = None)"
proof -
  have b: "rq_authorization r = ''Bearer '' @ cf_apiKey cf" if "validBearer (rq_authorization r) (cf_apiKey cf)"
    using that by (auto simp: validBearer_def has_prefix_iff prefix_def split: if_splits)
  show ?thesis
    using assms mux_get [of r now cf jd resolve s] b
    unfolding serve_def authMiddleware_def reject_request_def by (auto split: if_splits)
qed

definition dumb_driver :: "nat driver" where
  "dumb_driver = \<lparr> drv_name = ''dns_sinkhole'', drv_apply = (\<lambda>a n. (None, Suc n)), drv_revert = (\<lambda>a n. (None, Suc n)) \<rparr>"

definition sample_config :: config where
  "sample_config = \<lparr> cf_policy = DefaultPolicy, cf_autoBlockAllowed = True, cf_apiKey = ''k'', cf_webhookSecret = [] \<rparr>"

definition sample_dec :: json_dec where
  "sample_dec = \<lparr> jd_event = (\<lambda>b. Some (if b = [] then sample_event else sample_event \<lparr> de_Domain := ''other.example.com'' \<rparr>)), jd_approved_by = (\<lambda>_. []), jd_reason = (\<lambda>_. []) \<rparr>"

definition sample_ctl :: "'w \<Rightarrow> 'w ctl" where
  "sample_ctl w = startup_ctl (\<lambda>_. []) (Some ''node'') 0 (Some (\<lambda>_ _. True)) w"

definition sample_request :: request where
  "sample_request = \<lparr> rq_method = ''POST'', rq_path = ''/evaluate'', rq_authorization = ''Bearer k'', rq_signature = [], rq_body = [] \<rparr>"

theorem serve_changes_only_authenticated_witness:
  "ks_world (snd (serve 0 sample_config sample_dec (resolve_in [(ActionDNSSinkhole, dumb_driver)]) sample_request (sample_ctl 0))) = 1
   \<and> rq_authorization sample_request = ''Bearer '' @ cf_apiKey sample_config"
proof -
  have w: "ks_world (snd (serve 0 sample_config sample_dec (resolve_in [(ActionDNSSinkhole, dumb_driver)]) sample_request (sample_ctl 0))) = 1"
    by code_simp
  moreover have "ks_world (sample_ctl (0 :: nat)) = 0" by (simp add: sample_ctl_def startup_ctl_def)
  moreover have "cf_apiKey sample_config \<noteq> []" by (simp add: sample_config_def)
  ultimately show ?thesis using serve_changes_only_authenticated
      [of 0 sample_config sample_dec "resolve_in [(ActionDNSSinkhole, dumb_driver)]" sample_request "sample_ctl 0"] by simp
qed

text \<open>
  Further fact. Nobody is enforced against blindly: an event whose device is allowlisted changes nothing
  at all, and while auto-block is disabled (no allowlist at start-up) no event reaches a driver, so the
  network is changed only through an operator's approval.
\<close>

theorem evaluate_never_blind:
  assumes "Contains (pol_Allowlist pol) (de_ClientMAC ev) (de_ClientIP ev) \<or> \<not> autoBlockAllowed"
  shows "ks_world (snd (handleEvaluate now pol resolve autoBlockAllowed (Some ev) s)) = ks_world s
    \<and> (Contains (pol_Allowlist pol) (de_ClientMAC ev) (de_ClientIP ev) \<longrightarrow>
         snd (handleEvaluate now pol resolve autoBlockAllowed (Some ev) s) = s)"
proof -
  have w: "create_for now ev d b s = (a, t) \<Longrightarrow> ks_world t = ks_world s" for d b a t
    by (auto simp: create_for_def split: prod.splits)
  show ?thesis
    using assms w by (auto simp: handleEvaluate_def Let_def Evaluate_allowlisted split: prod.splits)
qed

theorem evaluate_never_blind_witness:
  "ks_world (snd (handleEvaluate 0 DefaultPolicy (resolve_in [(ActionDNSSinkhole, dumb_driver)]) False (Some sample_event) (sample_ctl 7))) = 7"
  using evaluate_never_blind [of DefaultPolicy sample_event False 0 "resolve_in [(ActionDNSSinkhole, dumb_driver)]" "sample_ctl 7"]
  by (simp add: sample_ctl_def startup_ctl_def)

subsection \<open>Driver first, state second\<close>

abbreviation ks_state :: "string \<Rightarrow> 'w ctl \<Rightarrow> string option" where
  "ks_state i s \<equiv> state_of i (ks_store s)"

lemma state_of_Get: "Get i st = Some a \<Longrightarrow> state_of i st = Some (ea_State a)"
  by (simp add: Get_def state_of_def)

lemma finish_revert_state:
  "ks_state j (snd (finish_revert now r i s)) =
     (if i = j \<and> ks_state i s \<in> {Some StateActive, Some StateFailed} then Some StateReverted else ks_state j s)"
  "ks_world (snd (finish_revert now r i s)) = ks_world s"
proof -
  have "ks_store (snd (finish_revert now r i s)) = snd (Revert now i r (ks_store s))"
    by (simp add: finish_revert_def split: prod.split option.split)
  then show "ks_state j (snd (finish_revert now r i s)) =
     (if i = j \<and> ks_state i s \<in> {Some StateActive, Some StateFailed} then Some StateReverted else ks_state j s)"
    by (simp add: state_of_ops)
  show "ks_world (snd (finish_revert now r i s)) = ks_world s"
    by (simp add: finish_revert_def split: prod.split option.split)
qed

lemma finish_revert_status:
  "ks_state i s \<in> {Some StateActive, Some StateFailed} \<Longrightarrow> fst (fst (finish_revert now r i s)) = 200"
  by (auto simp: finish_revert_def Revert_def state_of_def Let_def split: option.splits prod.splits)

lemma handleRevert_active:
  assumes "Get i (ks_store s) = Some a" "ea_State a = StateActive"
  shows "handleRevert now resolve r i s =
    (case resolve (ea_ActionType a) of
       Inl err \<Rightarrow> ((503, PError ''no driver for action type; enforcement may still be active''), count_failure ''revert'' s)
     | Inr drv \<Rightarrow>
        (case drv_revert drv a (ks_world s) of
           (Some err, w) \<Rightarrow>
             ((502, PError (''revert failed, enforcement still active: '' @ err)),
              (count_failure ''revert'' (s \<lparr> ks_world := w \<rparr>))
                \<lparr> ks_store := RecordFailure now i (''revert failed: '' @ err) (ks_store s) \<rparr>)
         | (None, w) \<Rightarrow> finish_revert now (or_default r ''manual revert'') i (s \<lparr> ks_world := w \<rparr>)))"
  using assms by (simp add: handleRevert_def Let_def split: sum.split prod.split option.split)

text \<open>
  Further fact. Manual revert of an active action, on every branch. The action is marked reverted (and
  the caller told 200) exactly when a driver exists and its Revert succeeded; when the driver fails
  the caller gets 502 and the action is failed; when there is no driver the caller gets 503 and
  nothing changes. The outside world is what that one driver call left.
\<close>

theorem handleRevert_driver_first:
  assumes "Get i (ks_store s) = Some a" and "ea_State a = StateActive"
  shows "case resolve (ea_ActionType a) of
      Inl _ \<Rightarrow> fst (fst (handleRevert now resolve r i s)) = 503
        \<and> ks_store (snd (handleRevert now resolve r i s)) = ks_store s
        \<and> ks_world (snd (handleRevert now resolve r i s)) = ks_world s
    | Inr drv \<Rightarrow>
        ks_world (snd (handleRevert now resolve r i s)) = snd (drv_revert drv a (ks_world s))
        \<and> (if fst (drv_revert drv a (ks_world s)) = None
           then fst (fst (handleRevert now resolve r i s)) = 200
             \<and> ks_state i (snd (handleRevert now resolve r i s)) = Some StateReverted
           else fst (fst (handleRevert now resolve r i s)) = 502
             \<and> ks_state i (snd (handleRevert now resolve r i s)) = Some StateFailed)"
proof (cases "resolve (ea_ActionType a)")
  case (Inl e)
  then show ?thesis by (simp add: handleRevert_active [OF assms])
next
  case (Inr drv)
  have st: "state_of i (ks_store s) = Some StateActive" using state_of_Get [OF assms(1)] assms(2) by simp
  show ?thesis
  proof (cases "drv_revert drv a (ks_world s)")
    case (Pair e w)
    show ?thesis
    proof (cases e)
      case None
      then show ?thesis
        using Inr Pair st finish_revert_state(1) [where i = i and j = i and s = "s \<lparr> ks_world := w \<rparr>"]
          finish_revert_state(2) [where i = i and s = "s \<lparr> ks_world := w \<rparr>"]
          finish_revert_status [where i = i and s = "s \<lparr> ks_world := w \<rparr>"]
        by (simp add: handleRevert_active [OF assms])
    next
      case (Some err)
      then show ?thesis using Inr Pair st by (simp add: handleRevert_active [OF assms] state_of_ops)
    qed
  qed
qed

definition active_ctl :: "nat ctl" where
  "active_ctl = snd (handleEvaluate 0 DefaultPolicy (resolve_in [(ActionDNSSinkhole, dumb_driver)]) True (Some sample_event) (sample_ctl 0))"

definition active_id :: string where
  "active_id = ''ACT-node-0-1''"

lemma active_ctl_active: "ks_state active_id active_ctl = Some StateActive"
  by code_simp

theorem handleRevert_driver_first_witness:
  "ks_state active_id (snd (handleRevert 5 (resolve_in [(ActionDNSSinkhole, dumb_driver)]) [] active_id active_ctl)) = Some StateReverted"
proof -
  obtain a where a: "Get active_id (ks_store active_ctl) = Some a" "ea_State a = StateActive"
    using active_ctl_active by (auto simp: state_of_def Get_def)
  have "map_option ea_ActionType (Get active_id (ks_store active_ctl)) = Some ActionDNSSinkhole" by code_simp
  with a have "ea_ActionType a = ActionDNSSinkhole" by simp
  then show ?thesis
    using handleRevert_driver_first [OF a, where resolve = "resolve_in [(ActionDNSSinkhole, dumb_driver)]" and now = 5 and r = "[]"]
    by (simp add: resolve_in_def dumb_driver_def)
qed

text \<open>
  Further fact. The one lie a killswitch must never tell. After a driver failed to revert, the action is
  failed and may well still be enforced; a second POST /revert calls no driver at all (whatever the
  drivers are), marks the action reverted, and answers 200.
\<close>

theorem second_revert_skips_driver:
  assumes "Get i (ks_store s) = Some a" and "ea_State a = StateFailed"
  shows "ks_world (snd (handleRevert now resolve r i s)) = ks_world s
    \<and> ks_state i (snd (handleRevert now resolve r i s)) = Some StateReverted
    \<and> fst (fst (handleRevert now resolve r i s)) = 200"
proof -
  have "handleRevert now resolve r i s = finish_revert now (or_default r ''manual revert'') i s"
    using assms by (simp add: handleRevert_def Let_def)
  moreover have "state_of i (ks_store s) = Some StateFailed" using state_of_Get [OF assms(1)] assms(2) by simp
  ultimately show ?thesis
    using finish_revert_state(1) [where i = i and j = i and s = s]
      finish_revert_state(2) [where i = i and s = s] finish_revert_status [where i = i and s = s] by simp
qed

subsection \<open>The sinkhole behind a flaky network\<close>

text \<open>The AdGuard of theory \<open>Sinkhole\<close>, whose \<open>k\<close>-th call from now times out.\<close>

definition flaky_do :: "http_request \<Rightarrow> nat \<times> string list \<Rightarrow> http_result \<times> (nat \<times> string list)" where
  "flaky_do req = (\<lambda>(k, rules).
     if k = 1 then (Transport ''timeout'', (0, rules))
     else (let (r, rules') = ref_do req rules in (r, (k - 1, rules'))))"

definition flaky_adguard :: "(nat \<times> string list) adguard" where
  "flaky_adguard = \<lparr> ag_do = flaky_do, ag_decode = ag_decode ref_adguard, ag_encode = ref_encode \<rparr>"

definition flaky_resolve :: "(nat \<times> string list) resolver" where
  "flaky_resolve = resolve_in [(ActionDNSSinkhole, sinkhole_driver flaky_adguard sample_sinkhole)]"

definition revert_request :: "string \<Rightarrow> request" where
  "revert_request i = sample_request \<lparr> rq_path := ''/actions/'' @ i @ ''/revert'' \<rparr>"

definition flaky_serve :: "request \<Rightarrow> (nat \<times> string list) ctl \<Rightarrow> response \<times> (nat \<times> string list) ctl" where
  "flaky_serve = serve 1000 sample_config sample_dec flaky_resolve"

definition flaky_failed :: "(nat \<times> string list) ctl" where
  "flaky_failed = snd (flaky_serve (revert_request active_id) (snd (flaky_serve sample_request (sample_ctl (3, [])))))"

theorem second_revert_skips_driver_witness:
  "ks_state active_id flaky_failed = Some StateFailed
   \<and> ks_state active_id (snd (handleRevert 1001 flaky_resolve [] active_id flaky_failed)) = Some StateReverted
   \<and> snd (ks_world (snd (handleRevert 1001 flaky_resolve [] active_id flaky_failed))) = [''||evil.example.com^'']"
proof -
  have f: "ks_state active_id flaky_failed = Some StateFailed" by code_simp
  then obtain a where a: "Get active_id (ks_store flaky_failed) = Some a" "ea_State a = StateFailed"
    by (auto simp: state_of_def Get_def)
  have "snd (ks_world flaky_failed) = [''||evil.example.com^'']" by code_simp
  then show ?thesis
    using f second_revert_skips_driver [OF a, where resolve = flaky_resolve and now = 1001 and r = "[]"] by simp
qed

end
