(* ===== verification/ControllerSafety.thy ===== *)
theory ControllerSafety
  imports Controller
begin

text \<open>
  System-level properties of the killswitch controller: what a step of the service may do to the state of
  an action, the TTL loop, and what remains enforced behind the store's back.
\<close>

subsection \<open>Active means a driver confirmed it\<close>

text \<open>A step went through a driver's Apply for action \<open>i\<close>, which returned nil.\<close>

definition apply_confirmed :: "'w resolver \<Rightarrow> string \<Rightarrow> 'w \<Rightarrow> 'w \<Rightarrow> bool" where
  "apply_confirmed resolve i w w' \<longleftrightarrow>
     (\<exists>a drv. ea_ID a = i \<and> resolve (ea_ActionType a) = Inr drv \<and> drv_apply drv a w = (None, w'))"

definition revert_confirmed :: "'w resolver \<Rightarrow> string \<Rightarrow> 'w \<Rightarrow> 'w \<Rightarrow> bool" where
  "revert_confirmed resolve i w w' \<longleftrightarrow>
     (\<exists>a drv. ea_ID a = i \<and> resolve (ea_ActionType a) = Inr drv \<and> drv_revert drv a w = (None, w'))"

text \<open>What a handler may do to the state of an action.\<close>

definition fair_move :: "'w resolver \<Rightarrow> 'w ctl \<Rightarrow> 'w ctl \<Rightarrow> bool" where
  "fair_move resolve s t \<longleftrightarrow>
     (\<forall>i. (ks_state i t = Some StateActive \<longrightarrow>
            ks_state i s = Some StateActive \<or> apply_confirmed resolve i (ks_world s) (ks_world t))
        \<and> (ks_state i t = Some StateReverted \<longrightarrow>
            ks_state i s \<in> {Some StateReverted, Some StateFailed} \<or> revert_confirmed resolve i (ks_world s) (ks_world t)))"

lemma fair_refl [simp]: "fair_move resolve s s"
  by (simp add: fair_move_def)

lemma fair_quiet:
  "\<forall>i. ks_state i t \<in> {ks_state i s, None, Some StatePending, Some StateApproved, Some StateRejected, Some StateFailed}
    \<Longrightarrow> fair_move resolve s t"
  unfolding fair_move_def
proof
  fix i
  assume "\<forall>i. ks_state i t \<in> {ks_state i s, None, Some StatePending, Some StateApproved, Some StateRejected, Some StateFailed}"
  then have "ks_state i t \<in> {ks_state i s, None, Some StatePending, Some StateApproved, Some StateRejected, Some StateFailed}" ..
  then show "(ks_state i t = Some StateActive \<longrightarrow>
      ks_state i s = Some StateActive \<or> apply_confirmed resolve i (ks_world s) (ks_world t))
    \<and> (ks_state i t = Some StateReverted \<longrightarrow>
      ks_state i s \<in> {Some StateReverted, Some StateFailed} \<or> revert_confirmed resolve i (ks_world s) (ks_world t))"
    by auto
qed

lemma applyAction_fair:
  assumes pre: "\<forall>i. ks_state i s' \<in> {ks_state i s, None, Some StatePending, Some StateApproved}"
    and w: "ks_world s' = ks_world s"
  shows "fair_move resolve s (applyAction now resolve a s')"
proof (cases "resolve (ea_ActionType a)")
  case (Inl e)
  then show ?thesis using pre by (intro fair_quiet) (auto simp: applyAction_def Let_def state_of_ops)
next
  case (Inr drv)
  obtain e w' where d: "drv_apply drv a (ks_world s') = (e, w')" by fastforce
  show ?thesis
  proof (cases e)
    case (Some err)
    then show ?thesis using pre Inr d by (intro fair_quiet) (auto simp: applyAction_def Let_def state_of_ops)
  next
    case None
    then have st: "ks_state i (applyAction now resolve a s') =
        (if ea_ID a = i \<and> ks_state (ea_ID a) s' = Some StateApproved then Some StateActive else ks_state i s')" for i
      using Inr d by (simp add: applyAction_def state_of_ops)
    have "ks_world (applyAction now resolve a s') = w'" using Inr d None by (simp add: applyAction_def)
    then have c: "apply_confirmed resolve (ea_ID a) (ks_world s) (ks_world (applyAction now resolve a s'))"
      using Inr d None w by (auto simp: apply_confirmed_def)
    show ?thesis unfolding fair_move_def
    proof (intro allI conjI impI)
      fix i
      assume "ks_state i (applyAction now resolve a s') = Some StateActive"
      then show "ks_state i s = Some StateActive \<or> apply_confirmed resolve i (ks_world s) (ks_world (applyAction now resolve a s'))"
        using st [of i] c pre [rule_format, of i] by (auto split: if_splits)
    next
      fix i
      assume "ks_state i (applyAction now resolve a s') = Some StateReverted"
      then show "ks_state i s \<in> {Some StateReverted, Some StateFailed} \<or>
          revert_confirmed resolve i (ks_world s) (ks_world (applyAction now resolve a s'))"
        using st [of i] pre [rule_format, of i] by (auto split: if_splits)
    qed
  qed
qed

lemma create_for_states:
  assumes "store_inv (ks_store s)" "create_for now ev d auto s = (a, s')"
  shows "\<forall>i. ks_state i s' \<in> {ks_state i s, None, Some StatePending, Some StateApproved}" and "ks_world s' = ks_world s"
proof -
  have s': "ks_store s' = snd (Create now (de_ID ev) (de_ClientMAC ev) (de_ClientIP ev) (dc_ActionType d) (dc_Reason d)
            (dc_TTLSeconds d) auto (de_Domain ev) (ks_store s))" "ks_world s' = ks_world s"
    using assms(2) by (auto simp: create_for_def split: prod.splits)
  show "ks_world s' = ks_world s" by (rule s'(2))
  show "\<forall>i. ks_state i s' \<in> {ks_state i s, None, Some StatePending, Some StateApproved}"
  proof
    fix i
    show "ks_state i s' \<in> {ks_state i s, None, Some StatePending, Some StateApproved}"
      unfolding s'(1) using state_of_Create [OF assms(1), of i now "de_ID ev" "de_ClientMAC ev" "de_ClientIP ev"
          "dc_ActionType d" "dc_Reason d" "dc_TTLSeconds d" auto "de_Domain ev"]
      by (auto split: if_splits)
  qed
qed

lemma handleEvaluate_fair:
  assumes "store_inv (ks_store s)"
  shows "fair_move resolve s (snd (handleEvaluate now pol resolve abo body s))"
proof (cases body)
  case (Some ev)
  have c1: "fair_move resolve s s'" if "create_for now ev d b s = (a, s')" for d b a s'
    using create_for_states(1) [OF assms that] by (intro fair_quiet) blast
  have c2: "fair_move resolve s (applyAction now resolve a s')" if "create_for now ev d b s = (a, s')" for d b a s'
    by (rule applyAction_fair [OF create_for_states [OF assms that]])
  show ?thesis using c1 c2 by (auto simp: handleEvaluate_def Some Let_def split: prod.splits if_splits)
qed (simp add: handleEvaluate_def)

lemma handleApprove_fair: "fair_move resolve s (snd (handleApprove now resolve who i s))"
proof (cases "Approve now i (or_default who ''operator'') (ks_store s)")
  case (Pair e st)
  then have st: "st = snd (Approve now i (or_default who ''operator'') (ks_store s))" by simp
  have q: "\<forall>j. ks_state j (s \<lparr> ks_store := st \<rparr>) \<in> {ks_state j s, None, Some StatePending, Some StateApproved}"
    by (simp add: st state_of_ops)
  have "fair_move resolve s (s \<lparr> ks_store := st \<rparr>)" using q by (intro fair_quiet) blast
  moreover have "fair_move resolve s (applyAction now resolve a (s \<lparr> ks_store := st \<rparr>))" for a
    by (rule applyAction_fair [OF q]) simp
  ultimately show ?thesis by (auto simp: handleApprove_def Pair Let_def split: option.split)
qed

lemma handleReject_fair: "fair_move resolve s (snd (handleReject now r i s))"
proof -
  have "ks_store (snd (handleReject now r i s)) = snd (Reject now i (or_default r ''rejected by operator'') (ks_store s))"
    by (simp add: handleReject_def split: prod.split option.split)
  then show ?thesis by (intro fair_quiet) (simp add: state_of_ops)
qed

lemma handleRevert_fair:
  assumes "store_inv (ks_store s)"
  shows "fair_move resolve s (snd (handleRevert now resolve r i s))"
proof (cases "Get i (ks_store s)")
  case None
  then show ?thesis by (simp add: handleRevert_def Let_def)
next
  case (Some a)
  have id: "ea_ID a = i" using assms Some by (simp add: store_inv_def Get_def)
  have sa: "ks_state i s = Some (ea_State a)" by (rule state_of_Get [OF Some])
  show ?thesis
  proof (cases "ea_State a = StateActive")
    case False
    then have "handleRevert now resolve r i s = finish_revert now (or_default r ''manual revert'') i s"
      using Some by (simp add: handleRevert_def Let_def)
    then show ?thesis using sa False by (auto simp: fair_move_def finish_revert_state)
  next
    case True
    note h = handleRevert_active [OF Some True, where now = now and resolve = resolve and r = r]
    show ?thesis
    proof (cases "resolve (ea_ActionType a)")
      case (Inl e)
      then show ?thesis by (simp add: h fair_move_def)
    next
      case (Inr drv)
      obtain e w where d: "drv_revert drv a (ks_world s) = (e, w)" by fastforce
      show ?thesis
      proof (cases e)
        case (Some err)
        then show ?thesis using Inr d by (intro fair_quiet) (simp add: h state_of_ops)
      next
        case None
        let ?t = "snd (handleRevert now resolve r i s)"
        have t: "?t = snd (finish_revert now (or_default r ''manual revert'') i (s \<lparr> ks_world := w \<rparr>))"
          using Inr d None by (simp add: h)
        have st: "ks_state j ?t = (if i = j then Some StateReverted else ks_state j s)" for j
          unfolding t finish_revert_state using sa True by auto
        have "ks_world ?t = w" unfolding t finish_revert_state by simp
        then have "revert_confirmed resolve i (ks_world s) (ks_world ?t)"
          using id Inr d None by (auto simp: revert_confirmed_def)
        then show ?thesis unfolding fair_move_def using st by auto
      qed
    qed
  qed
qed

lemma mux_fair:
  assumes "store_inv (ks_store s)"
  shows "fair_move resolve s (snd (mux now cf jd resolve r s))"
  by (auto simp: mux_def Let_def handleEvaluate_fair [OF assms] handleApprove_fair handleReject_fair
      handleRevert_fair [OF assms] split: list.split option.split)

text \<open>
  Property C2. Active means enforced, reverted means lifted, but for one case. Along any history of the
  service, a request makes an action active only by a driver's Apply that returned nil for it, and
  makes it reverted only by a driver's Revert that returned nil, except for actions that had failed.
\<close>

theorem request_driver_confirmed:
  fixes env host start w0 audit cf jd resolve ops now r
  defines "s \<equiv> fold (ctl_run cf jd resolve) ops (startup_ctl env host start audit w0)"
  defines "t \<equiv> snd (serve now cf jd resolve r s)"
  shows "(ks_state i t = Some StateActive \<longrightarrow>
      ks_state i s = Some StateActive \<or> apply_confirmed resolve i (ks_world s) (ks_world t))
    \<and> (ks_state i t = Some StateReverted \<longrightarrow>
      ks_state i s \<in> {Some StateReverted, Some StateFailed} \<or> revert_confirmed resolve i (ks_world s) (ks_world t))"
proof -
  have "ctl_ok (startup_ctl env host start audit w0)"
    by (simp add: ctl_ok_def startup_ctl_def startup_store_def NewStore_inv)
  then have "store_inv (ks_store s)" unfolding s_def using cm.runs_ok unfolding ctl_ok_def by blast
  then have "fair_move resolve s t"
    unfolding t_def serve_def authMiddleware_def reject_request_def
    by (auto simp: mux_fair) (auto simp: fair_move_def)
  then show ?thesis by (simp add: fair_move_def)
qed

theorem request_driver_confirmed_witness:
  "apply_confirmed (resolve_in [(ActionDNSSinkhole, dumb_driver)]) active_id 0
     (ks_world (snd (serve 0 sample_config sample_dec (resolve_in [(ActionDNSSinkhole, dumb_driver)]) sample_request (sample_ctl 0))))"
proof -
  let ?r = "resolve_in [(ActionDNSSinkhole, dumb_driver)]"
  let ?s = "startup_ctl (\<lambda>_. []) (Some ''node'') 0 (Some (\<lambda>_ _. True)) 0 :: nat ctl"
  have "ks_state active_id (snd (serve 0 sample_config sample_dec ?r sample_request ?s)) = Some StateActive" by code_simp
  moreover have "ks_state active_id ?s = None" by code_simp
  ultimately show ?thesis
    using request_driver_confirmed [of active_id 0 sample_config sample_dec ?r sample_request "[]" "\<lambda>_. []" "Some ''node''" 0 "Some (\<lambda>_ _. True)" 0]
    by (simp add: sample_ctl_def startup_ctl_def)
qed

subsection \<open>The TTL loop\<close>

definition expired :: "instant \<Rightarrow> enforcement_action \<Rightarrow> bool" where
  "expired now a = (ea_State a = StateActive \<and> (case ea_ExpiresAt a of None \<Rightarrow> False | Some t \<Rightarrow> now > t))"

lemma set_ListExpired:
  "store_inv st \<Longrightarrow> set (ListExpired now st) = {a. Get (ea_ID a) st = Some a \<and> expired now a}"
proof -
  assume inv: "store_inv st"
  then have w: "mwf (st_actions st)" by (simp add: store_inv_def order_ok_def)
  have "a \<in> snd ` set (st_actions st) \<longleftrightarrow> Get (ea_ID a) st = Some a" for a
  proof
    assume "a \<in> snd ` set (st_actions st)"
    then obtain i where "(i, a) \<in> set (st_actions st)" by auto
    then have "mget (st_actions st) i = Some a" using w by (simp add: mget_Some_in)
    then show "Get (ea_ID a) st = Some a" using inv by (auto simp: Get_def store_inv_def)
  next
    assume "Get (ea_ID a) st = Some a"
    then show "a \<in> snd ` set (st_actions st)" by (force simp: Get_def dest: map_of_SomeD)
  qed
  then show ?thesis by (auto simp: ListExpired_def expired_def)
qed

lemma Revert_Get:
  "Get j (snd (Revert now i r st)) = Get j st \<or> (i = j \<and> state_of j (snd (Revert now i r st)) = Some StateReverted)"
proof (cases "mget (st_actions st) i")
  case (Some a)
  then show ?thesis by (auto simp: Revert_def Let_def Get_def mget_put)
qed (simp add: Revert_def)

lemma revertOne_Get:
  "Get j (ks_store (revertOne now resolve r a s)) = Get j (ks_store s)
    \<or> (ea_ID a = j \<and> ks_state j (revertOne now resolve r a s) = Some StateReverted)"
proof (cases "resolve (ea_ActionType a)")
  case (Inr drv)
  show ?thesis
  proof (cases "drv_revert drv a (ks_world s)")
    case (Pair e w)
    then show ?thesis using Inr Revert_Get [of j now "ea_ID a" r "ks_store s"] by (cases e) (auto simp: revertOne_def)
  qed
qed (simp add: revertOne_def)

lemma reverted_stays: "ks_state j s = Some StateReverted \<Longrightarrow> ks_state j (revertOne now resolve r a s) = Some StateReverted"
  using revertOne_Get [of j now resolve r a s] by (auto simp: Get_def state_of_def)

lemma reverts_Get:
  "Get j (ks_store (fold (revertOne now resolve r) as s)) = Get j (ks_store s)
    \<or> (j \<in> ea_ID ` set as \<and> ks_state j (fold (revertOne now resolve r) as s) = Some StateReverted)"
proof (induction as arbitrary: s)
  case (Cons a as)
  have stay: "ks_state j (fold (revertOne now resolve r) as t) = Some StateReverted" if "ks_state j t = Some StateReverted" for t
    using that by (induction as arbitrary: t) (simp_all add: reverted_stays)
  from revertOne_Get [of j now resolve r a s] show ?case
    using Cons.IH [of "revertOne now resolve r a s"] stay by auto
qed simp

definition drivers_work :: "'w resolver \<Rightarrow> bool" where
  "drivers_work resolve \<longleftrightarrow> (\<forall>ty. \<exists>drv. resolve ty = Inr drv \<and> (\<forall>a w. fst (drv_revert drv a w) = None))"

lemma revertOne_works:
  assumes "drivers_work resolve" "ks_state (ea_ID a) s \<in> {Some StateActive, Some StateReverted}"
  shows "ks_state (ea_ID a) (revertOne now resolve r a s) = Some StateReverted"
proof -
  obtain drv where d: "resolve (ea_ActionType a) = Inr drv" "fst (drv_revert drv a (ks_world s)) = None"
    using assms(1) by (auto simp: drivers_work_def) (metis)
  then obtain w where "drv_revert drv a (ks_world s) = (None, w)" by (metis prod.collapse)
  with d assms(2) show ?thesis by (auto simp: revertOne_def state_of_ops)
qed

lemma reverts_work:
  assumes "drivers_work resolve" "\<forall>a \<in> set as. ks_state (ea_ID a) s \<in> {Some StateActive, Some StateReverted}"
  shows "\<forall>a \<in> set as. ks_state (ea_ID a) (fold (revertOne now resolve r) as s) = Some StateReverted"
  using assms(2)
proof (induction as arbitrary: s)
  case (Cons b as)
  let ?t = "revertOne now resolve r b s"
  have b: "ks_state (ea_ID b) ?t = Some StateReverted" using Cons.prems by (intro revertOne_works assms(1)) simp
  have "\<forall>a \<in> set as. ks_state (ea_ID a) ?t \<in> {Some StateActive, Some StateReverted}"
  proof
    fix a assume "a \<in> set as"
    then have "ks_state (ea_ID a) s \<in> {Some StateActive, Some StateReverted}" using Cons.prems by simp
    then show "ks_state (ea_ID a) ?t \<in> {Some StateActive, Some StateReverted}"
      using revertOne_Get [of "ea_ID a" now resolve r b s] by (auto simp: Get_def state_of_def)
  qed
  from Cons.IH [OF this] have t: "\<forall>a \<in> set as. ks_state (ea_ID a) (fold (revertOne now resolve r) as ?t) = Some StateReverted" .
  have "ks_state (ea_ID b) (fold (revertOne now resolve r) as ?t) = Some StateReverted"
    using reverts_Get [of "ea_ID b" now resolve r as ?t] b by (auto simp: Get_def state_of_def)
  with t show ?case by simp
qed simp

text \<open>
  Further fact. A TTL tick only touches expired active actions: every other action is exactly as it was,
  and an expired one is unchanged (its driver failed, the next tick retries) or reverted.
\<close>

theorem ttl_tick_only_expired:
  fixes audit opts ops now resolve w rej fl
  defines "s \<equiv> \<lparr> ks_store = store_after audit opts ops, ks_world = w, ks_rejected = rej, ks_driverFailures = fl \<rparr>"
  shows "Get i (ks_store (ttl_tick now resolve s)) = Get i (store_after audit opts ops)
    \<or> (ks_state i (ttl_tick now resolve s) = Some StateReverted
       \<and> (\<exists>a. Get i (store_after audit opts ops) = Some a \<and> expired now a))"
proof -
  have inv: "store_inv (store_after audit opts ops)" by (rule store_after_inv)
  have "Get i (ks_store (ttl_tick now resolve s)) = Get i (ks_store s)
    \<or> (i \<in> ea_ID ` set (ListExpired now (ks_store s)) \<and> ks_state i (ttl_tick now resolve s) = Some StateReverted)"
    unfolding ttl_tick_def by (rule reverts_Get)
  then show ?thesis using set_ListExpired [OF inv, of now] by (auto simp: s_def)
qed



subsection \<open>What remains enforced behind the store's back\<close>

definition evaluate_twice :: "(nat \<times> string list) ctl" where
  "evaluate_twice = snd (flaky_serve sample_request (snd (flaky_serve sample_request (sample_ctl (0, [])))))"

text \<open>
  Further fact. Two actions on one domain share one AdGuard rule: reverting the first lifts the block of the
  second, which stays active in the API and the audit log although nothing is enforced.
\<close>

theorem shared_rule_lifted:
  "let s = snd (flaky_serve (revert_request ''ACT-node-0-1'') evaluate_twice)
   in ks_state ''ACT-node-0-1'' s = Some StateReverted \<and> ks_state ''ACT-node-0-2'' s = Some StateActive
      \<and> snd (ks_world evaluate_twice) = [''||evil.example.com^''] \<and> snd (ks_world s) = []"
  by code_simp

text \<open>
  Further fact. Eviction forgets live enforcement. \<open>terminalStates\<close> counts failed actions as no longer
  enforced, but an action whose revert failed still is: with room for one action, the next detection
  evicts it, after which the block is in place and no request can lift it (404).
\<close>

theorem failed_revert_evicted:
  "let s0 = (sample_ctl (3, [])) \<lparr> ks_store := NewStore None \<lparr> so_MaxActions = 1, so_IDPrefix = ''ACT-node-0'' \<rparr> \<rparr>;
       s1 = snd (flaky_serve sample_request s0);
       s2 = snd (flaky_serve (revert_request active_id) s1);
       s3 = snd (flaky_serve (sample_request \<lparr> rq_body := [1] \<rparr>) s2)
   in ks_state active_id s2 = Some StateFailed \<and> ks_state active_id s3 = None
      \<and> fst (fst (flaky_serve (revert_request active_id) s3)) = 404
      \<and> snd (ks_world s3) = [''||evil.example.com^'', ''||other.example.com^'']"
  by code_simp

end
