(* ===== verification/Enforcement.thy ===== *)
theory Enforcement
  imports ControllerSafety
begin

text \<open>
  The controller over drivers that refuse some targets, whatever is asked of them. The locale \<open>refusing\<close> is what the
  controller relies on; it is interpreted on the drivers of the program in the theory \<open>Layer2\<close>.
\<close>

subsection \<open>What an operation of the store does to active actions\<close>

text \<open>The type of an action, and the MAC and the IP address it names.\<close>

datatype target = Target string string string

definition act_target :: "enforcement_action \<Rightarrow> target" where
  "act_target a = Target (ea_ActionType a) (ea_TargetMAC a) (ea_TargetIP a)"

definition active_target :: "string \<Rightarrow> store \<Rightarrow> target option" where
  "active_target i s =
     (case Get i s of None \<Rightarrow> None | Some a \<Rightarrow> if ea_State a = StateActive then Some (act_target a) else None)"

lemma active_target_move:
  "active_target j (writeAudit now f t ac r b (set_action i a s)) =
     (if i = j then if ea_State a = StateActive then Some (act_target a) else None else active_target j s)"
  by (simp add: active_target_def Get_def set_action_def mget_put)

lemma active_target_transition:
  assumes "act \<noteq> StateActive"
  shows "active_target j (snd (transition now i act actor reason allowed s)) \<in> {None, active_target j s}"
proof (cases "mget (st_actions s) i")
  case (Some a)
  then show ?thesis using assms
    by (auto simp: transition_def Let_def active_target_move)
qed (simp add: transition_def)

lemma active_target_quiet:
  "active_target j (snd (Approve now i who s)) \<in> {None, active_target j s}"
  "active_target j (snd (Reject now i r s)) \<in> {None, active_target j s}"
  "active_target j (snd (Revert now i r s)) \<in> {None, active_target j s}"
  "active_target j (RecordFailure now i r s) \<in> {None, active_target j s}"
proof -
  show "active_target j (snd (Approve now i who s)) \<in> {None, active_target j s}"
    "active_target j (snd (Reject now i r s)) \<in> {None, active_target j s}"
    unfolding Approve_def Reject_def by (rule active_target_transition; simp)+
  show "active_target j (snd (Revert now i r s)) \<in> {None, active_target j s}"
    by (cases "mget (st_actions s) i") (auto simp: Revert_def Let_def active_target_move)
  show "active_target j (RecordFailure now i r s) \<in> {None, active_target j s}"
    by (cases "mget (st_actions s) i") (auto simp: RecordFailure_def Let_def active_target_move)
qed

lemma active_target_Activate:
  "active_target j (snd (Activate now i s)) \<in> {active_target j s} \<union> (if i = j then {map_option act_target (Get i s)} else {})"
proof (cases "mget (st_actions s) i")
  case (Some a)
  then show ?thesis
    by (auto simp: Activate_def transition_def Let_def active_target_move Get_def act_target_def)
qed (simp add: Activate_def transition_def)

lemma active_target_Create:
  assumes "store_inv s"
  shows "active_target j (snd (Create now det mac ip ty rule ttl auto dn s)) \<in> {None, active_target j s}"
proof -
  let ?n = "action_id s (Suc (st_counter s))" and ?t = "snd (Create now det mac ip ty rule ttl auto dn s)"
  have g: "Get j ?t \<in> {None, Get j s}" if "j \<noteq> ?n"
    using evicted_created(3) [OF assms, of now det mac ip ty rule ttl auto dn] that by (simp add: snd_Create Get_def)
  show ?thesis
  proof (cases "j = ?n")
    case True
    then show ?thesis
      using Create_stored [OF assms, of now det mac ip ty rule ttl auto dn] Create_action(2) [of now det mac ip ty rule ttl auto dn s]
      by (simp add: active_target_def)
  next
    case False
    from g [OF this] show ?thesis by (auto simp: active_target_def)
  qed
qed

subsection \<open>The controller over drivers that refuse\<close>

text \<open>What happens to the service: a step of the controller, or something else that touches the drivers' state.\<close>

datatype 'e ks_event = Controlled ctl_op | Background 'e

fun ks_run :: "config \<Rightarrow> json_dec \<Rightarrow> 'w resolver \<Rightarrow> ('e \<Rightarrow> 'w \<Rightarrow> 'w) \<Rightarrow> 'e ks_event \<Rightarrow> 'w ctl \<Rightarrow> 'w ctl" where
  "ks_run cf jd resolve bg (Controlled op) s = ctl_run cf jd resolve op s"
| "ks_run cf jd resolve bg (Background e) s = s \<lparr> ks_world := bg e (ks_world s) \<rparr>"

locale refusing =
  fixes resolve :: "'w resolver" and background :: "'e \<Rightarrow> 'w \<Rightarrow> 'w" and world_ok :: "'w \<Rightarrow> bool"
    and refused :: "target \<Rightarrow> bool"
  assumes apply_ok: "resolve ty = Inr drv \<Longrightarrow> world_ok w \<Longrightarrow> world_ok (snd (drv_apply drv a w))"
    and revert_ok: "resolve ty = Inr drv \<Longrightarrow> world_ok w \<Longrightarrow> world_ok (snd (drv_revert drv a w))"
    and background_ok: "world_ok w \<Longrightarrow> world_ok (background e w)"
    and refuses: "resolve (ea_ActionType a) = Inr drv \<Longrightarrow> world_ok w \<Longrightarrow> refused (act_target a) \<Longrightarrow> fst (drv_apply drv a w) \<noteq> None"
begin

definition spared :: "'w ctl \<Rightarrow> bool" where
  "spared s \<longleftrightarrow> store_inv (ks_store s) \<and> world_ok (ks_world s) \<and> (\<forall>i t. active_target i (ks_store s) = Some t \<longrightarrow> \<not> refused t)"

lemma spared_quiet:
  assumes "spared s" "store_inv (ks_store t)" "world_ok (ks_world t)"
    and "\<And>i. active_target i (ks_store t) \<in> {None, active_target i (ks_store s)}"
  shows "spared t"
  unfolding spared_def
proof (intro conjI allI impI)
  fix i u
  assume "active_target i (ks_store t) = Some u"
  then have "active_target i (ks_store s) = Some u" using assms(4) [of i] by simp
  then show "\<not> refused u" using assms(1) by (simp add: spared_def)
qed (use assms in simp_all)

lemma spared_store:
  assumes "spared s" "store_path (ks_store s) st" "world_ok w" "\<And>i. active_target i st \<in> {None, active_target i (ks_store s)}"
  shows "spared (s \<lparr> ks_world := w, ks_store := st \<rparr>)"
  using assms(1)
proof (rule spared_quiet)
  show "store_inv (ks_store (s \<lparr> ks_world := w, ks_store := st \<rparr>))"
    using assms(1) store_path_inv [OF assms(2)] by (simp add: spared_def)
qed (use assms in simp_all)

lemma spared_same_world:
  assumes "spared s" "store_path (ks_store s) st" "\<And>i. active_target i st \<in> {None, active_target i (ks_store s)}"
  shows "spared (s \<lparr> ks_store := st \<rparr>)"
proof -
  have "world_ok (ks_world s)" using assms(1) by (simp add: spared_def)
  from spared_store [OF assms(1,2) this assms(3)] show ?thesis by simp
qed

lemma spared_count [simp]: "spared (count_failure op s) = spared s"
  by (simp add: spared_def)

lemma spared_world: "spared s \<Longrightarrow> world_ok w \<Longrightarrow> spared (s \<lparr> ks_world := w \<rparr>)"
  by (simp add: spared_def)

lemma spared_failed: "spared s \<Longrightarrow> spared (s \<lparr> ks_store := RecordFailure now i r (ks_store s) \<rparr>)"
  by (rule spared_same_world) (use active_target_quiet(4) in auto)

lemma applyAction_spared:
  assumes s: "spared s" and a: "Get (ea_ID a) (ks_store s) = Some a"
  shows "spared (applyAction now resolve a s)"
proof (cases "resolve (ea_ActionType a)")
  case (Inl e)
  then show ?thesis using spared_failed [of "count_failure ''apply'' s" now "ea_ID a" "''no driver: '' @ e"] s
    by (simp add: applyAction_def Let_def)
next
  case (Inr drv)
  obtain e w where d: "drv_apply drv a (ks_world s) = (e, w)" by fastforce
  have w: "world_ok w" using apply_ok [OF Inr, of "ks_world s" a] s d by (simp add: spared_def)
  show ?thesis
  proof (cases e)
    case (Some err)
    then show ?thesis using spared_failed [of "count_failure ''apply'' (s \<lparr> ks_world := w \<rparr>)" now "ea_ID a" err] spared_world [OF s w]
      by (simp add: applyAction_def Let_def Inr d)
  next
    case None
    have "\<not> refused (act_target a)" using refuses [OF Inr, of "ks_world s"] s d None by (auto simp: spared_def)
    moreover have "active_target i (snd (Activate now (ea_ID a) (ks_store s))) \<in> {active_target i (ks_store s), Some (act_target a)}" for i
      using active_target_Activate [of i now "ea_ID a" "ks_store s"] a by (auto split: if_splits)
    then have "active_target i (snd (Activate now (ea_ID a) (ks_store s))) = Some u \<Longrightarrow>
        active_target i (ks_store s) = Some u \<or> u = act_target a" for i u by (metis insert_iff option.inject singletonD)
    ultimately have "\<forall>i u. active_target i (snd (Activate now (ea_ID a) (ks_store s))) = Some u \<longrightarrow> \<not> refused u"
      using s unfolding spared_def by blast
    moreover have "store_inv (snd (Activate now (ea_ID a) (ks_store s)))"
      using s store_path_inv [OF store_path_ops(4)] by (auto simp: spared_def)
    ultimately show ?thesis using w by (simp add: applyAction_def Inr d None spared_def)
  qed
qed

lemma create_for_spared:
  assumes "spared s" "create_for now ev d auto s = (a, t)"
  shows "spared t" and "Get (ea_ID a) (ks_store t) = Some a"
proof -
  have inv: "store_inv (ks_store s)" using assms(1) by (simp add: spared_def)
  let ?c = "Create now (de_ID ev) (de_ClientMAC ev) (de_ClientIP ev) (dc_ActionType d) (dc_Reason d)
     (dc_TTLSeconds d) auto (de_Domain ev) (ks_store s)"
  have t: "t = s \<lparr> ks_store := snd ?c \<rparr>" "a = fst ?c" using assms(2) by (auto simp: create_for_def split: prod.splits)
  show "spared t" unfolding t using active_target_Create [OF inv] by (intro spared_same_world assms(1)) auto
  show "Get (ea_ID a) (ks_store t) = Some a" unfolding t using Create_stored [OF inv] by (simp add: Create_action)
qed

lemma handleEvaluate_spared:
  assumes "spared s"
  shows "spared (snd (handleEvaluate now pol resolve abo body s))"
proof (cases body)
  case (Some ev)
  have c: "spared t \<and> spared (applyAction now resolve a t)" if "create_for now ev d b s = (a, t)" for d b a t
    using create_for_spared [OF assms that] applyAction_spared by blast
  then show ?thesis using assms by (auto simp: handleEvaluate_def Some Let_def split: prod.splits if_splits)
qed (simp add: handleEvaluate_def assms)

lemma handleApprove_spared:
  assumes "spared s"
  shows "spared (snd (handleApprove now resolve who i s))"
proof (cases "Approve now i (or_default who ''operator'') (ks_store s)")
  case (Pair e st)
  have t: "spared (s \<lparr> ks_store := st \<rparr>)"
    using active_target_quiet(1) [of _ now i "or_default who ''operator''" "ks_store s"] store_path_snd(1) [OF Pair] Pair
    by (intro spared_same_world assms) simp_all
  have "ea_ID a = i" if "Get i st = Some a" for a
    using t that by (simp add: spared_def store_inv_def Get_def)
  then have "spared (applyAction now resolve a (s \<lparr> ks_store := st \<rparr>))" if "Get i st = Some a" for a
    using applyAction_spared [OF t, of a now] that by simp
  with t show ?thesis by (auto simp: handleApprove_def Pair Let_def split: option.split)
qed

lemma handleReject_spared:
  assumes "spared s"
  shows "spared (snd (handleReject now r i s))"
proof (cases "Reject now i (or_default r ''rejected by operator'') (ks_store s)")
  case (Pair e st)
  have "spared (s \<lparr> ks_store := st \<rparr>)"
    using active_target_quiet(2) [of _ now i "or_default r ''rejected by operator''" "ks_store s"] store_path_snd(2) [OF Pair] Pair
    by (intro spared_same_world assms) simp_all
  then show ?thesis by (simp add: handleReject_def Pair split: option.split)
qed

lemma reverted_spared:
  assumes "spared s" "world_ok w"
  shows "spared (s \<lparr> ks_world := w, ks_store := snd (Revert now i r (ks_store s)) \<rparr>)"
  by (rule spared_store [OF assms(1) _ assms(2)]) (use active_target_quiet(3) in auto)

lemma finish_revert_spared: "spared s \<Longrightarrow> spared (snd (finish_revert now r i s))"
  using reverted_spared [of s "ks_world s" now i r]
  by (auto simp: finish_revert_def spared_def split: prod.splits option.splits)

lemma handleRevert_spared:
  assumes "spared s"
  shows "spared (snd (handleRevert now resolve r i s))"
proof -
  have w: "spared (s \<lparr> ks_world := w \<rparr>)" if "resolve ty = Inr drv" "drv_revert drv a (ks_world s) = (e, w)" for ty drv a e w
    using revert_ok [OF that(1), of "ks_world s" a] that(2) assms by (simp add: spared_def)
  have "spared (count_failure op (s \<lparr> ks_world := w \<rparr>) \<lparr> ks_store := RecordFailure now i e (ks_store s) \<rparr>)"
    if "spared (s \<lparr> ks_world := w \<rparr>)" for op w e
    using spared_failed [of "count_failure op (s \<lparr> ks_world := w \<rparr>)" now i e] that by simp
  then show ?thesis
    using assms w finish_revert_spared
    by (auto simp: handleRevert_def Let_def split: option.splits sum.splits prod.splits)
qed

lemma revertOne_spared:
  assumes "spared s"
  shows "spared (revertOne now resolve r a s)"
proof (cases "resolve (ea_ActionType a)")
  case (Inr drv)
  obtain e w where d: "drv_revert drv a (ks_world s) = (e, w)" by fastforce
  have w: "world_ok w" using revert_ok [OF Inr, of "ks_world s" a] d assms by (simp add: spared_def)
  show ?thesis
  proof (cases e)
    case None
    then show ?thesis using reverted_spared [OF assms w] by (simp add: revertOne_def Inr d)
  next
    case (Some err)
    then show ?thesis using spared_world [OF assms w] by (simp add: revertOne_def Inr d)
  qed
qed (simp add: revertOne_def assms)

lemma ttl_tick_spared: "spared s \<Longrightarrow> spared (ttl_tick now resolve s)"
proof -
  have "spared s \<Longrightarrow> spared (fold (revertOne now resolve r) as s)" for r as
    by (induction as arbitrary: s) (simp_all add: revertOne_spared)
  then show "spared s \<Longrightarrow> spared (ttl_tick now resolve s)" by (simp add: ttl_tick_def)
qed

lemma serve_spared: "spared s \<Longrightarrow> spared (snd (serve now cf jd resolve r s))"
proof -
  have "spared (snd (mux now cf jd resolve r s))" if "spared s" for s
    using that by (auto simp: mux_def Let_def handleEvaluate_spared handleApprove_spared handleReject_spared
        handleRevert_spared split: list.split option.split)
  moreover have "spared (s \<lparr> ks_rejected := x \<rparr>) = spared s" for s x by (simp add: spared_def)
  ultimately show "spared s \<Longrightarrow> spared (snd (serve now cf jd resolve r s))"
    by (simp add: serve_def authMiddleware_def reject_request_def)
qed

lemma ks_run_spared: "spared s \<Longrightarrow> spared (ks_run cf jd resolve background ev s)"
proof (cases ev)
  case (Controlled op)
  then show "spared s \<Longrightarrow> spared (ks_run cf jd resolve background ev s)"
    by (cases op) (simp_all add: serve_spared ttl_tick_spared)
next
  case (Background e)
  then show "spared s \<Longrightarrow> spared (ks_run cf jd resolve background ev s)"
    using background_ok [of "ks_world s" e] by (simp add: spared_def)
qed

text \<open>Whatever happens, no action with a refused target is active, and the drivers' state is in order.\<close>

lemma never_active:
  assumes "world_ok w" and s: "s = fold (ks_run cf jd resolve background) evs (startup_ctl env host now audit w)"
  shows "world_ok (ks_world s)" and "Get i (ks_store s) = Some a \<Longrightarrow> refused (act_target a) \<Longrightarrow> ea_State a \<noteq> StateActive"
proof -
  have "active_target i (startup_store env host now audit) = None" for i
    by (simp add: active_target_def startup_store_def NewStore_def Get_def Let_def)
  moreover have "store_inv (startup_store env host now audit)" by (simp add: startup_store_def NewStore_inv)
  ultimately have "spared (startup_ctl env host now audit w)" using assms(1) by (simp add: spared_def startup_ctl_def)
  moreover have "spared s \<Longrightarrow> spared (fold (ks_run cf jd resolve background) evs s)" for s
    by (induction evs arbitrary: s) (simp_all add: ks_run_spared)
  ultimately have s: "spared s" unfolding s by blast
  then show "world_ok (ks_world s)" by (simp add: spared_def)
  show "ea_State a \<noteq> StateActive" if a: "Get i (ks_store s) = Some a" "refused (act_target a)"
  proof
    assume "ea_State a = StateActive"
    with a have "active_target i (ks_store s) = Some (act_target a)" by (simp add: active_target_def)
    with s a(2) show False unfolding spared_def by blast
  qed
qed

end

end
