(* ===== verification/Layer2.thy ===== *)
theory Layer2
  imports Enforcement
begin

text \<open>
  Defence in depth of the killswitch: the controller with the drivers \<open>main.go\<close> gives it and the guard they share. The state
  behind the drivers is that of the ARP driver, the shared guard and the network. The sinkhole has no guard, so
  the property is about the two drivers that cut a device off at layer 2. The loops of the ARP driver run beside the requests.
\<close>

subsection \<open>The drivers of the program\<close>

text \<open>A driver that knows neither the guard nor the ARP driver.\<close>

definition on_network :: "'w driver \<Rightarrow> 'w arp_state driver" where
  "on_network drv =
     \<lparr> drv_name = drv_name drv,
       drv_apply = (\<lambda>a (d, g, w). case drv_apply drv a w of (e, w') \<Rightarrow> (e, d, g, w')),
       drv_revert = (\<lambda>a (d, g, w). case drv_revert drv a w of (e, w') \<Rightarrow> (e, d, g, w')) \<rparr>"

text \<open>The switch driver holds a pointer to the guard, so what counts is the guard at the time of the call.\<close>

definition shared_switch :: "'w http \<Rightarrow> (switch_request \<Rightarrow> string) \<Rightarrow> switch_port \<Rightarrow> 'w arp_state driver" where
  "shared_switch send marshal sp =
     \<lparr> drv_name = ''switch_acl'',
       drv_apply = (\<lambda>a (d, g, w). case switch_apply send marshal (sp \<lparr> sp_guard := g \<rparr>) a w of (e, w') \<Rightarrow> (e, d, g, w')),
       drv_revert = (\<lambda>a (d, g, w). case switch_revert send marshal (sp \<lparr> sp_guard := g \<rparr>) a w of (e, w') \<Rightarrow> (e, d, g, w')) \<rparr>"

definition startup_sinkhole :: "environment \<Rightarrow> sinkhole" where
  "startup_sinkhole env =
     NewSinkholeDriver (envOr env ''ADGUARD_URL'' ''http://adguard-web.dns.svc:3000'') (env ''ADGUARD_USER'') (env ''ADGUARD_PASSWORD'')"

text \<open>A stand-in for the state of the ARP driver where there is none.\<close>

definition no_arp :: arp_driver where
  "no_arp = \<lparr> ad_ifaceMAC = [], ad_ifaceIndex = 0, ad_gatewayIP = 0, ad_gatewayMAC = [], ad_gatewayAt = 0, ad_active = [] \<rparr>"

text \<open>Start-up: whether there is an ARP driver, and the state behind the drivers.\<close>

definition startup_arp :: "'w arp_os \<Rightarrow> instant \<Rightarrow> environment \<Rightarrow> policy \<Rightarrow> 'w \<Rightarrow> string option \<times> 'w arp_state" where
  "startup_arp os now env pol w =
     (let guard = Some (startup_guard env pol) in
      if env ''ARP_GATEWAY_IP'' \<noteq> [] then
        (case NewARPIsolateDriver os now (envOr env ''ARP_INTERFACE'' ''eth0'') (parse_ip (env ''ARP_GATEWAY_IP'')) guard w of
           (Inl e, g, w') \<Rightarrow> (Some e, no_arp, g, w')
         | (Inr d, g, w') \<Rightarrow> (None, d, g, w'))
      else (Some ''not configured'', no_arp, guard, w))"

record 'w surroundings =
  sr_os :: "'w arp_os"
  sr_clock :: "'w \<Rightarrow> instant"
  sr_done :: "'w \<Rightarrow> nat \<Rightarrow> bool"
  sr_adguard :: "'w adguard"
  sr_http :: "'w http"
  sr_marshal :: "switch_request \<Rightarrow> string"

definition startup_resolve :: "'w surroundings \<Rightarrow> environment \<Rightarrow> policy \<Rightarrow> string option \<Rightarrow> 'w arp_state resolver" where
  "startup_resolve sr env pol no_arp_driver =
     resolve_in (startup_drivers env (on_network (sinkhole_driver (sr_adguard sr) (startup_sinkhole env)))
       (case no_arp_driver of Some e \<Rightarrow> Inl e | None \<Rightarrow> Inr (arp_isolate_driver (sr_os sr) (sr_clock sr) (sr_done sr)))
       (shared_switch (sr_http sr) (sr_marshal sr)) (startup_guard env pol))"

text \<open>Another tick of the loop of an isolated device.\<close>

definition poison_loop :: "'w arp_os \<Rightarrow> instant \<times> string \<times> nat \<Rightarrow> 'w arp_state \<Rightarrow> 'w arp_state" where
  "poison_loop os = (\<lambda>(now, i, failures). arp_run os (ArpTick now i failures))"

subsection \<open>The guard only grows, and no loop runs against what it protects\<close>

definition at_least :: "target_guard \<Rightarrow> target_guard option \<Rightarrow> bool" where
  "at_least g0 guard = (case guard of None \<Rightarrow> False
     | Some g \<Rightarrow> (\<forall>m. guards_mac g0 m \<longrightarrow> guards_mac g m) \<and> (\<forall>i. guards_ip g0 i \<longrightarrow> guards_ip g i))"

definition shielded :: "target_guard \<Rightarrow> 'w arp_state \<Rightarrow> bool" where
  "shielded g0 = (\<lambda>(d, guard, w). at_least g0 guard
     \<and> (\<forall>i ip mac. mget (ad_active d) i = Some (ip, mac) \<longrightarrow> Check (Some g0) (mac_string mac) (v4_string ip) = None))"

lemma at_least_refl [simp]: "at_least g (Some g)"
  by (simp add: at_least_def)

lemma at_least_Check: "at_least g0 guard \<Longrightarrow> Check guard mac ip = None \<Longrightarrow> Check (Some g0) mac ip = None"
  by (auto simp: at_least_def Check_iff split: option.splits)

lemma at_least_refused: "at_least g0 guard \<Longrightarrow> Check (Some g0) mac ip \<noteq> None \<Longrightarrow> Check guard mac ip \<noteq> None"
  by (erule contrapos_nn) (rule at_least_Check)

lemma gateway_at_least:
  assumes "gatewayHardwareAddr os now d guard w = (r, d', guard')"
  shows "ad_active d' = ad_active d" and "at_least g0 guard \<Longrightarrow> at_least g0 guard'"
  using assms
  by (auto simp: gatewayHardwareAddr_def at_least_def Let_def tg.mac_in_add_mac tg.ip_in_add_mac
      split: if_splits sum.splits option.splits)

lemma parse_mac_key:
  assumes "parse_mac m = Some mac"
  shows "normalizeMACKey m = normalizeMACKey (mac_string mac)"
proof -
  have h: "to_lower (mac_hex m) = hex_encode mac" by (rule parse_mac_hex [OF assms])
  have "\<not> is_space c" if "c \<in> set m" for c
  proof (cases "is_mac_sep c")
    case False
    then have "c \<in> set (mac_hex m)" using that by (simp add: mac_hex_def)
    moreover have "\<forall>c \<in> set (to_lower (mac_hex m)). is_hex c" unfolding h using is_hex_hex_encode by blast
    ultimately have "is_hex c" using is_hex_to_lower_set by blast
    then show ?thesis by (rule hex_not_space)
  qed (rule sep_not_space)
  then have "trim_space m = m" by (intro trim_space_no_space) blast
  moreover have "trim_space (mac_string mac) = mac_string mac" by (intro trim_space_no_space) (use mac_string_no_space in auto)
  moreover have "to_lower (hex_encode mac) = hex_encode mac" unfolding h [symmetric] by (rule to_lower_idem)
  ultimately show ?thesis unfolding normalizeMACKey_eq using h by (simp add: mac_hex_mac_string)
qed

subsection \<open>An address the driver accepts is written without blanks\<close>

lemma v6_hex_chars: "v6_hex s off acc = Some (off', acc', rest) \<Longrightarrow> \<exists>p. s = p @ rest \<and> (\<forall>c \<in> set p. is_hex c)"
proof (induction s off acc rule: v6_hex.induct)
  case (2 c cs off acc)
  show ?case
  proof (cases "hex_val c")
    case None
    then show ?thesis using "2.prems" by simp
  next
    case (Some v)
    then have "v6_hex cs (Suc off) (16 * acc + v) = Some (off', acc', rest)" "\<not> off > 3" using "2.prems" by (auto split: if_splits)
    with "2.IH" [OF Some] obtain p where "cs = p @ rest" "\<forall>c \<in> set p. is_hex c" by blast
    then show ?thesis using Some by (intro exI [of _ "c # p"]) (simp add: is_hex_def)
  qed
qed simp

lemma v4_fields_chars:
  assumes "parse_v4_fields s = Some bs" "c \<in> set s"
  shows "is_digit c \<or> c = CHR ''.''"
proof -
  have d: "list_all is_digit f" if "octet f = Some b" for f b using that by (simp add: octet_def split: if_splits)
  let ?fs = "split_on (CHR ''.'') s"
  have "None \<notin> set (map octet ?fs)"
  proof
    assume "None \<in> set (map octet ?fs)"
    then show False using assms(1) unfolding parse_v4_fields_def by (auto split: list.splits option.splits simp del: set_map list.set_map)
  qed
  then have f: "\<forall>f \<in> set ?fs. list_all is_digit f" using d by (metis image_eqI list.set_map option.exhaust)
  have "set (join [CHR ''.''] ?fs) \<subseteq> {CHR ''.''} \<union> \<Union> (set ` set ?fs)" using set_join [of "[CHR ''.'']" ?fs] by simp
  then have "c \<in> {CHR ''.''} \<union> \<Union> (set ` set ?fs)" using assms(2) unfolding join_split_on by blast
  then show ?thesis using f by (auto simp: list_all_iff)
qed

definition addr_char :: "char \<Rightarrow> bool" where
  "addr_char c = (is_hex c \<or> is_digit c \<or> c = CHR '':'' \<or> c = CHR ''.'')"

lemma v6_loop_chars: "v6_loop n s acc el = Some (acc', el', []) \<Longrightarrow> \<forall>c \<in> set s. addr_char c"
proof (induction n s acc el rule: v6_loop.induct)
  case (2 n s acc el)
  obtain off v rest where h: "v6_hex s 0 0 = Some (off, v, rest)" "off \<noteq> 0" using "2.prems" by (auto split: option.splits if_splits)
  obtain p where p: "s = p @ rest" "\<forall>c \<in> set p. is_hex c" using v6_hex_chars [OF h(1)] by blast
  show ?case
  proof (cases "rest \<noteq> [] \<and> hd rest = CHR ''.''")
    case True
    then obtain b where "parse_v4_fields s = Some b" using "2.prems" h by (auto split: if_splits option.splits)
    then show ?thesis using v4_fields_chars by (auto simp: addr_char_def)
  next
    case nodot: False
    have "\<forall>c \<in> set rest. addr_char c"
    proof (cases rest)
      case (Cons c cs)
      let ?acc = "acc @ [of_nat (v div 256), of_nat (v mod 256)]"
      from "2.prems" h nodot Cons have c: "c = CHR '':''" "cs \<noteq> []" by (auto simp: Let_def split: if_splits)
      show ?thesis
      proof (cases "hd cs = CHR '':''")
        case True
        note cc = this
        show ?thesis
        proof (cases "tl cs = []")
          case True
          then show ?thesis using cc c Cons by (cases cs) (auto simp: addr_char_def)
        next
          case False
          then have "v6_loop n (tl cs) ?acc (Some (length ?acc)) = Some (acc', el', [])"
            using "2.prems" h nodot Cons c cc by (auto simp: Let_def split: if_splits)
          from "2.IH"(1) [OF h(1) refl refl _ _ refl Cons _ cc _ _ this] False
          have "\<forall>c \<in> set (tl cs). addr_char c" using h nodot c "2.prems" cc Cons by (auto simp: Let_def split: if_splits)
          then show ?thesis using cc c Cons by (cases cs) (auto simp: addr_char_def)
        qed
      next
        case False
        then have "v6_loop n cs ?acc el = Some (acc', el', [])"
          using "2.prems" h nodot Cons c by (auto simp: Let_def split: if_splits)
        from "2.IH"(2) [OF h(1) refl refl _ _ refl Cons _ False this]
        have "\<forall>c \<in> set cs. addr_char c" using h nodot c by simp
        then show ?thesis using c Cons by (auto simp: addr_char_def)
      qed
    qed simp
    then show ?thesis using p by (auto simp: addr_char_def)
  qed
qed simp

lemma parse_v6_chars:
  assumes "parse_v6 s = Some a" "zone_of a = []"
  shows "\<forall>c \<in> set s. addr_char c"
proof (cases "cut_at (CHR ''%'') s")
  case None
  let ?t = "if has_prefix s ''::'' then drop 2 s else s"
  have colons: "s = ''::'' @ drop 2 s" if "has_prefix s ''::''" using that by (auto simp: has_prefix_iff prefix_def)
  have f: "\<exists>acc el'. r = Some (acc, el', [])" if "v6_finish r = Some bs" for r bs
    using that by (auto simp: v6_finish_def split: if_splits option.splits)
  have "?t = [] \<or> (\<exists>el bs. v6_finish (v6_loop 8 ?t [] el) = Some bs)"
    using assms(1) None by (auto simp: parse_v6_def split: if_splits)
  then have t: "?t = [] \<or> (\<exists>el acc el'. v6_loop 8 ?t [] el = Some (acc, el', []))" using f by (elim disjE exE) (simp, fast)
  then have "\<forall>c \<in> set ?t. addr_char c"
  proof
    assume "?t = []"
    then show ?thesis by (simp only: list.set) simp
  next
    assume "\<exists>el acc el'. v6_loop 8 ?t [] el = Some (acc, el', [])"
    then obtain el acc el' where "v6_loop 8 ?t [] el = Some (acc, el', [])" by blast
    then show ?thesis by (rule v6_loop_chars)
  qed
  moreover have "set s \<subseteq> {CHR '':''} \<union> set ?t"
    using arg_cong [OF colons, of set] by (cases "has_prefix s ''::''") auto
  moreover have "addr_char (CHR '':'')" by (simp add: addr_char_def)
  ultimately show ?thesis by blast
next
  case (Some p)
  obtain b z where "p = (b, z)" by (cases p)
  with Some assms show ?thesis by (auto simp: parse_v6_def split: if_splits)
qed

lemma addr_char_not_space: "addr_char c \<Longrightarrow> \<not> is_space c"
  using digit_not_space hex_not_space by (auto simp: addr_char_def is_space_def)

lemma parse_ip_v4:
  assumes "parse_ip s = Some (IP4 w)"
  shows "\<exists>a. parse_addr (trim_space s) = Some a \<and> canonicalAddr a = IP4 w"
proof -
  obtain a where a: "parse_addr s = Some a" "zone_of a = []" "unmap a = IP4 w"
    using assms by (auto simp: parse_ip_def split: option.splits if_splits)
  have "\<forall>c \<in> set s. addr_char c"
  proof (cases a)
    case (IP4 v)
    then obtain bs where "parse_v4_fields s = Some bs"
      using a(1) by (auto simp: parse_addr_def parse_v6_def Let_def split: option.splits if_splits prod.splits)
    then show ?thesis using v4_fields_chars by (auto simp: addr_char_def)
  next
    case (IP6 v z)
    then have "parse_v6 s = Some a" using a(1) by (auto simp: parse_addr_def split: option.splits if_splits)
    then show ?thesis using a(2) by (rule parse_v6_chars)
  qed
  then have "trim_space s = s" by (intro trim_space_no_space) (use addr_char_not_space in blast)
  moreover have "canonicalAddr a = IP4 w" using a(2,3) by (cases a) (auto simp: canonicalAddr_def split: if_splits)
  ultimately show ?thesis using a(1) by simp
qed

lemma target_protected_alike:
  assumes "parseTarget a = Inr (ip, mac)"
  shows "guards_ip g (ea_TargetIP a) = guards_ip g (v4_string ip)" and "guards_mac g (ea_TargetMAC a) = guards_mac g (mac_string mac)"
proof -
  have p: "parse_ip (ea_TargetIP a) = Some (IP4 ip)" "parse_mac (ea_TargetMAC a) = Some mac"
    using assms by (auto simp: parseTarget_def split: option.splits addr.splits if_splits)
  show "guards_ip g (ea_TargetIP a) = guards_ip g (v4_string ip)"
    using parse_ip_v4 [OF p(1)] by (auto simp: guards_ip_def parse_addr_v4_string) (auto simp: canonicalAddr_def)
  show "guards_mac g (ea_TargetMAC a) = guards_mac g (mac_string mac)"
    unfolding guards_mac_def parse_mac_key [OF p(2)] ..
qed

subsection \<open>The drivers keep what is protected out of reach\<close>

lemma shielded_gateway:
  assumes "shielded g0 (d, guard, w)" "gatewayHardwareAddr os now d guard w = (r, d', guard')"
  shows "shielded g0 (d', guard', w')"
  using assms(1) gateway_at_least [OF assms(2)] by (simp add: shielded_def)

lemma shielded_world: "shielded g0 (d, guard, w) = shielded g0 (d, guard, w')"
  by (simp add: shielded_def)

lemma shielded_del: "shielded g0 (d, guard, w) \<Longrightarrow> shielded g0 (d \<lparr> ad_active := mdel i (ad_active d) \<rparr>, guard, w)"
  by (simp add: shielded_def mget_del)

lemma shielded_put:
  assumes "shielded g0 (d, guard, w)" "Check (Some g0) (mac_string mac) (v4_string ip) = None"
  shows "shielded g0 (d \<lparr> ad_active := mput i (ip, mac) (ad_active d) \<rparr>, guard, w)"
  using assms by (simp add: shielded_def mget_put)

lemma arp_apply_shielded:
  assumes "shielded g0 st"
  shows "shielded g0 (snd (arp_apply os now a st))"
proof -
  obtain d guard w where st: "st = (d, guard, w)" by (cases st)
  obtain r d' guard' where gw: "gatewayHardwareAddr os now d guard w = (r, d', guard')" by (cases "gatewayHardwareAddr os now d guard w")
  have g: "shielded g0 (d', guard', w')" for w'
    by (rule shielded_gateway [OF _ gw]) (use assms st in simp)
  have c: "Check (Some g0) (mac_string mac) (v4_string ip) = None"
    if "parseTarget a = Inr (ip, mac)" "Check guard (ea_TargetMAC a) (ea_TargetIP a) = None" for ip mac
    using at_least_Check [OF _ that(2)] target_protected_alike [OF that(1)] assms st by (simp add: shielded_def Check_iff)
  show ?thesis using assms c
    by (auto simp: st arp_apply_def gw g intro!: shielded_put split: sum.splits option.splits prod.splits)
qed

lemma arp_revert_shielded:
  assumes "shielded g0 st"
  shows "shielded g0 (snd (arp_revert os now done a st))"
proof -
  obtain d guard w where st: "st = (d, guard, w)" by (cases st)
  let ?d = "d \<lparr> ad_active := mdel (ea_ID a) (ad_active d) \<rparr>"
  have d: "shielded g0 (?d, guard, w')" for w' using shielded_del [of g0 d guard w'] assms st by (simp add: shielded_def)
  obtain r d' guard' where gw: "gatewayHardwareAddr os now ?d guard w = (r, d', guard')" by (cases "gatewayHardwareAddr os now ?d guard w")
  have g: "shielded g0 (d', guard', w')" for w'
    by (rule shielded_gateway [OF d gw])
  show ?thesis by (auto simp: st arp_revert_def Let_def gw d g split: sum.splits option.splits prod.splits)
qed

lemma poison_tick_shielded:
  assumes "shielded g0 st"
  shows "shielded g0 (snd (poison_tick os now t n st))"
proof -
  obtain d guard w where st: "st = (d, guard, w)" by (cases st)
  obtain r d' guard' where gw: "gatewayHardwareAddr os now d guard w = (r, d', guard')" by (cases "gatewayHardwareAddr os now d guard w")
  have g: "shielded g0 (d', guard', w')" for w'
    by (rule shielded_gateway [OF _ gw]) (use assms st in simp)
  show ?thesis by (auto simp: st poison_tick_def gw g split: sum.splits option.splits prod.splits)
qed

lemma poison_loop_shielded: "shielded g0 st \<Longrightarrow> shielded g0 (poison_loop os e st)"
  by (auto simp: poison_loop_def poison_tick_shielded split: prod.split option.split)

lemma network_shielded:
  "shielded g0 st \<Longrightarrow> shielded g0 (snd (drv_apply (on_network drv) a st))"
  "shielded g0 st \<Longrightarrow> shielded g0 (snd (drv_revert (on_network drv) a st))"
  by (cases st; simp add: on_network_def shielded_def split: prod.split)+

lemma switch_shielded:
  "shielded g0 st \<Longrightarrow> shielded g0 (snd (drv_apply (shared_switch send marshal sp) a st))"
  "shielded g0 st \<Longrightarrow> shielded g0 (snd (drv_revert (shared_switch send marshal sp) a st))"
  by (cases st; simp add: shared_switch_def shielded_def split: prod.split)+

lemma isolate_shielded:
  "shielded g0 st \<Longrightarrow> shielded g0 (snd (drv_apply (arp_isolate_driver os clock done) a st))"
  "shielded g0 st \<Longrightarrow> shielded g0 (snd (drv_revert (arp_isolate_driver os clock done) a st))"
  by (simp_all add: arp_isolate_driver_def arp_apply_shielded arp_revert_shielded)

subsection \<open>The driver map\<close>

lemma startup_resolve_cases:
  assumes "startup_resolve sr env pol na ty = Inr drv"
  obtains (sinkhole) "ty = ActionDNSSinkhole" "drv = on_network (sinkhole_driver (sr_adguard sr) (startup_sinkhole env))"
  | (arp) "ty = ActionARPIsolate" "drv = arp_isolate_driver (sr_os sr) (sr_clock sr) (sr_done sr)"
  | (switch) sp where "ty = ActionSwitchACL" "drv = shared_switch (sr_http sr) (sr_marshal sr) sp"
  using assms
  by (auto simp: startup_resolve_def resolve_in_def startup_drivers_def Let_def mget_put split: if_splits option.splits)

fun layer2_refused :: "target_guard \<Rightarrow> target \<Rightarrow> bool" where
  "layer2_refused g (Target ty mac ip) = (ty \<in> {ActionARPIsolate, ActionSwitchACL} \<and> Check (Some g) mac ip \<noteq> None)"

interpretation l2: refusing "startup_resolve sr env pol na" "poison_loop (sr_os sr)" "shielded g0" "layer2_refused g0"
  for sr :: "'w surroundings" and env pol na g0
proof
  fix ty and drv :: "'w arp_state driver" and w :: "'w arp_state" and a
  assume r: "startup_resolve sr env pol na ty = Inr drv" and w: "shielded g0 w"
  show "shielded g0 (snd (drv_apply drv a w))"
    using r by (cases rule: startup_resolve_cases) (use w in \<open>simp_all add: network_shielded switch_shielded isolate_shielded\<close>)
  show "shielded g0 (snd (drv_revert drv a w))"
    using r by (cases rule: startup_resolve_cases) (use w in \<open>simp_all add: network_shielded switch_shielded isolate_shielded\<close>)
next
  fix a and drv :: "'w arp_state driver" and w :: "'w arp_state"
  assume r: "startup_resolve sr env pol na (ea_ActionType a) = Inr drv" and w: "shielded g0 w" and x: "layer2_refused g0 (act_target a)"
  obtain d guard n where wd: "w = (d, guard, n)" by (cases w)
  have "at_least g0 guard" "Check (Some g0) (ea_TargetMAC a) (ea_TargetIP a) \<noteq> None"
    using w x by (simp_all add: wd shielded_def act_target_def)
  then have c: "Check guard (ea_TargetMAC a) (ea_TargetIP a) \<noteq> None" by (rule at_least_refused)
  show "fst (drv_apply drv a w) \<noteq> None"
    using r
  proof (cases rule: startup_resolve_cases)
    case sinkhole
    with x show ?thesis by (simp add: act_target_def)
  next
    case arp
    then show ?thesis using c by (auto simp: wd arp_isolate_driver_def arp_apply_def split: sum.split option.split)
  next
    case (switch sp)
    then show ?thesis using c by (auto simp: wd shared_switch_def switch_apply_def split: option.split)
  qed
qed (rule poison_loop_shielded)

subsection \<open>Protected devices are never cut off\<close>

lemma startup_arp_shielded:
  assumes "startup_arp os now env pol w = (na, d, guard, w')"
  shows "\<exists>g. guard = Some g \<and> at_least (startup_guard env pol) guard \<and> shielded g (d, guard, w')"
proof (cases "env ''ARP_GATEWAY_IP'' = []")
  case True
  then show ?thesis using assms by (auto simp: startup_arp_def shielded_def no_arp_def)
next
  case False
  obtain r guard1 w1 where n: "NewARPIsolateDriver os now (envOr env ''ARP_INTERFACE'' ''eth0'') (parse_ip (env ''ARP_GATEWAY_IP''))
      (Some (startup_guard env pol)) w = (r, guard1, w1)" by (cases "NewARPIsolateDriver os now (envOr env ''ARP_INTERFACE'' ''eth0'')
      (parse_ip (env ''ARP_GATEWAY_IP'')) (Some (startup_guard env pol)) w")
  then have "(\<exists>g. guard1 = Some g) \<and> at_least (startup_guard env pol) guard1 \<and> (\<forall>d. r = Inr d \<longrightarrow> ad_active d = [])"
    by (auto simp: NewARPIsolateDriver_def Let_def at_least_def tg.mac_in_add_mac tg.ip_in_add_mac tg.ip_in_add_ip tg.mac_in_add_ip
        split: option.splits sum.splits prod.splits if_splits addr.splits)
  then show ?thesis using assms False n by (cases r) (auto simp: startup_arp_def shielded_def no_arp_def)
qed

definition network_history :: "'w surroundings \<Rightarrow> environment \<Rightarrow> string option \<Rightarrow> audit_writer option \<Rightarrow> config \<Rightarrow> json_dec \<Rightarrow> instant \<Rightarrow> 'w
    \<Rightarrow> (instant \<times> string \<times> nat) ks_event list \<Rightarrow> 'w arp_state ctl" where
  "network_history sr env host audit cf jd start w evs =
     (let (na, st) = startup_arp (sr_os sr) start env (cf_policy cf) w
      in fold (ks_run cf jd (startup_resolve sr env (cf_policy cf) na) (poison_loop (sr_os sr))) evs
           (startup_ctl env host start audit st))"

text \<open>
  Property C11. Protected devices are never cut off at layer 2. Let the killswitch start, with any environment, network and
  policy, and let any requests, TTL ticks and ticks of the ARP loops follow, whoever approves what. An ARP or switch action
  whose device the guard of start-up refuses is never active, and no ARP loop runs against an address or MAC that guard refuses.
  That guard covers at least the gateway address and the allowlist, as \<open>startup_guard\<close> collects them.
\<close>

theorem protected_never_cut_off:
  fixes sr env host audit cf jd start w evs
  defines "guard \<equiv> fst (snd (snd (startup_arp (sr_os sr) start env (cf_policy cf) w)))"
  defines "s \<equiv> network_history sr env host audit cf jd start w evs"
  shows "(\<forall>i a. Get i (ks_store s) = Some a \<and> ea_ActionType a \<in> {ActionARPIsolate, ActionSwitchACL}
        \<and> Check guard (ea_TargetMAC a) (ea_TargetIP a) \<noteq> None \<longrightarrow> ea_State a \<noteq> StateActive)
    \<and> (\<forall>i ip mac. mget (ad_active (fst (ks_world s))) i = Some (ip, mac) \<longrightarrow> Check guard (mac_string mac) (v4_string ip) = None)
    \<and> (\<forall>mac ip. Check (Some (startup_guard env (cf_policy cf))) mac ip \<noteq> None \<longrightarrow> Check guard mac ip \<noteq> None)"
proof -
  obtain na d gd w' where b: "startup_arp (sr_os sr) start env (cf_policy cf) w = (na, d, gd, w')"
    by (cases "startup_arp (sr_os sr) start env (cf_policy cf) w")
  from startup_arp_shielded [OF b]
  obtain g where g: "gd = Some g" "at_least (startup_guard env (cf_policy cf)) gd" "shielded g (d, gd, w')" by (elim exE conjE)
  have gd: "guard = Some g" by (simp add: guard_def b g(1))
  have s: "s = fold (ks_run cf jd (startup_resolve sr env (cf_policy cf) na) (poison_loop (sr_os sr))) evs
      (startup_ctl env host start audit (d, gd, w'))" by (simp add: s_def network_history_def b)
  show ?thesis
  proof (intro conjI allI impI)
    fix i a
    assume "Get i (ks_store s) = Some a \<and> ea_ActionType a \<in> {ActionARPIsolate, ActionSwitchACL}
        \<and> Check guard (ea_TargetMAC a) (ea_TargetIP a) \<noteq> None"
    then show "ea_State a \<noteq> StateActive"
      using l2.never_active(2) [OF g(3) s, of i a] by (simp add: act_target_def gd)
  next
    fix i ip mac
    assume "mget (ad_active (fst (ks_world s))) i = Some (ip, mac)"
    then show "Check guard (mac_string mac) (v4_string ip) = None"
      using l2.never_active(1) [OF g(3) s] by (cases "ks_world s") (simp add: shielded_def gd)
  next
    fix mac ip
    assume "Check (Some (startup_guard env (cf_policy cf))) mac ip \<noteq> None"
    with g(2) show "Check guard mac ip \<noteq> None" unfolding gd g(1) [symmetric] by (rule at_least_refused)
  qed
qed

definition sample_surroundings :: "byte list list surroundings" where
  "sample_surroundings = \<lparr> sr_os = sample_os, sr_clock = (\<lambda>_. 0), sr_done = (\<lambda>_ _. False),
     sr_adguard = \<lparr> ag_do = (\<lambda>r w. (Response 200 [], w)), ag_decode = (\<lambda>_. Inr []), ag_encode = (\<lambda>_. []) \<rparr>,
     sr_http = (\<lambda>r w. (Response 200 [], w)), sr_marshal = (\<lambda>_. []) \<rparr>"

definition gateway_env :: environment where
  "gateway_env = (\<lambda>k. if k = ''ARP_GATEWAY_IP'' then ''192.168.1.1'' else [])"

text \<open>A policy that isolates, and two detections: the empty body names the gateway, any other an ordinary device.\<close>

definition isolating_config :: config where
  "isolating_config = sample_config \<lparr> cf_policy := DefaultPolicy \<lparr> DefaultAction := ActionARPIsolate \<rparr> \<rparr>"

definition gateway_dec :: json_dec where
  "gateway_dec = sample_dec \<lparr> jd_event := (\<lambda>b. Some (if b = [] then sample_event \<lparr> de_ClientIP := ''192.168.1.1'' \<rparr> else sample_event)) \<rparr>"

definition gateway_events :: "(instant \<times> string \<times> nat) ks_event list" where
  "gateway_events = [Controlled (Serve 1 sample_request), Controlled (Serve 2 (sample_request \<lparr> rq_body := [1] \<rparr>)),
      Background (3, ''ACT-node-0-2'', 0)]"

text \<open>Start-up and the two requests, to evaluate the history step by step.\<close>

definition gateway_start :: "byte list list arp_state" where
  "gateway_start = snd (startup_arp sample_os 0 gateway_env (cf_policy isolating_config) [])"

definition gateway_resolve :: "byte list list arp_state resolver" where
  "gateway_resolve = startup_resolve sample_surroundings gateway_env (cf_policy isolating_config) None"

definition after_requests :: "byte list list arp_state ctl" where
  "after_requests = snd (serve 2 isolating_config gateway_dec gateway_resolve (sample_request \<lparr> rq_body := [1] \<rparr>)
     (snd (serve 1 isolating_config gateway_dec gateway_resolve sample_request (startup_ctl gateway_env (Some ''node'') 0 None gateway_start))))"

lemma gateway_history_steps:
  "network_history sample_surroundings gateway_env (Some ''node'') None isolating_config gateway_dec 0 [] gateway_events
    = after_requests \<lparr> ks_world := poison_loop sample_os (3, ''ACT-node-0-2'', 0) (ks_world after_requests) \<rparr>"
proof -
  have os: "sr_os sample_surroundings = sample_os" by (simp add: sample_surroundings_def)
  have "fst (startup_arp sample_os 0 gateway_env (cf_policy isolating_config) []) = None" by code_simp
  then have "startup_arp sample_os 0 gateway_env (cf_policy isolating_config) [] = (None, gateway_start)"
    by (simp add: gateway_start_def prod_eq_iff)
  then show ?thesis
    by (simp only: network_history_def os Let_def prod.case gateway_events_def fold_simps ks_run.simps ctl_run.simps
        gateway_resolve_def [symmetric] after_requests_def)
qed

lemma gateway_requests:
  "case Get ''ACT-node-0-1'' (ks_store after_requests) of None \<Rightarrow> False
   | Some a \<Rightarrow> ea_TargetIP a = ''192.168.1.1'' \<and> ea_ActionType a = ActionARPIsolate
      \<and> Check (fst (snd gateway_start)) (ea_TargetMAC a) (ea_TargetIP a) \<noteq> None"
  "ks_state ''ACT-node-0-2'' after_requests = Some StateActive"
  "length (snd (snd (poison_loop sample_os (3, ''ACT-node-0-2'', 0) (ks_world after_requests)))) = 4"
  by code_simp+

theorem protected_never_cut_off_witness:
  "let s = network_history sample_surroundings gateway_env (Some ''node'') None isolating_config gateway_dec 0 [] gateway_events
   in (case Get ''ACT-node-0-1'' (ks_store s) of None \<Rightarrow> False
       | Some a \<Rightarrow> ea_ActionType a = ActionARPIsolate \<and> ea_TargetIP a = ''192.168.1.1'' \<and> ea_State a \<noteq> StateActive)
     \<and> ks_state ''ACT-node-0-2'' s = Some StateActive \<and> length (snd (snd (ks_world s))) = 4"
proof -
  obtain a where a: "Get ''ACT-node-0-1'' (ks_store after_requests) = Some a" "ea_TargetIP a = ''192.168.1.1''"
      "ea_ActionType a = ActionARPIsolate" "Check (fst (snd gateway_start)) (ea_TargetMAC a) (ea_TargetIP a) \<noteq> None"
    using gateway_requests(1) by (cases "Get ''ACT-node-0-1'' (ks_store after_requests)") auto
  have os: "sr_os sample_surroundings = sample_os" by (simp add: sample_surroundings_def)
  have "ea_State a \<noteq> StateActive"
    using protected_never_cut_off [where sr = sample_surroundings and start = 0 and env = gateway_env and cf = isolating_config and w = "[]"
        and host = "Some ''node''" and audit = None and jd = gateway_dec and evs = gateway_events] a
    unfolding gateway_history_steps os by (simp add: gateway_start_def)
  then show ?thesis unfolding gateway_history_steps Let_def using a gateway_requests(2,3) by simp
qed

end
