(* ===== verification/IocMatch.thy ===== *)
theory IocMatch
  imports Events
begin

text \<open>
  \<open>detection-engine/internal/iocmatch\<close>: validation of feed-supplied domains (\<open>validate.go\<close>), severity and
  ATT\&CK derivation (\<open>severity.go\<close>), and the matcher with its four indicator maps (\<open>matcher.go\<close>). The matcher's
  mutex makes Add and each lookup atomic. Counters are the result of \<open>Add\<close>; log lines are not modelled.
\<close>

record ioc =
  ioc_Value :: string
  ioc_Type :: string
  ioc_Source :: string
  ioc_Threat :: string
  ioc_Confidence :: int
  ioc_Tags :: "string list"
  ioc_Severity :: string
  ioc_MitreID :: string
  ioc_MitreName :: string

definition publicSuffixes :: "string list" where
  "publicSuffixes =
    [''com'', ''net'', ''org'', ''edu'', ''gov'', ''mil'',
     ''int'', ''info'', ''biz'', ''name'', ''pro'', ''app'',
     ''dev'', ''io'', ''co'', ''me'', ''tv'', ''cc'',
     ''xyz'', ''top'', ''online'', ''site'', ''shop'', ''cloud'',
     ''live'', ''icu'', ''vip'', ''pl'', ''de'', ''uk'',
     ''fr'', ''nl'', ''it'', ''es'', ''cz'', ''sk'',
     ''ru'', ''ua'', ''eu'', ''us'', ''ca'', ''cn'',
     ''jp'', ''br'', ''in'', ''au'', ''ch'', ''at'',
     ''be'', ''se'', ''no'', ''dk'', ''fi'', ''ie'',
     ''pt'', ''co.uk'', ''org.uk'', ''gov.uk'', ''ac.uk'', ''me.uk'',
     ''com.au'', ''net.au'', ''org.au'', ''com.br'', ''com.cn'', ''co.jp'',
     ''com.pl'', ''net.pl'', ''org.pl'', ''gov.pl'', ''co.nz'', ''co.za'',
     ''com.mx'', ''com.tr'', ''co.in'', ''duckdns.org'', ''no-ip.org'', ''ddns.net'',
     ''dyndns.org'', ''hopto.org'', ''zapto.org'', ''serveo.net'', ''ngrok.io'', ''herokuapp.com'',
     ''azurewebsites.net'', ''cloudfront.net'', ''amazonaws.com'', ''blob.core.windows.net'', ''firebaseapp.com'', ''web.app'',
     ''pages.dev'', ''workers.dev'', ''github.io'', ''netlify.app'', ''vercel.app'', ''glitch.me'',
     ''repl.co'']"

definition minDomainLabels :: nat where
  [simp]: "minDomainLabels = 2"

datatype domain_reject = RejEmpty | RejTooLong nat | RejIllegal string | RejBareSuffix string nat
  | RejEmptyLabel string | RejLongLabel string | RejMalformed string string | RejPublicSuffix string

definition illegal_chars :: string where
  "illegal_chars = [CHR '' '', CHR 0x09, CHR 0x0D, CHR 0x0A, CHR ''/'', CHR 0x5C, CHR ''?'', CHR ''#'', CHR ''@'', CHR '':'']"

text \<open>The loop over the labels.\<close>

fun check_labels :: "string \<Rightarrow> string list \<Rightarrow> domain_reject option" where
  "check_labels d [] = None"
| "check_labels d (l # ls) =
     (if l = [] then Some (RejEmptyLabel d)
      else if length l > 63 then Some (RejLongLabel d)
      else if has_prefix l ''-'' \<or> has_suffix l ''-'' then Some (RejMalformed d l)
      else check_labels d ls)"

definition ValidateDomainIndicator :: "string \<Rightarrow> domain_reject + string" where
  "ValidateDomainIndicator value =
     (let d = to_lower (trim_space value);
          d = trim_suffix d ''.'';
          d = trim_prefix d ''*.''
      in if d = [] then Inl RejEmpty
         else if length d > 253 then Inl (RejTooLong (length d))
         else if contains_any d illegal_chars then Inl (RejIllegal value)
         else let labels = split_on (CHR ''.'') d in
           if length labels < minDomainLabels then Inl (RejBareSuffix d (length labels))
           else case check_labels d labels of
               Some e \<Rightarrow> Inl e
             | None \<Rightarrow> if d \<in> set publicSuffixes then Inl (RejPublicSuffix d) else Inr d)"

subsection \<open>Severity and technique\<close>

definition DeriveSeverity :: "ioc \<Rightarrow> string" where
  "DeriveSeverity i =
     (if ioc_Confidence i \<ge> 90 then ''critical'' else if ioc_Confidence i \<ge> 70 then ''high''
      else if ioc_Confidence i \<ge> 50 then ''medium'' else ''low'')"

definition containsAny :: "string \<Rightarrow> string list \<Rightarrow> bool" where
  "containsAny s terms = list_ex (contains_sub s) terms"

definition DeriveMitre :: "ioc \<Rightarrow> string \<times> string" where
  "DeriveMitre i =
     (let lower = join '' '' (ioc_Tags i) @ '' '' @ to_lower (ioc_Threat i) in
      if containsAny lower [''c2'', ''botnet'', ''command'', ''control''] then (''T1071'', ''Application Layer Protocol'') else
      if containsAny lower [''malware_download'', ''payload'', ''dropper''] then (''T1105'', ''Ingress Tool Transfer'') else
      if containsAny lower [''phishing'', ''credential''] then (''T1566'', ''Phishing'') else
      if containsAny lower [''exfil'', ''stealer''] then (''T1041'', ''Exfiltration Over C2 Channel'') else
      if containsAny lower [''dga'', ''dynamic''] then (''T1568'', ''Dynamic Resolution'') else
      if containsAny lower [''miner'', ''crypto''] then (''T1496'', ''Resource Hijacking'') else
      if containsAny lower [''scan'', ''recon''] then (''T1595'', ''Active Scanning'') else
      if ioc_Type i = ''domain'' then (''T1071.004'', ''Application Layer Protocol: DNS'')
      else if ioc_Type i = ''ip'' then (''T1095'', ''Non-Application Layer Protocol'')
      else if ioc_Type i = ''url'' then (''T1071.001'', ''Application Layer Protocol: Web Protocols'')
      else if ioc_Type i = ''ja3'' \<or> ioc_Type i = ''tlsfp'' then (''T1071.001'', ''Application Layer Protocol: Web Protocols'')
      else (''T1071'', ''Application Layer Protocol''))"

subsection \<open>The matcher\<close>

record cidr_entry =
  ce_net :: ipnet
  ce_ioc :: ioc

record matcher =
  mt_domains :: "(string, ioc) gomap"
  mt_ips :: "(string, ioc) gomap"
  mt_cidrs :: "(string, cidr_entry) gomap"
  mt_hashes :: "(string, ioc) gomap"

definition NewMatcher :: matcher where
  "NewMatcher = \<lparr> mt_domains = [], mt_ips = [], mt_cidrs = [], mt_hashes = [] \<rparr>"

text \<open>\<open>net.IP.String\<close> and \<open>net.IPNet.String\<close> are the keys.\<close>

definition keep_stronger :: "('v \<Rightarrow> int) \<Rightarrow> 'k \<Rightarrow> 'v \<Rightarrow> ('k, 'v) gomap \<Rightarrow> ('k, 'v) gomap" where
  "keep_stronger conf k v m =
     (case mget m k of None \<Rightarrow> mput k v m | Some old \<Rightarrow> if conf v \<ge> conf old then mput k v m else m)"

text \<open>One iteration of the loop of \<open>Add\<close>; the flag says whether the indicator was accepted.\<close>

definition add_one :: "ioc \<Rightarrow> matcher \<Rightarrow> bool \<times> matcher" where
  "add_one i0 m =
     (let i1 = i0 \<lparr> ioc_Severity := DeriveSeverity i0 \<rparr>;
          i = i1 \<lparr> ioc_MitreID := fst (DeriveMitre i1), ioc_MitreName := snd (DeriveMitre i1) \<rparr>
      in if ioc_Type i = ''domain'' then
           (case ValidateDomainIndicator (ioc_Value i) of
              Inl e \<Rightarrow> (False, m)
            | Inr domain \<Rightarrow>
                (True, m \<lparr> mt_domains := keep_stronger ioc_Confidence domain (i \<lparr> ioc_Value := domain \<rparr>) (mt_domains m) \<rparr>))
         else if ioc_Type i = ''ip'' then
           (if contains_char (ioc_Value i) (CHR ''/'') then
              (case parse_cidr (trim_space (ioc_Value i)) of
                 None \<Rightarrow> (False, m)
               | Some (net, ones, bits) \<Rightarrow>
                   if ones = 0 \<and> bits > 0 then (False, m)
                   else (True, m \<lparr> mt_cidrs := keep_stronger (\<lambda>e. ioc_Confidence (ce_ioc e)) (ipnet_string net)
                           \<lparr> ce_net = net, ce_ioc = i \<rparr> (mt_cidrs m) \<rparr>))
            else
              (let host0 = trim_space (ioc_Value i);
                   host = (case split_host_port host0 of Some (h, _) \<Rightarrow> h | None \<Rightarrow> host0)
               in case parse_ip host of
                    None \<Rightarrow> (False, m)
                  | Some a \<Rightarrow>
                      (let key = addr_string a in
                       (True, m \<lparr> mt_ips := keep_stronger ioc_Confidence key (i \<lparr> ioc_Value := key \<rparr>) (mt_ips m) \<rparr>))))
         else if ioc_Type i \<in> {''ja3'', ''tlsfp'', ''md5'', ''sha256''} then
           (let key = to_lower (trim_space (ioc_Value i)) in
            if key = [] then (False, m)
            else (True, m \<lparr> mt_hashes := keep_stronger ioc_Confidence key i (mt_hashes m) \<rparr>))
         else (False, m))"

fun Add :: "ioc list \<Rightarrow> matcher \<Rightarrow> (nat \<times> nat) \<times> matcher" where
  "Add [] m = ((0, 0), m)"
| "Add (i # is) m =
     (let (ok, m1) = add_one i m; ((a, r), m2) = Add is m1
      in ((if ok then Suc a else a, if ok then r else Suc r), m2))"

text \<open>The loop of \<open>MatchDomain\<close> over the parents of the name.\<close>

fun match_suffixes :: "(string, ioc) gomap \<Rightarrow> string list \<Rightarrow> ioc option" where
  "match_suffixes m [] = None"
| "match_suffixes m (p # ps) =
     (case mget m (join ''.'' (p # ps)) of Some i \<Rightarrow> Some i | None \<Rightarrow> match_suffixes m ps)"

definition MatchDomain :: "matcher \<Rightarrow> string \<Rightarrow> ioc option" where
  "MatchDomain m domain =
     match_suffixes (mt_domains m) (split_on (CHR ''.'') (to_lower (trim_suffix domain ''.'')))"

definition MatchIP :: "matcher \<Rightarrow> string \<Rightarrow> ioc option" where
  "MatchIP m ip =
     (case parse_ip (trim_space ip) of
        None \<Rightarrow> None
      | Some a \<Rightarrow>
          (case mget (mt_ips m) (addr_string a) of
             Some i \<Rightarrow> Some i
           | None \<Rightarrow> map_option (\<lambda>(_, e). ce_ioc e) (find (\<lambda>(_, e). ipnet_contains (ce_net e) a) (mt_cidrs m))))"

definition MatchHash :: "matcher \<Rightarrow> string \<Rightarrow> ioc option" where
  "MatchHash m hash = mget (mt_hashes m) (to_lower hash)"

definition Size :: "matcher \<Rightarrow> nat" where
  "Size m = length (mt_domains m) + length (mt_ips m) + length (mt_cidrs m) + length (mt_hashes m)"

definition CIDRCount :: "matcher \<Rightarrow> nat" where
  "CIDRCount m = length (mt_cidrs m)"

text \<open>\<open>LoadDomainsFromFile\<close> on the content of the file.\<close>

fun load_lines :: "string list \<Rightarrow> ioc list" where
  "load_lines [] = []"
| "load_lines (raw # rest) =
     (let line = trim_space raw in
      if line = [] \<or> has_prefix line ''#'' then load_lines rest
      else \<lparr> ioc_Value = to_lower line, ioc_Type = ''domain'', ioc_Source = ''local'', ioc_Threat = [],
             ioc_Confidence = 80, ioc_Tags = [''static''], ioc_Severity = [], ioc_MitreID = [], ioc_MitreName = [] \<rparr>
           # load_lines rest)"

definition LoadDomainsFromFile :: "string option \<Rightarrow> ioc list option" where
  "LoadDomainsFromFile content = map_option (\<lambda>c. load_lines (split_on (CHR 0x0A) c)) content"

subsection \<open>The address of the feed (\<open>sync.go\<close>)\<close>

definition exportURL :: "string \<Rightarrow> string" where
  "exportURL base =
     (let trimmed = trim_right_char (trim_space base) (CHR ''/'') in
      if has_suffix trimmed ''/export/json'' then trimmed else trimmed @ ''/export/json'')"

text \<open>
  One synchronisation: the answer of the feed service is a parameter, \<open>None\<close> when the request fails, else
  the status and the rows, if the body decodes. The result is the label of the failure counter that is
  incremented, with the number of rejected rows for \<open>invalid_indicator\<close>, and the matcher.
\<close>

record feed_row =
  fr_Type :: string
  fr_Value :: string
  fr_Source :: string
  fr_Threat :: string
  fr_Confidence :: int
  fr_Tags :: "string list"

definition row_ioc :: "feed_row \<Rightarrow> ioc" where
  "row_ioc r = \<lparr> ioc_Value = fr_Value r, ioc_Type = fr_Type r, ioc_Source = fr_Source r, ioc_Threat = fr_Threat r,
     ioc_Confidence = fr_Confidence r, ioc_Tags = fr_Tags r, ioc_Severity = [], ioc_MitreID = [], ioc_MitreName = [] \<rparr>"

definition syncOnce ::
  "(string \<Rightarrow> (int \<times> feed_row list option) option) \<Rightarrow> string \<Rightarrow> matcher \<Rightarrow> (string \<times> nat) option \<times> matcher" where
  "syncOnce fetch url m =
     (case fetch (exportURL url) of
        None \<Rightarrow> (Some (''fetch'', 1), m)
      | Some (status, body) \<Rightarrow>
          if status \<noteq> 200 then (Some (''status'', 1), m)
          else (case body of
                  None \<Rightarrow> (Some (''decode'', 1), m)
                | Some rows \<Rightarrow>
                    (case Add (List.map row_ioc rows) m of
                       ((added, rejected), m') \<Rightarrow>
                         (if rejected > 0 then Some (''invalid_indicator'', rejected) else None, m'))))"

lemma syncOnce_branches [branch]:
  "fetch (exportURL url) = None \<Longrightarrow> syncOnce fetch url m = (Some (''fetch'', 1), m)"
  "fetch (exportURL url) = Some (status, body) \<Longrightarrow> status \<noteq> 200 \<Longrightarrow> syncOnce fetch url m = (Some (''status'', 1), m)"
  "fetch (exportURL url) = Some (200, None) \<Longrightarrow> syncOnce fetch url m = (Some (''decode'', 1), m)"
  "fetch (exportURL url) = Some (200, Some rows) \<Longrightarrow> snd (syncOnce fetch url m) = snd (Add (List.map row_ioc rows) m)"
  by (simp_all add: syncOnce_def split: prod.split)

subsection \<open>What is accepted as a domain\<close>

lemma check_labels_None:
  "check_labels d ls = None \<longleftrightarrow>
     (\<forall>l \<in> set ls. l \<noteq> [] \<and> length l \<le> 63 \<and> \<not> has_prefix l ''-'' \<and> \<not> has_suffix l ''-'')"
  by (induction ls) auto

definition broad_domain :: "string \<Rightarrow> bool" where
  "broad_domain d \<longleftrightarrow> length (split_on (CHR ''.'') d) < 2 \<or> d \<in> set publicSuffixes"

lemma ValidateDomainIndicator_steps:
  assumes "ValidateDomainIndicator v = Inr d"
  shows "length d \<le> 253 \<and> \<not> contains_any d illegal_chars \<and> \<not> length (split_on (CHR ''.'') d) < 2
     \<and> check_labels d (split_on (CHR ''.'') d) = None \<and> d \<notin> set publicSuffixes"
proof -
  define e where "e = trim_prefix (trim_suffix (to_lower (trim_space v)) ''.'') ''*.''"
  note val = assms [unfolded ValidateDomainIndicator_def Let_def, folded e_def]
  have "e \<noteq> []" "\<not> 253 < length e" "\<not> contains_any e illegal_chars" "\<not> length (split_on (CHR ''.'') e) < minDomainLabels"
    using val by (force split: if_splits)+
  note val = val [simplified this if_False]
  then have "check_labels e (split_on (CHR ''.'') e) = None" by (cases "check_labels e (split_on (CHR ''.'') e)") simp_all
  note val = val [unfolded this option.case]
  then have "e \<notin> set publicSuffixes" by (rule_tac notI) simp
  with val have "e = d" by simp
  with \<open>e \<notin> set publicSuffixes\<close> \<open>\<not> 253 < length e\<close> \<open>\<not> contains_any e illegal_chars\<close>
    \<open>\<not> length (split_on (CHR ''.'') e) < minDomainLabels\<close> \<open>check_labels e (split_on (CHR ''.'') e) = None\<close>
  show ?thesis by simp
qed

lemma ValidateDomainIndicator_ok:
  assumes "ValidateDomainIndicator v = Inr d"
  shows "\<not> broad_domain d \<and> length d \<le> 253 \<and> \<not> contains_any d illegal_chars
     \<and> (\<forall>l \<in> set (split_on (CHR ''.'') d). l \<noteq> [] \<and> length l \<le> 63 \<and> \<not> has_prefix l ''-'' \<and> \<not> has_suffix l ''-'')"
proof -
  note st = ValidateDomainIndicator_steps [OF assms]
  from st have "check_labels d (split_on (CHR ''.'') d) = None" by blast
  note lab = this [unfolded check_labels_None]
  from st have "\<not> broad_domain d" unfolding broad_domain_def by blast
  with st lab show ?thesis by blast
qed

lemma hd_trim_right: "trim_right_by P s \<noteq> [] \<Longrightarrow> hd (trim_right_by P s) = hd s"
proof -
  assume ne: "trim_right_by P s \<noteq> []"
  obtain t where "s = trim_right_by P s @ t" unfolding trim_right_by_def
    by (metis rev_append rev_rev_ident takeWhile_dropWhile_id)
  with ne show ?thesis by (metis hd_append2)
qed

lemma hd_trim_space: "trim_space s \<noteq> [] \<Longrightarrow> \<not> is_space (hd (trim_space s))"
proof -
  assume ne: "trim_space s \<noteq> []"
  then have "hd (trim_space s) = hd (trim_left_by is_space s)" unfolding trim_space_def by (rule hd_trim_right)
  moreover have "trim_left_by is_space s \<noteq> []" using ne by (auto simp: trim_space_def trim_right_by_def)
  ultimately show ?thesis by (metis hd_dropWhile trim_left_by_def)
qed

lemma match_suffixes_Some:
  "match_suffixes m ps = Some i \<Longrightarrow> \<exists>pre post. ps = pre @ post \<and> post \<noteq> [] \<and> mget m (join ''.'' post) = Some i
     \<and> (\<forall>pre' post'. ps = pre' @ post' \<and> length pre' < length pre \<longrightarrow> mget m (join ''.'' post') = None)"
proof (induction ps)
  case (Cons p ps)
  show ?case
  proof (cases "mget m (join ''.'' (p # ps))")
    case None
    with Cons.prems have "match_suffixes m ps = Some i" by simp
    from Cons.IH [OF this] obtain pre post where *: "ps = pre @ post" "post \<noteq> []" "mget m (join ''.'' post) = Some i"
      "\<And>pre' post'. ps = pre' @ post' \<Longrightarrow> length pre' < length pre \<Longrightarrow> mget m (join ''.'' post') = None" by blast
    have "mget m (join ''.'' post') = None" if "p # ps = pre' @ post'" "length pre' < length (p # pre)" for pre' post'
      using that None *(4) by (cases pre') auto
    with * show ?thesis by (intro exI [of _ "p # pre"] exI [of _ post]) auto
  next
    case (Some j)
    with Cons.prems show ?thesis by (intro exI [of _ "[]"] exI [of _ "p # ps"]) auto
  qed
qed simp

lemma match_suffixes_None:
  "match_suffixes m ps = None \<Longrightarrow> ps = pre @ post \<Longrightarrow> post \<noteq> [] \<Longrightarrow> mget m (join ''.'' post) = None"
proof (induction ps arbitrary: pre)
  case (Cons p ps)
  then show ?case by (cases pre) (auto split: option.splits)
qed simp

subsection \<open>The maps of the matcher\<close>

definition stronger :: "('v \<Rightarrow> int) \<Rightarrow> 'v option \<Rightarrow> 'v \<Rightarrow> 'v option" where
  "stronger conf old v = (case old of None \<Rightarrow> Some v | Some u \<Rightarrow> if conf v \<ge> conf u then Some v else Some u)"

lemma mget_keep_stronger:
  "mget (keep_stronger conf k v m) k' = (if k = k' then stronger conf (mget m k) v else mget m k')"
  by (auto simp: keep_stronger_def stronger_def mget_put split: option.splits)

lemma keep_stronger_put_if:
  "keep_stronger conf k v = am.put_if (\<lambda>old. case old of None \<Rightarrow> True | Some u \<Rightarrow> conf u \<le> conf v) k v"
  by (auto simp: keep_stronger_def am.put_if_def fun_eq_iff split: option.splits)

lemma mwf_keep_stronger [wf_intro]: "mwf m \<Longrightarrow> mwf (keep_stronger conf k v m)"
  by (simp add: keep_stronger_put_if am.wf_put_if)

text \<open>The entries an indicator contributes to each map.\<close>

definition enriched :: "ioc \<Rightarrow> ioc" where
  "enriched i0 = (let i1 = i0 \<lparr> ioc_Severity := DeriveSeverity i0 \<rparr>
     in i1 \<lparr> ioc_MitreID := fst (DeriveMitre i1), ioc_MitreName := snd (DeriveMitre i1) \<rparr>)"

definition domain_entry :: "ioc \<Rightarrow> (string \<times> ioc) option" where
  "domain_entry i0 = (if ioc_Type i0 = ''domain'' then
     (case ValidateDomainIndicator (ioc_Value i0) of Inl _ \<Rightarrow> None | Inr d \<Rightarrow> Some (d, (enriched i0) \<lparr> ioc_Value := d \<rparr>)) else None)"

definition cidr_of :: "ioc \<Rightarrow> (string \<times> cidr_entry) option" where
  "cidr_of i0 = (if ioc_Type i0 = ''ip'' \<and> contains_char (ioc_Value i0) (CHR ''/'') then
     (case parse_cidr (trim_space (ioc_Value i0)) of None \<Rightarrow> None
      | Some (net, ones, bits) \<Rightarrow> if ones = 0 \<and> bits > 0 then None
          else Some (ipnet_string net, \<lparr> ce_net = net, ce_ioc = enriched i0 \<rparr>)) else None)"

definition ip_entry :: "ioc \<Rightarrow> (string \<times> ioc) option" where
  "ip_entry i0 = (if ioc_Type i0 = ''ip'' \<and> \<not> contains_char (ioc_Value i0) (CHR ''/'') then
     (case parse_ip (case split_host_port (trim_space (ioc_Value i0)) of Some (h, _) \<Rightarrow> h | None \<Rightarrow> trim_space (ioc_Value i0)) of
        None \<Rightarrow> None | Some a \<Rightarrow> Some (addr_string a, (enriched i0) \<lparr> ioc_Value := addr_string a \<rparr>)) else None)"

definition hash_entry :: "ioc \<Rightarrow> (string \<times> ioc) option" where
  "hash_entry i0 = (if ioc_Type i0 \<in> {''ja3'', ''tlsfp'', ''md5'', ''sha256''} \<and> to_lower (trim_space (ioc_Value i0)) \<noteq> []
     then Some (to_lower (trim_space (ioc_Value i0)), enriched i0) else None)"

definition put_entry :: "('v \<Rightarrow> int) \<Rightarrow> ('k \<times> 'v) option \<Rightarrow> ('k, 'v) gomap \<Rightarrow> ('k, 'v) gomap" where
  "put_entry conf e m = (case e of None \<Rightarrow> m | Some (k, v) \<Rightarrow> keep_stronger conf k v m)"

lemma put_entry_simps [simp]: "put_entry conf None m = m" "put_entry conf (Some (k, v)) m = keep_stronger conf k v m"
  by (simp_all add: put_entry_def)

lemma add_one_entries:
  "snd (add_one i m) =
     \<lparr> mt_domains = put_entry ioc_Confidence (domain_entry i) (mt_domains m),
       mt_ips = put_entry ioc_Confidence (ip_entry i) (mt_ips m),
       mt_cidrs = put_entry (\<lambda>e. ioc_Confidence (ce_ioc e)) (cidr_of i) (mt_cidrs m),
       mt_hashes = put_entry ioc_Confidence (hash_entry i) (mt_hashes m) \<rparr>"
proof -
  have eq: "(let i1 = i\<lparr>ioc_Severity := DeriveSeverity i\<rparr>; j = i1\<lparr>ioc_MitreID := fst (DeriveMitre i1), ioc_MitreName := snd (DeriveMitre i1)\<rparr> in f j)
      = f (enriched i)" for f :: "ioc \<Rightarrow> bool \<times> matcher" by (simp add: enriched_def Let_def)
  have ty [simp]: "ioc_Type (enriched i) = ioc_Type i" "ioc_Value (enriched i) = ioc_Value i" by (simp_all add: enriched_def Let_def)
  consider (d) "ioc_Type i = ''domain''" | (ip) "ioc_Type i = ''ip''"
    | (h) "ioc_Type i \<in> {''ja3'', ''tlsfp'', ''md5'', ''sha256''}"
    | (n) "ioc_Type i \<notin> {''domain'', ''ip'', ''ja3'', ''tlsfp'', ''md5'', ''sha256''}" by blast
  then show ?thesis
  proof cases
    case d
    then show ?thesis unfolding add_one_def eq
      by (cases m) (simp add: domain_entry_def ip_entry_def cidr_of_def hash_entry_def split: sum.split)
  next
    case ip
    then show ?thesis unfolding add_one_def eq
      by (cases m) (simp add: domain_entry_def ip_entry_def cidr_of_def hash_entry_def Let_def split: option.split prod.split)
  next
    case h
    then have "ioc_Type i \<noteq> ''domain''" "ioc_Type i \<noteq> ''ip''" by auto
    with h show ?thesis unfolding add_one_def eq
      by (cases m) (simp add: domain_entry_def ip_entry_def cidr_of_def hash_entry_def Let_def)
  next
    case n
    then show ?thesis unfolding add_one_def eq
      by (cases m) (simp add: domain_entry_def ip_entry_def cidr_of_def hash_entry_def)
  qed
qed

definition matcher_ok :: "matcher \<Rightarrow> bool" where
  "matcher_ok m \<longleftrightarrow> mwf (mt_domains m) \<and> mwf (mt_ips m) \<and> mwf (mt_cidrs m) \<and> mwf (mt_hashes m)
     \<and> (\<forall>k i. mget (mt_domains m) k = Some i \<longrightarrow> ioc_Value i = k \<and> \<not> broad_domain k)
     \<and> (\<forall>k e. mget (mt_cidrs m) k = Some e \<longrightarrow> ipnet_string (ce_net e) = k)"

lemma matcher_ok_new [wf_intro]: "matcher_ok NewMatcher"
  by (simp add: matcher_ok_def NewMatcher_def)

lemma stronger_Some: "stronger conf old v = Some w \<Longrightarrow> w = v \<or> old = Some w"
  by (auto simp: stronger_def split: option.splits if_splits)

lemma mwf_put_entry [simp]: "mwf m \<Longrightarrow> mwf (put_entry conf e m)"
  by (simp add: put_entry_def mwf_keep_stronger split: option.split prod.split)

lemma mget_put_entry:
  "mget (put_entry conf e m) k = Some w \<Longrightarrow> e = Some (k, w) \<or> mget m k = Some w"
  by (auto simp: put_entry_def mget_keep_stronger dest!: stronger_Some split: option.splits if_splits)

lemma domain_entry_ok: "domain_entry i = Some (k, v) \<Longrightarrow> ioc_Value v = k \<and> \<not> broad_domain k"
  by (auto simp: domain_entry_def dest: ValidateDomainIndicator_ok split: if_splits sum.splits)

lemma cidr_of_ok: "cidr_of i = Some (k, e) \<Longrightarrow> ipnet_string (ce_net e) = k"
  by (auto simp: cidr_of_def split: if_splits option.splits)

lemma matcher_ok_add_one [wf_intro]:
  assumes "matcher_ok m"
  shows "matcher_ok (snd (add_one i m))"
proof -
  have "ioc_Value v = k \<and> \<not> broad_domain k" if "mget (put_entry ioc_Confidence (domain_entry i) (mt_domains m)) k = Some v" for k v
    using mget_put_entry [OF that] domain_entry_ok assms by (auto simp: matcher_ok_def)
  moreover have "ipnet_string (ce_net e) = k"
    if "mget (put_entry (\<lambda>e. ioc_Confidence (ce_ioc e)) (cidr_of i) (mt_cidrs m)) k = Some e" for k e
    using mget_put_entry [OF that] cidr_of_ok assms by (auto simp: matcher_ok_def)
  ultimately show ?thesis using assms by (simp add: matcher_ok_def add_one_entries)
qed

lemma snd_Add_Cons: "snd (Add (i # is) m) = snd (Add is (snd (add_one i m)))"
  by (simp add: Let_def split: prod.split)

lemma snd_Add: "snd (Add is m) = fold (\<lambda>i m. snd (add_one i m)) is m"
  by (induction "is" arbitrary: m) (simp_all add: snd_Add_Cons del: Add.simps(2))

interpretation mm: machine "\<lambda>i m. snd (add_one i m)" matcher_ok
  by unfold_locales (rule matcher_ok_add_one)

lemma matcher_ok_Add [wf_intro]: "matcher_ok m \<Longrightarrow> matcher_ok (snd (Add is m))"
  unfolding snd_Add by (rule mm.runs_ok)

definition matcher_of :: "ioc list list \<Rightarrow> matcher" where
  "matcher_of feeds = fold (\<lambda>f m. snd (Add f m)) feeds NewMatcher"

lemma matcher_of_ok: "matcher_ok (matcher_of feeds)"
proof -
  have "matcher_ok (fold (\<lambda>f m. snd (Add f m)) feeds m)" if "matcher_ok m" for m
    using that by (induction feeds arbitrary: m) (auto intro: matcher_ok_Add)
  then show ?thesis by (simp add: matcher_of_def matcher_ok_new)
qed

text \<open>
  Property C14. No feed can make the matcher block a whole suffix. Whatever feeds were loaded, a match of a
  queried name is an indicator with at least two labels that is no public suffix, equal to the normalised
  name or a parent of it at a label boundary, and no longer parent of the name is an indicator; in
  particular a bare TLD or public suffix never matches as a query.
\<close>

theorem MatchDomain_never_broad:
  assumes "MatchDomain (matcher_of feeds) q = Some i"
  shows "\<not> broad_domain (ioc_Value i)
    \<and> (\<exists>pre post. split_on (CHR ''.'') (to_lower (trim_suffix q ''.'')) = pre @ post \<and> post \<noteq> []
         \<and> ioc_Value i = join ''.'' post
         \<and> (\<forall>pre' post'. split_on (CHR ''.'') (to_lower (trim_suffix q ''.'')) = pre' @ post' \<and> length pre' < length pre \<longrightarrow>
               mget (mt_domains (matcher_of feeds)) (join ''.'' post') = None))"
proof -
  obtain pre post where *: "split_on (CHR ''.'') (to_lower (trim_suffix q ''.'')) = pre @ post" "post \<noteq> []"
    "mget (mt_domains (matcher_of feeds)) (join ''.'' post) = Some i"
    "\<forall>pre' post'. split_on (CHR ''.'') (to_lower (trim_suffix q ''.'')) = pre' @ post' \<and> length pre' < length pre \<longrightarrow>
       mget (mt_domains (matcher_of feeds)) (join ''.'' post') = None"
    using match_suffixes_Some [OF assms [unfolded MatchDomain_def]] by blast
  then have "ioc_Value i = join ''.'' post \<and> \<not> broad_domain (join ''.'' post)"
    using matcher_of_ok [of feeds] by (auto simp: matcher_ok_def)
  with * show ?thesis by auto
qed

definition sample_ioc :: "string \<Rightarrow> string \<Rightarrow> int \<Rightarrow> ioc" where
  "sample_ioc ty v c = \<lparr> ioc_Value = v, ioc_Type = ty, ioc_Source = ''threatfox'', ioc_Threat = ''emotet'', ioc_Confidence = c,
     ioc_Tags = [], ioc_Severity = [], ioc_MitreID = [], ioc_MitreName = [] \<rparr>"

theorem MatchDomain_never_broad_witness:
  "\<not> broad_domain ''evil.com''
   \<and> map_option ioc_Value (MatchDomain (matcher_of [[sample_ioc ''domain'' ''*.Evil.com.'' 90, sample_ioc ''domain'' ''com'' 99]]) ''a.b.EVIL.com.'') = Some ''evil.com''"
proof -
  let ?m = "matcher_of [[sample_ioc ''domain'' ''*.Evil.com.'' 90, sample_ioc ''domain'' ''com'' 99]]"
  have v: "map_option ioc_Value (MatchDomain ?m ''a.b.EVIL.com.'') = Some ''evil.com''" by code_simp
  then obtain i where "MatchDomain ?m ''a.b.EVIL.com.'' = Some i" "ioc_Value i = ''evil.com''" by auto
  then have "\<not> broad_domain ''evil.com''" using MatchDomain_never_broad [OF \<open>MatchDomain ?m ''a.b.EVIL.com.'' = Some i\<close>] by simp
  with v show ?thesis by blast
qed

subsection \<open>Re-syncing a feed\<close>

lemma stronger_conf: "stronger conf old v = Some w \<Longrightarrow> conf v \<le> conf w"
  by (auto simp: stronger_def split: option.splits if_splits)

lemma stronger_ge: "stronger conf b x = Some w \<Longrightarrow> conf x \<le> conf w \<and> (\<forall>u. b = Some u \<longrightarrow> conf u \<le> conf w)"
  by (auto simp: stronger_def split: option.splits if_splits)

lemma foldl_stronger_snoc: "foldl (stronger conf) b (xs @ [x]) = stronger conf (foldl (stronger conf) b xs) x"
  by simp

lemma foldl_stronger_ub:
  "foldl (stronger conf) b xs = Some w \<Longrightarrow> x \<in> set xs \<Longrightarrow> conf x \<le> conf w"
proof (induction xs arbitrary: w rule: rev_induct)
  case (snoc y ys)
  note ge = stronger_ge [OF snoc.prems(1) [unfolded foldl_stronger_snoc]]
  show ?case
  proof (cases "x = y")
    case False
    with snoc.prems(2) have x: "x \<in> set ys" by simp
    then have "ys \<noteq> []" by auto
    then have "foldl (stronger conf) b ys \<noteq> None"
      by (cases ys rule: rev_cases) (auto simp: stronger_def split: option.splits)
    then obtain u where u: "foldl (stronger conf) b ys = Some u" by blast
    then show ?thesis using snoc.IH [OF u x] ge by force
  qed (use ge in blast)
qed simp

lemma foldl_stronger_top:
  "\<forall>x \<in> set es. conf x \<le> conf e \<Longrightarrow> \<exists>w. foldl (stronger conf) (Some e) es = Some w \<and> conf w = conf e"
proof (induction es rule: rev_induct)
  case (snoc x xs)
  then obtain w where "foldl (stronger conf) (Some e) xs = Some w" "conf w = conf e" by auto
  then show ?case using snoc.prems by (simp only: foldl_stronger_snoc) (simp add: stronger_def)
qed simp

lemma best_again:
  "foldl (stronger conf) (foldl (stronger conf) old es) es = foldl (stronger conf) old es"
proof (induction es rule: rev_induct)
  case (snoc e es)
  let ?b = "foldl (stronger conf) old es"
  show ?case
  proof (cases "stronger conf ?b e = Some e")
    case True
    have "\<forall>x \<in> set es. conf x \<le> conf e"
    proof (cases ?b)
      case None
      then have "es = []"
      proof (cases es rule: rev_cases)
        case (snoc ys y)
        with None show ?thesis by (simp add: stronger_def split: option.splits if_splits)
      qed
      then show ?thesis by simp
    next
      case (Some b)
      then have le: "conf b \<le> conf e" using stronger_ge [OF True] by simp
      show ?thesis
      proof
        fix x assume "x \<in> set es"
        from order_trans [OF foldl_stronger_ub [OF Some this] le] show "conf x \<le> conf e" .
      qed
    qed
    from foldl_stronger_top [OF this] obtain w where
      w: "foldl (stronger conf) (Some e) es = Some w" "conf w = conf e" by auto
    have "foldl (stronger conf) (foldl (stronger conf) old (es @ [e])) (es @ [e]) = stronger conf (Some w) e"
      by (simp only: foldl_stronger_snoc True w)
    also have "\<dots> = Some e" by (simp add: stronger_def w)
    finally show ?thesis by (simp only: foldl_stronger_snoc True)
  next
    case False
    then have "stronger conf ?b e = ?b" by (cases ?b) (simp_all add: stronger_def split: if_splits)
    then show ?thesis by (simp only: foldl_stronger_snoc snoc.IH)
  qed
qed simp

lemma mget_put_entries:
  "mget (fold (\<lambda>i. put_entry conf (f i)) is m) k =
     foldl (stronger conf) (mget m k) (map (\<lambda>i. snd (the (f i))) (filter (\<lambda>i. \<exists>v. f i = Some (k, v)) is))"
  by (induction "is" arbitrary: m) (auto simp: put_entry_def mget_keep_stronger split: option.splits)

lemma Add_entries:
  "snd (Add is m) =
     \<lparr> mt_domains = fold (\<lambda>i. put_entry ioc_Confidence (domain_entry i)) is (mt_domains m),
       mt_ips = fold (\<lambda>i. put_entry ioc_Confidence (ip_entry i)) is (mt_ips m),
       mt_cidrs = fold (\<lambda>i. put_entry (\<lambda>e. ioc_Confidence (ce_ioc e)) (cidr_of i)) is (mt_cidrs m),
       mt_hashes = fold (\<lambda>i. put_entry ioc_Confidence (hash_entry i)) is (mt_hashes m) \<rparr>"
  unfolding snd_Add by (induction "is" arbitrary: m) (simp_all add: add_one_entries)

lemma put_entries_twice:
  "mget (fold (\<lambda>i. put_entry conf (f i)) is (fold (\<lambda>i. put_entry conf (f i)) is m)) k =
     mget (fold (\<lambda>i. put_entry conf (f i)) is m) k"
  by (simp only: mget_put_entries best_again)

text \<open>
  Further fact. A re-sync is idempotent: loading the same feed again leaves every indicator map (domains,
  addresses, ranges, hashes) with the same entries, so their sizes do not grow however often
  \<open>SyncLoop\<close> fetches it.
\<close>

theorem Add_idempotent:
  "let once = snd (Add feed m); twice = snd (Add feed (snd (Add feed m))) in
     mget (mt_domains twice) = mget (mt_domains once) \<and> mget (mt_ips twice) = mget (mt_ips once)
   \<and> mget (mt_cidrs twice) = mget (mt_cidrs once) \<and> mget (mt_hashes twice) = mget (mt_hashes once)"
  by (simp add: Add_entries put_entries_twice fun_eq_iff)

lemma Add_count: "fst (fst (Add feed m)) + snd (fst (Add feed m)) = length feed"
proof (induction feed arbitrary: m)
  case (Cons i feed)
  obtain ok m1 where 1: "add_one i m = (ok, m1)" by fastforce
  obtain a r m2 where 2: "Add feed m1 = ((a, r), m2)" by (metis prod.collapse)
  from Cons [of m1] show ?case by (simp add: 1 2)
qed simp

text \<open>
  Further fact. Loading more feeds never weakens what is known: after any \<open>Add\<close>, a domain that was an
  indicator still is one, with at least the confidence it had, and the added and rejected counts sum to
  the number of rows.
\<close>

theorem Add_never_weakens:
  assumes "mget (mt_domains m) k = Some i"
  shows "\<exists>j. mget (mt_domains (snd (Add feed m))) k = Some j \<and> ioc_Confidence i \<le> ioc_Confidence j
    \<and> fst (fst (Add feed m)) + snd (fst (Add feed m)) = length feed"
proof -
  have count: "fst (fst (Add feed m)) + snd (fst (Add feed m)) = length feed"
    by (rule Add_count)
  have "\<exists>j. foldl (stronger ioc_Confidence) (Some i) es = Some j \<and> ioc_Confidence i \<le> ioc_Confidence j" for es i
  proof (induction es arbitrary: i)
    case (Cons e es)
    show ?case
    proof (cases "ioc_Confidence i \<le> ioc_Confidence e")
      case True
      with Cons [of e] show ?thesis by (auto simp: stronger_def intro: order_trans)
    next
      case False
      with Cons [of i] show ?thesis by (simp add: stronger_def)
    qed
  qed simp
  with assms count show ?thesis by (simp add: Add_entries mget_put_entries)
qed

theorem Add_never_weakens_witness:
  "\<exists>j. mget (mt_domains (snd (Add [sample_ioc ''domain'' ''EVIL.com'' 40]
        (snd (Add [sample_ioc ''domain'' ''evil.com'' 90] NewMatcher))))) ''evil.com'' = Some j \<and> 90 \<le> ioc_Confidence j"
proof -
  let ?m = "snd (Add [sample_ioc ''domain'' ''evil.com'' 90] NewMatcher)"
  have "map_option ioc_Confidence (mget (mt_domains ?m) ''evil.com'') = Some 90" by code_simp
  then obtain i where "mget (mt_domains ?m) ''evil.com'' = Some i" "ioc_Confidence i = 90" by auto
  with Add_never_weakens [OF this(1), of "[sample_ioc ''domain'' ''EVIL.com'' 40]"] show ?thesis by auto
qed

lemma mapped_catch_all_text:
  "cut_at (CHR ''/'') ''::ffff:0.0.0.0/96'' = Some (''::ffff:0.0.0.0'', ''96'')"
  "parse_addr ''::ffff:0.0.0.0'' = Some (IP6 0xffff00000000 [])"
  "is_digit (CHR ''9'')" "is_digit (CHR ''6'')" "read_digits ''96'' 0 = 96"
  "trim_space ''::ffff:0.0.0.0/96'' = ''::ffff:0.0.0.0/96''" "contains_char ''::ffff:0.0.0.0/96'' (CHR ''/'')"
  "trim_space ''0.0.0.0/0'' = ''0.0.0.0/0''" "contains_char ''0.0.0.0/0'' (CHR ''/'')"
  "parse_cidr ''0.0.0.0/0'' = Some (Net4 0 0, 0, 32)" "ipnet_string (Net4 0 0) = ''0.0.0.0/0''"
  by code_simp+

lemma mapped_catch_all_parsed: "parse_cidr ''::ffff:0.0.0.0/96'' = Some (Net4 0 0, 96, 128)"
  by (simp add: parse_cidr_def mapped_catch_all_text top_bits_def net_norm_def Let_def del: read_digits.simps)

lemma mapped_catch_all_table:
  defines "i \<equiv> sample_ioc ''ip'' ''::ffff:0.0.0.0/96'' 90"
  shows "mt_ips (snd (Add [i] NewMatcher)) = []"
    "mt_cidrs (snd (Add [i] NewMatcher)) = [(''0.0.0.0/0'', \<lparr> ce_net = Net4 0 0, ce_ioc = enriched i \<rparr>)]"
  by (simp_all add: Add_entries ip_entry_def cidr_of_def i_def sample_ioc_def NewMatcher_def keep_stronger_def
      mapped_catch_all_text mapped_catch_all_parsed del: ipnet_string.simps Add.simps)

lemma all_v4_match: "same_top 0 0 (w :: 32 word)"
proof -
  have "drop_bit 32 w = 0" by (rule bit_eqI) (auto simp: bit_drop_bit_eq dest: bit_imp_le_length)
  then show ?thesis by (simp add: same_top_iff)
qed

text \<open>
  Further fact. The catch-all guard can be bypassed. A range whose mask is empty is rejected, but the range
  \<open>::ffff:0.0.0.0/96\<close>, whose mask has 96 bits, is accepted, filed under 0.0.0.0/0, and from then on every
  IPv4 address matches it.
\<close>

theorem mapped_catch_all_accepted:
  "fst (Add [sample_ioc ''ip'' ''0.0.0.0/0'' 90] NewMatcher) = (0, 1)
   \<and> fst (Add [sample_ioc ''ip'' ''::ffff:0.0.0.0/96'' 90] NewMatcher) = (1, 0)
   \<and> MatchIP (snd (Add [sample_ioc ''ip'' ''::ffff:0.0.0.0/96'' 90] NewMatcher)) (v4_string w) \<noteq> None"
proof -
  define m where "m = snd (Add [sample_ioc ''ip'' ''::ffff:0.0.0.0/96'' 90] NewMatcher)"
  note t = mapped_catch_all_table [folded m_def]
  have ns: "\<forall>x \<in> set (v4_string w). \<not> is_space x"
  proof -
    have "\<not> is_space (CHR ''.'')" by code_simp
    moreover have "is_digit x \<Longrightarrow> \<not> is_space x" for x by (auto simp: is_space_def is_digit_def Let_def)
    ultimately show ?thesis using v4_string_chars by blast
  qed
  have "MatchIP m (v4_string w) \<noteq> None"
    by (simp add: MatchIP_def trim_space_no_space [OF ns] parse_ip_def parse_addr_v4_string t all_v4_match)
  moreover have "fst (Add [sample_ioc ''ip'' ''0.0.0.0/0'' 90] NewMatcher) = (0, 1)"
    "fst (Add [sample_ioc ''ip'' ''::ffff:0.0.0.0/96'' 90] NewMatcher) = (1, 0)"
    by (simp_all add: add_one_def sample_ioc_def mapped_catch_all_text mapped_catch_all_parsed Let_def split: prod.split)
  ultimately show ?thesis unfolding m_def by blast
qed

text \<open>
  Further fact. The feed address accepts either spelling: whatever base is configured, with or without the
  path, blanks and trailing slashes, exactly one \<open>/export/json\<close> ends the address, and normalising twice
  changes nothing.
\<close>

theorem exportURL_normal:
  "has_suffix (exportURL base) ''/export/json'' \<and> exportURL (exportURL base) = exportURL base"
proof -
  let ?t = "trim_right_char (trim_space base) (CHR ''/'')"
  let ?u = "exportURL base"
  have suf: "has_suffix ?u ''/export/json''"
    by (simp add: exportURL_def Let_def) (simp add: has_suffix_def)
  then obtain w where w: "?u = w @ ''/export/json''" by (auto simp: has_suffix_iff suffix_def)
  have "\<not> is_space (hd ?u)"
  proof (cases "?t = []")
    case True
    then show ?thesis by (simp add: exportURL_def Let_def has_suffix_def is_space_def)
  next
    case False
    then have "hd ?u = hd ?t" by (simp add: exportURL_def Let_def)
    moreover have "hd ?t = hd (trim_space base)" "trim_space base \<noteq> []"
      using hd_trim_right [of "\<lambda>x. x = CHR ''/''" "trim_space base"] False by (auto simp: trim_right_char_def trim_right_by_def)
    ultimately show ?thesis using hd_trim_space [OF \<open>trim_space base \<noteq> []\<close>] by simp
  qed
  moreover have "last ?u = CHR ''n''" "?u \<noteq> []" by (simp_all add: w)
  ultimately have "trim_space ?u = ?u" by (intro trim_space_id) (simp add: is_space_def)
  moreover have "trim_right_char ?u (CHR ''/'') = ?u" by (simp add: w trim_right_char_def trim_right_by_def)
  ultimately show ?thesis using suf by (simp add: exportURL_def [of ?u] Let_def)
qed

end
