(* ===== verification/DetectEngine.thy ===== *)
theory DetectEngine
  imports IocMatch
begin

text \<open>
  The detection engine (\<open>detection-engine/internal/detection/engine.go\<close>) and the conversion of its alerts to
  the shared contract (\<open>internal/eventmap/eventmap.go\<close>). AdGuard's query log is an input of \<open>poll\<close>; the two
  callbacks are outputs, in the order the code calls them. They do not touch the engine, so a poll is one
  step. The counters of the metrics and the log lines are not modelled.
\<close>

subsection \<open>Alerts\<close>

definition SeverityForConfidence :: "int \<Rightarrow> string" where
  "SeverityForConfidence confidence =
     (if confidence \<ge> 90 then SeverityCritical else if confidence \<ge> 70 then SeverityHigh
      else if confidence \<ge> 50 then SeverityMedium else SeverityLow)"

record alert =
  al_ID :: string
  al_Timestamp :: instant
  al_Domain :: string
  al_ClientIP :: string
  al_ClientMAC :: string
  al_ClientName :: string
  al_QueryType :: string
  al_MatchedIoC :: string
  al_IoCType :: string
  al_Severity :: string
  al_Source :: string
  al_Confidence :: int
  al_MitreID :: string
  al_MitreName :: string
  al_Threat :: string
  al_Tags :: "string list"
  al_SignalClass :: string
  al_Signals :: "string list"
  al_SignalCount :: int

record dns_answer =
  an_Value :: string
  an_Type :: string
  an_TTL :: int

record query_log_entry =
  ql_Host :: string
  ql_QType :: string
  ql_Answer :: "dns_answer list"
  ql_Client :: string
  ql_Time :: instant

definition maxAlerts :: nat where
  [simp]: "maxAlerts = 1000"

subsection \<open>The engine\<close>

text \<open>
  \<open>en_resolve\<close> is the optional \<open>ResolveClient\<close>; \<open>en_counter\<close> is the package's atomic \<open>alertCounter\<close>.
\<close>

record engine =
  en_resolve :: "(string \<Rightarrow> string \<times> string) option"
  en_lastSeen :: instant
  en_alerts :: "alert list"
  en_counter :: int

definition NewEngine :: "instant \<Rightarrow> engine" where
  "NewEngine now = \<lparr> en_resolve = None, en_lastSeen = now, en_alerts = [], en_counter = 0 \<rparr>"

text \<open>What the engine calls: \<open>OnDNSAnswer\<close> and \<open>OnAlert\<close>.\<close>

datatype callback = DnsAnswer string string int | OnAlert alert

definition resolveClient :: "engine \<Rightarrow> string \<Rightarrow> string \<times> string" where
  "resolveClient e ip = (case en_resolve e of None \<Rightarrow> ([], []) | Some f \<Rightarrow> if ip = [] then ([], []) else f ip)"

definition addAlert :: "alert \<Rightarrow> engine \<Rightarrow> callback list \<times> engine" where
  "addAlert a e =
     (let alerts = en_alerts e @ [a];
          alerts = (if length alerts > maxAlerts then drop (length alerts - maxAlerts) alerts else alerts)
      in ([OnAlert a], e \<lparr> en_alerts := alerts \<rparr>))"

definition next_id :: "engine \<Rightarrow> string \<times> engine" where
  "next_id e = (let n = wrap64 (en_counter e + 1) in (''DET-'' @ show_int n, e \<lparr> en_counter := n \<rparr>))"

definition emitAlert :: "query_log_entry \<Rightarrow> string \<Rightarrow> ioc \<Rightarrow> engine \<Rightarrow> callback list \<times> engine" where
  "emitAlert entry domain i e =
     (let (did, e) = next_id e;
          (mac, cname) = resolveClient e (ql_Client entry);
          a = \<lparr> al_ID = did, al_Timestamp = ql_Time entry, al_Domain = domain, al_ClientIP = ql_Client entry,
                al_ClientMAC = mac, al_ClientName = cname, al_QueryType = ql_QType entry, al_MatchedIoC = ioc_Value i,
                al_IoCType = (if ioc_Type i = [] then ''domain'' else ioc_Type i),
                al_Severity = (if ioc_Severity i = [] then ''high'' else ioc_Severity i),
                al_Source = (if ioc_Source i = [] then ''local'' else ioc_Source i),
                al_Confidence = ioc_Confidence i, al_MitreID = ioc_MitreID i, al_MitreName = ioc_MitreName i,
                al_Threat = ioc_Threat i, al_Tags = ioc_Tags i, al_SignalClass = SignalIoC,
                al_Signals = [], al_SignalCount = 0 \<rparr>
      in addAlert a e)"

definition Ingest :: "alert \<Rightarrow> engine \<Rightarrow> callback list \<times> engine" where
  "Ingest a e =
     (let (a, e) = (if al_ID a = [] then (case next_id e of (did, e') \<Rightarrow> (a \<lparr> al_ID := did \<rparr>, e')) else (a, e));
          a = (if al_Severity a = [] then a \<lparr> al_Severity := ''medium'' \<rparr> else a);
          a = (if al_ClientMAC a = [] then (case resolveClient e (al_ClientIP a) of
                 (mac, cname) \<Rightarrow> a \<lparr> al_ClientMAC := mac, al_ClientName := cname \<rparr>) else a)
      in addAlert a e)"

subsection \<open>Polling the query log\<close>

definition address_answer :: "dns_answer \<Rightarrow> bool" where
  "address_answer an \<longleftrightarrow> an_Type an = ''A'' \<or> an_Type an = ''AAAA''"

text \<open>The arrow between the name and the address is the character U+2192, three bytes.\<close>

definition arrow_label :: "string \<Rightarrow> string \<Rightarrow> string" where
  "arrow_label domain ip = domain @ '' ('' @ [CHR 0xE2, CHR 0x86, CHR 0x92] @ ip @ '')''"

fun poll_answers :: "matcher \<Rightarrow> query_log_entry \<Rightarrow> string \<Rightarrow> dns_answer list \<Rightarrow> engine \<Rightarrow> callback list \<times> engine" where
  "poll_answers m entry domain [] e = ([], e)"
| "poll_answers m entry domain (an # ans) e =
     (case if address_answer an then MatchIP m (an_Value an) else None of
        None \<Rightarrow> poll_answers m entry domain ans e
      | Some i \<Rightarrow>
          (let (o1, e1) = emitAlert entry (arrow_label domain (an_Value an)) i e;
               (o2, e2) = poll_answers m entry domain ans e1 in (o1 @ o2, e2)))"

definition entry_domain :: "query_log_entry \<Rightarrow> string" where
  "entry_domain entry = to_lower (trim_suffix (ql_Host entry) ''.'')"

definition poll_entry :: "matcher \<Rightarrow> query_log_entry \<Rightarrow> engine \<Rightarrow> callback list \<times> engine" where
  "poll_entry m entry e =
     (let domain = entry_domain entry;
          o0 = List.map (\<lambda>an. DnsAnswer (an_Value an) domain (an_TTL an)) (filter address_answer (ql_Answer entry));
          (o1, e1) = (case MatchDomain m domain of Some i \<Rightarrow> emitAlert entry domain i e | None \<Rightarrow> ([], e));
          (o2, e2) = poll_answers m entry domain (ql_Answer entry) e1
      in (o0 @ o1 @ o2, e2))"

text \<open>The loop stops at the first entry that is not newer than \<open>lastSeen\<close>.\<close>

fun poll_loop :: "matcher \<Rightarrow> query_log_entry list \<Rightarrow> engine \<Rightarrow> callback list \<times> engine" where
  "poll_loop m [] e = ([], e)"
| "poll_loop m (entry # entries) e =
     (if \<not> ql_Time entry > en_lastSeen e then ([], e)
      else (let (o1, e1) = poll_entry m entry e; (o2, e2) = poll_loop m entries e1 in (o1 @ o2, e2)))"

definition poll :: "matcher \<Rightarrow> query_log_entry list option \<Rightarrow> engine \<Rightarrow> callback list \<times> engine" where
  "poll m answer e =
     (case answer of
        None \<Rightarrow> ([], e)
      | Some entries \<Rightarrow>
          (let (out, e1) = poll_loop m entries e in
           (out, case entries of
                   [] \<Rightarrow> e1
                 | first # _ \<Rightarrow> if ql_Time first > en_lastSeen e1 then e1 \<lparr> en_lastSeen := ql_Time first \<rparr> else e1)))"

subsection \<open>The shared contract\<close>

definition validIoCTypes :: "string list" where
  "validIoCTypes = [''domain'', ''ip'', ''url'', ''ja3'', ''tlsfp'', ''md5'', ''sha256'']"

definition AlertToEvent :: "alert \<Rightarrow> detection_event" where
  "AlertToEvent a =
     (let iocType = (if al_IoCType a \<in> set validIoCTypes then al_IoCType a else ''ip'');
          sev = (if al_Severity a = [] then SeverityForConfidence (al_Confidence a) else al_Severity a)
      in \<lparr> de_SchemaVersion = DetectionSchemaVersion, de_ID = al_ID a, de_Timestamp = al_Timestamp a,
           de_Domain = al_Domain a, de_MatchedIoC = al_MatchedIoC a, de_IoCType = iocType,
           de_ClientIP = al_ClientIP a, de_ClientMAC = al_ClientMAC a, de_ClientName = al_ClientName a,
           de_Severity = sev, de_Confidence = al_Confidence a, de_Source = al_Source a, de_Threat = al_Threat a,
           de_MitreID = al_MitreID a, de_MitreName = al_MitreName a, de_QueryType = al_QueryType a,
           de_Tags = al_Tags a, de_SignalClass = al_SignalClass a, de_Signals = al_Signals a,
           de_SignalCount = al_SignalCount a \<rparr>)"

subsection \<open>The ring buffer\<close>

fun alerts_of :: "callback list \<Rightarrow> alert list" where
  "alerts_of [] = []"
| "alerts_of (OnAlert a # cs) = a # alerts_of cs"
| "alerts_of (DnsAnswer _ _ _ # cs) = alerts_of cs"

lemma alerts_of_append [simp]: "alerts_of (xs @ ys) = alerts_of xs @ alerts_of ys"
  by (induction xs rule: alerts_of.induct) auto

lemma alerts_of_dns [simp]: "alerts_of (List.map (\<lambda>x. DnsAnswer (f x) (g x) (h x)) xs) = []"
  by (induction xs) auto

definition keep_last :: "nat \<Rightarrow> 'a list \<Rightarrow> 'a list" where
  "keep_last n xs = drop (length xs - n) xs"

lemma keep_last_short [simp]: "length xs \<le> n \<Longrightarrow> keep_last n xs = xs"
  by (simp add: keep_last_def)

lemma length_keep_last: "length (keep_last n xs) = min n (length xs)"
  by (simp add: keep_last_def)

lemma keep_last_append: "keep_last n (keep_last n xs @ ys) = keep_last n (xs @ ys)"
  by (cases "length xs \<le> n") (simp_all add: keep_last_def add.commute)

text \<open>What every operation that only emits alerts does to the engine.\<close>

definition emits :: "engine \<Rightarrow> callback list \<times> engine \<Rightarrow> bool" where
  "emits e r \<longleftrightarrow> en_alerts (snd r) = keep_last maxAlerts (en_alerts e @ alerts_of (fst r))
     \<and> en_resolve (snd r) = en_resolve e \<and> en_lastSeen (snd r) = en_lastSeen e"

definition engine_ok :: "engine \<Rightarrow> bool" where
  "engine_ok e \<longleftrightarrow> length (en_alerts e) \<le> maxAlerts"

lemma emits_ok: "emits e r \<Longrightarrow> engine_ok (snd r)"
  by (simp add: emits_def engine_ok_def length_keep_last)

lemma emits_nothing: "engine_ok e \<Longrightarrow> emits e ([], e)"
  by (simp add: emits_def engine_ok_def)

lemma emits_trans: "emits e (o1, e1) \<Longrightarrow> emits e1 (o2, e2) \<Longrightarrow> emits e (o1 @ o2, e2)"
  by (simp add: emits_def keep_last_append)

lemma emits_dns: "emits e (o2, e2) \<Longrightarrow> emits e (List.map (\<lambda>x. DnsAnswer (f x) (g x) (h x)) xs @ o2, e2)"
  by (simp add: emits_def)

lemma addAlert_emits: "emits e (addAlert a e)"
  by (auto simp: addAlert_def emits_def keep_last_def Let_def)

lemma next_id_fields [simp]:
  "en_alerts (snd (next_id e)) = en_alerts e" "en_resolve (snd (next_id e)) = en_resolve e"
  "en_lastSeen (snd (next_id e)) = en_lastSeen e"
  by (simp_all add: next_id_def Let_def)

lemma emits_cong: "en_alerts e' = en_alerts e \<Longrightarrow> en_resolve e' = en_resolve e \<Longrightarrow> en_lastSeen e' = en_lastSeen e
    \<Longrightarrow> emits e' r = emits e r"
  by (simp add: emits_def)

lemma emitAlert_emits: "emits e (emitAlert entry domain i e)"
  by (simp add: emitAlert_def Let_def addAlert_emits emits_cong [of "snd (next_id e)" e, symmetric] split: prod.split)

lemma Ingest_emits: "emits e (Ingest a e)"
proof (cases "al_ID a = []")
  case True
  then show ?thesis
    by (simp add: Ingest_def Let_def addAlert_emits emits_cong [of "snd (next_id e)" e, symmetric] split: prod.split)
next
  case False
  then show ?thesis by (simp add: Ingest_def Let_def addAlert_emits split: prod.split)
qed

lemma poll_answers_emits: "engine_ok e \<Longrightarrow> emits e (poll_answers m entry domain ans e)"
proof (induction ans arbitrary: e)
  case (Cons an ans)
  show ?case
  proof (cases "if address_answer an then MatchIP m (an_Value an) else None")
    case None
    with Cons show ?thesis by simp
  next
    case (Some i)
    obtain o1 e1 where 1: "emitAlert entry (arrow_label domain (an_Value an)) i e = (o1, e1)" by fastforce
    obtain o2 e2 where 2: "poll_answers m entry domain ans e1 = (o2, e2)" by fastforce
    have "emits e (o1, e1)" using emitAlert_emits [of e entry "arrow_label domain (an_Value an)" i] 1 by simp
    then show ?thesis using Cons.IH [of e1] emits_ok [of e "(o1, e1)"] 2 Some
      by (auto simp: 1 intro: emits_trans)
  qed
qed (simp add: emits_nothing)

lemma poll_entry_emits: "engine_ok e \<Longrightarrow> emits e (poll_entry m entry e)"
proof -
  assume ok: "engine_ok e"
  obtain o1 e1 where 1: "(case MatchDomain m (entry_domain entry) of Some i \<Rightarrow> emitAlert entry (entry_domain entry) i e | None \<Rightarrow> ([], e)) = (o1, e1)"
    by fastforce
  have e1: "emits e (o1, e1)" unfolding 1 [symmetric] by (simp add: emits_nothing [OF ok] emitAlert_emits split: option.split)
  obtain o2 e2 where 2: "poll_answers m entry (entry_domain entry) (ql_Answer entry) e1 = (o2, e2)" by fastforce
  have "emits e1 (o2, e2)" using poll_answers_emits [OF emits_ok [OF e1, unfolded snd_conv]] 2 by metis
  from emits_dns [OF emits_trans [OF e1 this]] show ?thesis by (simp add: poll_entry_def Let_def 1 2)
qed

lemma poll_loop_emits: "engine_ok e \<Longrightarrow> emits e (poll_loop m entries e)"
proof (induction entries arbitrary: e)
  case (Cons entry entries)
  show ?case
  proof (cases "ql_Time entry > en_lastSeen e")
    case True
    obtain o1 e1 where 1: "poll_entry m entry e = (o1, e1)" by fastforce
    obtain o2 e2 where 2: "poll_loop m entries e1 = (o2, e2)" by fastforce
    have e1: "emits e (o1, e1)" using poll_entry_emits [OF Cons.prems] 1 by metis
    from Cons.IH [OF emits_ok [OF e1, unfolded snd_conv]] have "emits e1 (o2, e2)" by (simp add: 2)
    from emits_trans [OF e1 this] True show ?thesis by (simp add: 1 2)
  qed (simp add: emits_nothing Cons.prems)
qed (simp add: emits_nothing)

lemma poll_alerts: "engine_ok e \<Longrightarrow> en_alerts (snd (poll m answer e)) = keep_last maxAlerts (en_alerts e @ alerts_of (fst (poll m answer e)))
    \<and> en_resolve (snd (poll m answer e)) = en_resolve e"
proof (cases answer)
  case (Some entries)
  assume ok: "engine_ok e"
  obtain o1 e1 where 1: "poll_loop m entries e = (o1, e1)" by fastforce
  then have "emits e (o1, e1)" using poll_loop_emits [OF ok] by metis
  then show ?thesis by (simp add: poll_def Some 1 emits_def split: list.split)
qed (simp add: poll_def engine_ok_def)

datatype engine_op = PollOp matcher "query_log_entry list option" | IngestOp alert

fun engine_step :: "engine_op \<Rightarrow> engine \<Rightarrow> callback list \<times> engine" where
  "engine_step (PollOp m answer) e = poll m answer e"
| "engine_step (IngestOp a) e = Ingest a e"

definition engine_run :: "engine_op \<Rightarrow> callback list \<times> engine \<Rightarrow> callback list \<times> engine" where
  "engine_run op s = (case engine_step op (snd s) of (out, e) \<Rightarrow> (fst s @ out, e))"

definition engine_inv :: "callback list \<times> engine \<Rightarrow> bool" where
  "engine_inv s \<longleftrightarrow> en_alerts (snd s) = keep_last maxAlerts (alerts_of (fst s))"

lemma engine_inv_ok: "engine_inv s \<Longrightarrow> engine_ok (snd s)"
  by (simp add: engine_inv_def engine_ok_def length_keep_last)

lemma engine_inv_step: "engine_inv s \<Longrightarrow> engine_inv (engine_run op s)"
proof -
  assume s: "engine_inv s"
  obtain out e where 1: "engine_step op (snd s) = (out, e)" by fastforce
  have "en_alerts e = keep_last maxAlerts (en_alerts (snd s) @ alerts_of out)"
  proof (cases op)
    case (PollOp m answer)
    then show ?thesis using poll_alerts [OF engine_inv_ok [OF s], of m answer] 1 by simp
  next
    case (IngestOp a)
    then show ?thesis using Ingest_emits [of "snd s" a] 1 by (simp add: emits_def)
  qed
  then show ?thesis using s by (simp add: engine_run_def engine_inv_def 1 keep_last_append)
qed

interpretation em: machine engine_run engine_inv
  by unfold_locales (rule engine_inv_step)

text \<open>
  Further fact. The buffer behind GET /alerts holds the last thousand alerts the engine has raised, in
  order and no others, after any sequence of polls and sensor events.
\<close>

theorem alert_buffer_is_recent_history:
  "let s = fold engine_run ops ([], NewEngine now) in
     en_alerts (snd s) = keep_last 1000 (alerts_of (fst s)) \<and> length (en_alerts (snd s)) \<le> 1000"
proof -
  have "engine_inv ([], NewEngine now)" by (simp add: engine_inv_def NewEngine_def)
  from em.runs_ok [OF this] show ?thesis by (simp add: engine_inv_def length_keep_last Let_def)
qed

subsection \<open>What a poll reports\<close>

text \<open>
  The hits of one entry, as a specification: the indicator of the name, then those of its address answers;
  and what an alert says about its hit.
\<close>

definition entry_hits :: "matcher \<Rightarrow> query_log_entry \<Rightarrow> (string \<times> ioc) list" where
  "entry_hits m entry =
     (case MatchDomain m (entry_domain entry) of Some i \<Rightarrow> [(entry_domain entry, i)] | None \<Rightarrow> [])
     @ List.map_filter (\<lambda>an. if address_answer an then map_option (\<lambda>i. (arrow_label (entry_domain entry) (an_Value an), i)) (MatchIP m (an_Value an)) else None)
         (ql_Answer entry)"

definition hit_report :: "query_log_entry \<Rightarrow> string \<times> ioc \<Rightarrow> instant \<times> string \<times> string \<times> string \<times> int" where
  "hit_report entry h = (ql_Time entry, ql_Client entry, fst h, ioc_Value (snd h), ioc_Confidence (snd h))"

definition alert_report :: "alert \<Rightarrow> instant \<times> string \<times> string \<times> string \<times> int" where
  "alert_report a = (al_Timestamp a, al_ClientIP a, al_Domain a, al_MatchedIoC a, al_Confidence a)"

lemma emitAlert_report:
  "List.map alert_report (alerts_of (fst (emitAlert entry d i e))) = [hit_report entry (d, i)]"
  by (simp add: emitAlert_def addAlert_def alert_report_def hit_report_def Let_def split: prod.split)

lemma poll_answers_report:
  "List.map alert_report (alerts_of (fst (poll_answers m entry d ans e))) =
     List.map (hit_report entry) (List.map_filter (\<lambda>an. if address_answer an then map_option (\<lambda>i. (arrow_label d (an_Value an), i)) (MatchIP m (an_Value an)) else None) ans)"
proof (induction ans arbitrary: e)
  case (Cons an ans)
  show ?case
  proof (cases "if address_answer an then MatchIP m (an_Value an) else None")
    case None
    then show ?thesis using Cons [of e] by (auto simp: map_filter_simps split: if_splits)
  next
    case (Some i)
    then have h: "address_answer an" "MatchIP m (an_Value an) = Some i" by (auto split: if_splits)
    obtain o1 e1 where 1: "emitAlert entry (arrow_label d (an_Value an)) i e = (o1, e1)" by fastforce
    obtain o2 e2 where 2: "poll_answers m entry d ans e1 = (o2, e2)" by fastforce
    show ?thesis using Cons [of e1] emitAlert_report [of entry "arrow_label d (an_Value an)" i e]
      by (simp add: h 1 2 map_filter_simps)
  qed
qed (simp add: map_filter_simps)

lemma poll_entry_report:
  "List.map alert_report (alerts_of (fst (poll_entry m entry e))) = List.map (hit_report entry) (entry_hits m entry)"
proof -
  let ?d = "entry_domain entry"
  obtain o1 e1 where 1: "(case MatchDomain m ?d of Some i \<Rightarrow> emitAlert entry ?d i e | None \<Rightarrow> ([], e)) = (o1, e1)" by fastforce
  obtain o2 e2 where 2: "poll_answers m entry ?d (ql_Answer entry) e1 = (o2, e2)" by fastforce
  have "List.map alert_report (alerts_of o1) = List.map (hit_report entry) (case MatchDomain m ?d of Some i \<Rightarrow> [(?d, i)] | None \<Rightarrow> [])"
    using emitAlert_report [of entry ?d "the (MatchDomain m ?d)" e] 1 by (cases "MatchDomain m ?d") auto
  then show ?thesis using poll_answers_report [of m entry ?d "ql_Answer entry" e1]
    by (simp add: poll_entry_def entry_hits_def Let_def 1 2)
qed

lemma poll_entry_lastSeen: "engine_ok e \<Longrightarrow> poll_entry m entry e = (o1, e1) \<Longrightarrow> en_lastSeen e1 = en_lastSeen e \<and> engine_ok e1"
  using poll_entry_emits [of e m entry] emits_ok [of e "(o1, e1)"] by (auto simp: emits_def)

lemma poll_loop_report:
  "engine_ok e \<Longrightarrow> sorted_wrt (\<lambda>x y. ql_Time y \<le> ql_Time x) entries \<Longrightarrow>
     List.map alert_report (alerts_of (fst (poll_loop m entries e))) =
       concat (List.map (\<lambda>en. List.map (hit_report en) (entry_hits m en)) (filter (\<lambda>en. ql_Time en > en_lastSeen e) entries))"
proof (induction entries arbitrary: e)
  case (Cons entry entries)
  show ?case
  proof (cases "ql_Time entry > en_lastSeen e")
    case True
    obtain o1 e1 where 1: "poll_entry m entry e = (o1, e1)" by fastforce
    obtain o2 e2 where 2: "poll_loop m entries e1 = (o2, e2)" by fastforce
    have "en_lastSeen e1 = en_lastSeen e" "engine_ok e1" using poll_entry_lastSeen [OF Cons.prems(1) 1] by auto
    then show ?thesis using Cons.IH [of e1] Cons.prems(2) poll_entry_report [of m entry e] True by (simp add: 1 2)
  next
    case False
    with Cons.prems(2) have "filter (\<lambda>en. ql_Time en > en_lastSeen e) entries = []"
      by (fastforce simp: filter_empty_conv)
    with False show ?thesis by simp
  qed
qed simp

lemma poll_lastSeen:
  assumes "engine_ok e"
  shows "en_lastSeen (snd (poll m (Some entries) e)) = (case entries of [] \<Rightarrow> en_lastSeen e | x # _ \<Rightarrow> max (en_lastSeen e) (ql_Time x))"
proof -
  obtain o1 e1 where 1: "poll_loop m entries e = (o1, e1)" by fastforce
  then have "en_lastSeen e1 = en_lastSeen e" using poll_loop_emits [OF assms, of m entries] by (simp add: emits_def)
  then show ?thesis by (simp add: poll_def 1 max_def split: list.split)
qed

text \<open>
  Property C8. A poll reports exactly what is new. If AdGuard lists its log newest first, the alerts of a
  poll are the hits of the entries newer than the last one seen, one per hit and in order; and polling the
  same log again raises nothing.
\<close>

theorem poll_reports_exactly_new:
  assumes "engine_ok e" and "sorted_wrt (\<lambda>x y. ql_Time y \<le> ql_Time x) entries"
  shows "List.map alert_report (alerts_of (fst (poll m (Some entries) e))) =
           concat (List.map (\<lambda>en. List.map (hit_report en) (entry_hits m en)) (filter (\<lambda>en. ql_Time en > en_lastSeen e) entries))
    \<and> fst (poll m' (Some entries) (snd (poll m (Some entries) e))) = []"
proof
  have "fst (poll m (Some entries) e) = fst (poll_loop m entries e)" by (simp add: poll_def split: prod.split)
  then show "List.map alert_report (alerts_of (fst (poll m (Some entries) e))) =
      concat (List.map (\<lambda>en. List.map (hit_report en) (entry_hits m en)) (filter (\<lambda>en. ql_Time en > en_lastSeen e) entries))"
    using poll_loop_report [OF assms] by simp
  show "fst (poll m' (Some entries) (snd (poll m (Some entries) e))) = []"
  proof (cases entries)
    case (Cons x xs)
    define e1 where "e1 = snd (poll m (Some entries) e)"
    have "ql_Time x \<le> en_lastSeen e1" using poll_lastSeen [OF assms(1), of m entries] by (simp add: e1_def Cons)
    then show ?thesis unfolding e1_def [symmetric] by (simp add: poll_def Cons)
  qed (simp add: poll_def)
qed

definition sample_entry :: "string \<Rightarrow> instant \<Rightarrow> query_log_entry" where
  "sample_entry host t = \<lparr> ql_Host = host, ql_QType = ''A'', ql_Answer = [], ql_Client = ''192.168.1.7'', ql_Time = t \<rparr>"

theorem poll_reports_exactly_new_witness:
  "List.map alert_report (alerts_of (fst (poll (matcher_of [[sample_ioc ''domain'' ''evil.com'' 90]])
      (Some [sample_entry ''x.evil.com.'' 30, sample_entry ''evil.com'' 20, sample_entry ''evil.com'' 10]) (NewEngine 10))))
   = [(30, ''192.168.1.7'', ''x.evil.com'', ''evil.com'', 90), (20, ''192.168.1.7'', ''evil.com'', ''evil.com'', 90)]"
proof -
  let ?m = "matcher_of [[sample_ioc ''domain'' ''evil.com'' 90]]"
  let ?es = "[sample_entry ''x.evil.com.'' 30, sample_entry ''evil.com'' 20, sample_entry ''evil.com'' 10]"
  have "engine_ok (NewEngine 10)" "sorted_wrt (\<lambda>x y. ql_Time y \<le> ql_Time x) ?es"
    by (simp_all add: engine_ok_def NewEngine_def sample_entry_def)
  from poll_reports_exactly_new [OF this, of ?m ?m]
  have "List.map alert_report (alerts_of (fst (poll ?m (Some ?es) (NewEngine 10)))) =
      concat (List.map (\<lambda>en. List.map (hit_report en) (entry_hits ?m en)) (filter (\<lambda>en. ql_Time en > en_lastSeen (NewEngine 10)) ?es))" by blast
  also have "\<dots> = [(30, ''192.168.1.7'', ''x.evil.com'', ''evil.com'', 90), (20, ''192.168.1.7'', ''evil.com'', ''evil.com'', 90)]" by code_simp
  finally show ?thesis .
qed

subsection \<open>What leaves the engine fits the contract\<close>

text \<open>
  Everything a matcher stores went through \<open>DeriveSeverity\<close>, so its severity is one of the four of the
  contract, and its type one of the matcher's.
\<close>

definition severities :: "string set" where
  "severities = {SeverityCritical, SeverityHigh, SeverityMedium, SeverityLow}"

definition ioc_enriched :: "ioc \<Rightarrow> bool" where
  "ioc_enriched i \<longleftrightarrow> ioc_Severity i \<in> severities \<and> ioc_Type i \<in> set validIoCTypes"

definition matcher_enriched :: "matcher \<Rightarrow> bool" where
  "matcher_enriched m \<longleftrightarrow> (\<forall>k i. mget (mt_domains m) k = Some i \<longrightarrow> ioc_enriched i)
     \<and> (\<forall>k i. mget (mt_ips m) k = Some i \<longrightarrow> ioc_enriched i) \<and> (\<forall>k e. mget (mt_cidrs m) k = Some e \<longrightarrow> ioc_enriched (ce_ioc e))
     \<and> (\<forall>k i. mget (mt_hashes m) k = Some i \<longrightarrow> ioc_enriched i)"

lemma SeverityForConfidence_derived: "SeverityForConfidence (ioc_Confidence i) = DeriveSeverity i"
  by (simp add: SeverityForConfidence_def DeriveSeverity_def)

lemma SeverityForConfidence_in: "SeverityForConfidence c \<in> severities"
  by (simp add: SeverityForConfidence_def severities_def)

lemma enriched_fields [simp]: "ioc_Severity (enriched i) = DeriveSeverity i" "ioc_Type (enriched i) = ioc_Type i"
  "ioc_Confidence (enriched i) = ioc_Confidence i"
  by (simp_all add: enriched_def Let_def)

lemma DeriveSeverity_in: "DeriveSeverity i \<in> severities"
  by (simp add: DeriveSeverity_def severities_def)

lemma entries_enriched:
  "domain_entry i = Some (k, v) \<Longrightarrow> ioc_enriched v"
  "ip_entry i = Some (k, v) \<Longrightarrow> ioc_enriched v"
  "cidr_of i = Some (k, e) \<Longrightarrow> ioc_enriched (ce_ioc e)"
  "hash_entry i = Some (k, v) \<Longrightarrow> ioc_enriched v"
  subgoal by (auto simp: domain_entry_def ioc_enriched_def DeriveSeverity_in validIoCTypes_def split: if_splits sum.splits)
  subgoal by (auto simp: ip_entry_def ioc_enriched_def DeriveSeverity_in validIoCTypes_def split: if_splits option.splits)
  subgoal by (auto simp: cidr_of_def ioc_enriched_def DeriveSeverity_in validIoCTypes_def split: if_splits option.splits)
  subgoal by (auto simp: hash_entry_def ioc_enriched_def DeriveSeverity_in validIoCTypes_def split: if_splits)
  done

lemma put_entry_all:
  assumes "\<forall>k v. mget m k = Some v \<longrightarrow> P v" and "\<And>k v. e = Some (k, v) \<Longrightarrow> P v"
  shows "\<forall>k v. mget (put_entry conf e m) k = Some v \<longrightarrow> P v"
  using mget_put_entry [of conf e m] assms by blast

lemma matcher_enriched_add_one:
  assumes "matcher_enriched m"
  shows "matcher_enriched (snd (add_one i m))"
proof -
  note m = assms [unfolded matcher_enriched_def]
  have "\<forall>k v. mget (put_entry ioc_Confidence (domain_entry i) (mt_domains m)) k = Some v \<longrightarrow> ioc_enriched v"
    by (rule put_entry_all) (use m entries_enriched in blast)+
  moreover have "\<forall>k v. mget (put_entry ioc_Confidence (ip_entry i) (mt_ips m)) k = Some v \<longrightarrow> ioc_enriched v"
    by (rule put_entry_all) (use m entries_enriched in blast)+
  moreover have "\<forall>k v. mget (put_entry (\<lambda>e. ioc_Confidence (ce_ioc e)) (cidr_of i) (mt_cidrs m)) k = Some v \<longrightarrow> ioc_enriched (ce_ioc v)"
    by (rule put_entry_all [where P = "\<lambda>e. ioc_enriched (ce_ioc e)"]) (use m entries_enriched in blast)+
  moreover have "\<forall>k v. mget (put_entry ioc_Confidence (hash_entry i) (mt_hashes m)) k = Some v \<longrightarrow> ioc_enriched v"
    by (rule put_entry_all) (use m entries_enriched in blast)+
  ultimately show ?thesis by (simp add: matcher_enriched_def add_one_entries)
qed

interpretation me: machine "\<lambda>i m. snd (add_one i m)" matcher_enriched
  by unfold_locales (rule matcher_enriched_add_one)

lemma matcher_enriched_Add: "matcher_enriched m \<Longrightarrow> matcher_enriched (snd (Add f m))"
  unfolding snd_Add by (rule me.runs_ok)

interpretation mf: machine "\<lambda>f m. snd (Add f m)" matcher_enriched
  by unfold_locales (rule matcher_enriched_Add)

lemma matcher_of_enriched: "matcher_enriched (matcher_of feeds)"
proof -
  have "matcher_enriched NewMatcher" by (simp add: matcher_enriched_def NewMatcher_def)
  then show ?thesis unfolding matcher_of_def by (rule mf.runs_ok)
qed

lemma MatchDomain_enriched: "matcher_enriched m \<Longrightarrow> MatchDomain m d = Some i \<Longrightarrow> ioc_enriched i"
  by (auto simp: MatchDomain_def matcher_enriched_def dest!: match_suffixes_Some)

lemma MatchIP_enriched:
  assumes "matcher_ok m" "matcher_enriched m" "MatchIP m ip = Some i"
  shows "ioc_enriched i"
proof -
  obtain a where a: "parse_ip (trim_space ip) = Some a" using assms(3) by (auto simp: MatchIP_def split: option.splits)
  show ?thesis
  proof (cases "mget (mt_ips m) (addr_string a)")
    case None
    then obtain k e where f: "find (\<lambda>(_, e). ipnet_contains (ce_net e) a) (mt_cidrs m) = Some (k, e)" "i = ce_ioc e"
      using assms(3) a by (auto simp: MatchIP_def)
    then have "(k, e) \<in> set (mt_cidrs m)" by (auto simp: find_Some_iff in_set_conv_nth)
    then have "mget (mt_cidrs m) k = Some e" using assms(1) by (simp add: matcher_ok_def mget_Some_in)
    then show ?thesis using assms(2) f(2) by (auto simp: matcher_enriched_def)
  next
    case (Some j)
    then show ?thesis using assms a by (auto simp: MatchIP_def matcher_enriched_def)
  qed
qed

definition event_fits :: "detection_event \<Rightarrow> bool" where
  "event_fits ev \<longleftrightarrow> de_SchemaVersion ev = ''1.0'' \<and> de_IoCType ev \<in> set validIoCTypes \<and> de_Severity ev \<in> severities
     \<and> de_Source ev \<noteq> [] \<and> de_ID ev \<noteq> []"

lemma AlertToEvent_fields [simp]:
  "de_ClientMAC (AlertToEvent a) = al_ClientMAC a" "de_ClientIP (AlertToEvent a) = al_ClientIP a"
  "de_Confidence (AlertToEvent a) = al_Confidence a" "de_SignalClass (AlertToEvent a) = al_SignalClass a"
  "de_Signals (AlertToEvent a) = al_Signals a" "de_SignalCount (AlertToEvent a) = al_SignalCount a"
  "de_Severity (AlertToEvent a) = (if al_Severity a = [] then SeverityForConfidence (al_Confidence a) else al_Severity a)"
  by (simp_all add: AlertToEvent_def Let_def)

lemma AlertToEvent_IoCType: "de_IoCType (AlertToEvent a) \<in> set validIoCTypes"
  by (simp add: AlertToEvent_def validIoCTypes_def Let_def)

definition alert_fits :: "alert \<Rightarrow> bool" where
  "alert_fits a \<longleftrightarrow> al_Severity a \<in> severities \<and> al_Source a \<noteq> [] \<and> al_ID a \<noteq> [] \<and> al_SignalClass a = SignalIoC"

lemma emitAlert_fits: "ioc_enriched i \<Longrightarrow> a \<in> set (alerts_of (fst (emitAlert entry d i e))) \<Longrightarrow> alert_fits a"
  by (auto simp: emitAlert_def addAlert_def next_id_def alert_fits_def ioc_enriched_def severities_def Let_def split: prod.splits)

lemma poll_answers_fits:
  "matcher_ok m \<Longrightarrow> matcher_enriched m \<Longrightarrow> a \<in> set (alerts_of (fst (poll_answers m entry d ans e))) \<Longrightarrow> alert_fits a"
proof (induction ans arbitrary: e)
  case (Cons an ans)
  show ?case
  proof (cases "if address_answer an then MatchIP m (an_Value an) else None")
    case None
    with Cons show ?thesis by auto
  next
    case (Some i)
    then have i: "ioc_enriched i" using MatchIP_enriched [OF Cons.prems(1,2)] by (auto split: if_splits)
    obtain o1 e1 where 1: "emitAlert entry (arrow_label d (an_Value an)) i e = (o1, e1)" by fastforce
    obtain o2 e2 where 2: "poll_answers m entry d ans e1 = (o2, e2)" by fastforce
    from Cons.prems(3) Some have "a \<in> set (alerts_of o1) \<or> a \<in> set (alerts_of o2)" by (auto simp: 1 2)
    then show ?thesis
      using emitAlert_fits [OF i, of a entry "arrow_label d (an_Value an)" e] Cons.IH [OF Cons.prems(1,2), of e1]
      by (auto simp: 1 2)
  qed
qed simp

lemma poll_entry_fits:
  assumes "matcher_ok m" "matcher_enriched m" "a \<in> set (alerts_of (fst (poll_entry m entry e)))"
  shows "alert_fits a"
proof -
  let ?d = "entry_domain entry"
  obtain o1 e1 where 1: "(case MatchDomain m ?d of Some i \<Rightarrow> emitAlert entry ?d i e | None \<Rightarrow> ([], e)) = (o1, e1)" by fastforce
  obtain o2 e2 where 2: "poll_answers m entry ?d (ql_Answer entry) e1 = (o2, e2)" by fastforce
  from assms(3) consider "a \<in> set (alerts_of o1)" | "a \<in> set (alerts_of o2)" by (auto simp: poll_entry_def Let_def 1 2)
  then show ?thesis
  proof cases
    case 1
    then show ?thesis using \<open>(case MatchDomain m ?d of Some i \<Rightarrow> _ i | None \<Rightarrow> _) = (o1, e1)\<close> MatchDomain_enriched [OF assms(2), of ?d]
        emitAlert_fits [of "the (MatchDomain m ?d)" a entry ?d e]
      by (cases "MatchDomain m ?d") auto
  next
    case 2
    then show ?thesis using poll_answers_fits [OF assms(1,2), of a entry ?d "ql_Answer entry" e1]
        \<open>poll_answers m entry ?d (ql_Answer entry) e1 = (o2, e2)\<close> by simp
  qed
qed

lemma poll_loop_fits:
  "matcher_ok m \<Longrightarrow> matcher_enriched m \<Longrightarrow> a \<in> set (alerts_of (fst (poll_loop m entries e))) \<Longrightarrow> alert_fits a"
proof (induction entries arbitrary: e)
  case (Cons entry entries)
  obtain o1 e1 where 1: "poll_entry m entry e = (o1, e1)" by fastforce
  obtain o2 e2 where 2: "poll_loop m entries e1 = (o2, e2)" by fastforce
  from Cons.prems(3) have "a \<in> set (alerts_of o1) \<or> a \<in> set (alerts_of o2)" by (auto simp: 1 2 split: if_splits)
  then show ?case using poll_entry_fits [OF Cons.prems(1,2), of a entry e] Cons.IH [OF Cons.prems(1,2), of e1] by (auto simp: 1 2)
qed simp


end
