(* ===== verification/GoFloat.thy ===== *)
theory GoFloat
  imports Complex_Main Prelude
begin

text \<open>
  The part of Go's \<open>float64\<close> the program computes with: numbers of [0, 128), each operation rounded to the
  nearest multiple of the precision, ties to even. A value is the rational it stands for; \<open>f64\<close> is the
  rounding, with 53 significant bits down to the smallest subnormal 2^-1074. What the composite confidence
  needs of it is the locale \<open>rounding\<close>, so its bounds hold for any rounding with these laws.
\<close>

text \<open>Round to the nearest integer, ties to even.\<close>

definition rne :: "rat \<Rightarrow> int" where
  "rne x = (let f = \<lfloor>x\<rfloor>; d = x - of_int f in
     if d < 1 / 2 then f else if d > 1 / 2 then f + 1 else if even f then f else f + 1)"

text \<open>The number of fractional bits: the least k with x * 2^k >= 2^52.\<close>

function f64_bits :: "rat \<Rightarrow> nat \<Rightarrow> nat" where
  "f64_bits x k = (if k \<ge> 1074 \<or> x * 2 ^ k \<ge> 2 ^ 52 then k else f64_bits x (Suc k))"
  by pat_completeness auto
termination by (relation "measure (\<lambda>(x, k). 1074 - k)") auto

declare f64_bits.simps [simp del]

definition f64 :: "rat \<Rightarrow> rat" where
  "f64 x = (let k = f64_bits x 0 in of_int (rne (x * 2 ^ k)) / 2 ^ k)"

subsection \<open>Rounding to an integer\<close>

lemma rne_int [simp]: "rne (of_int n) = n"
  by (simp add: rne_def)

lemma rne_near: "\<bar>of_int (rne x) - x\<bar> \<le> 1 / 2"
proof -
  have "of_int \<lfloor>x\<rfloor> \<le> x" "x < of_int \<lfloor>x\<rfloor> + 1" by linarith+
  then show ?thesis by (auto simp: rne_def Let_def abs_le_iff)
qed

lemma rne_mono: "x \<le> y \<Longrightarrow> rne x \<le> rne y"
proof (cases "\<lfloor>x\<rfloor> = \<lfloor>y\<rfloor>")
  case True
  assume "x \<le> y"
  with True show ?thesis by (auto simp: rne_def Let_def)
next
  case False
  assume "x \<le> y"
  with False have "\<lfloor>x\<rfloor> + 1 \<le> \<lfloor>y\<rfloor>" using floor_mono [of x y] by linarith
  moreover have "rne x \<le> \<lfloor>x\<rfloor> + 1" "\<lfloor>y\<rfloor> \<le> rne y" by (auto simp: rne_def Let_def)
  ultimately show ?thesis by linarith
qed

subsection \<open>The laws of the rounding\<close>

locale rounding =
  fixes r :: "rat \<Rightarrow> rat"
  assumes mono: "0 \<le> x \<Longrightarrow> x \<le> y \<Longrightarrow> r x \<le> r y"
    and idem: "0 \<le> x \<Longrightarrow> r (r x) = r x"
    and near: "0 \<le> x \<Longrightarrow> x \<le> 128 \<Longrightarrow> \<bar>r x - x\<bar> \<le> 1 / 2 ^ 46"
    and small_ints: "n \<le> 256 \<Longrightarrow> r (of_nat n / 2) = of_nat n / 2"
begin

lemma nonneg: "0 \<le> x \<Longrightarrow> 0 \<le> r x"
  using mono [of 0 x] small_ints [of 0] by simp

lemma exact [simp]: "r 0 = 0" "r 1 = 1" "r 100 = 100" "r (201 / 2) = 201 / 2"
  using small_ints [of 0] small_ints [of 2] small_ints [of 200] small_ints [of 201] by simp_all

lemma le_1: "0 \<le> x \<Longrightarrow> x \<le> 1 \<Longrightarrow> r x \<le> 1"
  using mono [of x 1] by simp

lemma mult_le: "0 \<le> x \<Longrightarrow> r x = x \<Longrightarrow> 0 \<le> y \<Longrightarrow> y \<le> 1 \<Longrightarrow> r (x * y) \<le> x"
  using mono [of "x * y" x] mult_left_mono [of y 1 x] by simp

end

lemma f64_bits_least:
  "k \<le> f64_bits x k \<and> (\<forall>j. k \<le> j \<and> j < f64_bits x k \<longrightarrow> j < 1074 \<and> x * 2 ^ j < 2 ^ 52)
     \<and> (f64_bits x k \<ge> 1074 \<or> x * 2 ^ f64_bits x k \<ge> 2 ^ 52)"
proof (induction x k rule: f64_bits.induct)
  case (1 x k)
  show ?case
  proof (cases "k \<ge> 1074 \<or> x * 2 ^ k \<ge> 2 ^ 52")
    case True
    then show ?thesis by (simp add: f64_bits.simps [of x k])
  next
    case False
    have "j < 1074 \<and> x * 2 ^ j < 2 ^ 52" if "k \<le> j" "j < f64_bits x (Suc k)" for j
      using that False 1 [OF False] by (cases "j = k") auto
    then show ?thesis using False 1 [OF False] by (simp add: f64_bits.simps [of x k])
  qed
qed

lemma f64_bits_upper: "j < f64_bits x 0 \<Longrightarrow> j < 1074 \<and> x * 2 ^ j < 2 ^ 52"
  using f64_bits_least [of 0 x] by simp

lemma f64_bits_lower: "f64_bits x 0 < 1074 \<Longrightarrow> x * 2 ^ f64_bits x 0 \<ge> 2 ^ 52"
  using f64_bits_least [of 0 x] by simp

lemma f64_bits_max: "f64_bits x 0 \<le> 1074"
  using f64_bits_upper [of "f64_bits x 0 - 1" x] by (cases "f64_bits x 0") auto

lemma f64_bits_anti: "0 \<le> x \<Longrightarrow> x \<le> y \<Longrightarrow> f64_bits y 0 \<le> f64_bits x 0"
proof (rule ccontr)
  assume "0 \<le> x" "x \<le> y" "\<not> f64_bits y 0 \<le> f64_bits x 0"
  then have *: "f64_bits x 0 < 1074" "y * 2 ^ f64_bits x 0 < 2 ^ 52" using f64_bits_upper [of "f64_bits x 0" y] by auto
  from \<open>x \<le> y\<close> have "x * 2 ^ f64_bits x 0 \<le> y * 2 ^ f64_bits x 0" by (rule mult_right_mono) simp
  with * f64_bits_lower [of x] show False by linarith
qed

subsection \<open>\<open>f64\<close> has the laws\<close>

lemma f64_exact: "x * 2 ^ f64_bits x 0 = of_int n \<Longrightarrow> f64 x = x"
  by (simp add: f64_def Let_def) (metis nonzero_mult_div_cancel_right power_not_zero rne_int zero_neq_numeral)

lemma f64_le_top:
  assumes "0 < f64_bits x 0"
  shows "f64 x * 2 ^ f64_bits x 0 \<le> 2 ^ 53"
proof -
  obtain k where k: "f64_bits x 0 = Suc k" using assms by (cases "f64_bits x 0") auto
  then have "x * 2 ^ k < 2 ^ 52" using f64_bits_upper [of k x] by simp
  then have "x * 2 ^ Suc k \<le> of_int (2 ^ 53)" by simp
  from rne_mono [OF this] have "rne (x * 2 ^ Suc k) \<le> 2 ^ 53" by (simp only: rne_int)
  then have "of_int (rne (x * 2 ^ Suc k)) \<le> (of_int (2 ^ 53) :: rat)" by (simp only: of_int_le_iff)
  then show ?thesis by (simp add: f64_def Let_def k)
qed

lemma f64_ge_bottom:
  assumes "f64_bits x 0 < 1074"
  shows "2 ^ 52 \<le> f64 x * 2 ^ f64_bits x 0"
proof -
  have "of_int (2 ^ 52) \<le> x * 2 ^ f64_bits x 0" using f64_bits_lower [OF assms] by simp
  from rne_mono [OF this] have "2 ^ 52 \<le> rne (x * 2 ^ f64_bits x 0)" by (simp only: rne_int)
  then have "of_int (2 ^ 52) \<le> (of_int (rne (x * 2 ^ f64_bits x 0)) :: rat)" by (simp only: of_int_le_iff)
  then show ?thesis by (simp add: f64_def Let_def)
qed

lemma f64_mono:
  assumes "0 \<le> x" "x \<le> y"
  shows "f64 x \<le> f64 y"
proof (cases "f64_bits y 0 = f64_bits x 0")
  case True
  have "x * 2 ^ f64_bits x 0 \<le> y * 2 ^ f64_bits x 0" using assms(2) by (rule mult_right_mono) simp
  from rne_mono [OF this] show ?thesis by (simp add: f64_def Let_def True divide_right_mono)
next
  case False
  with f64_bits_anti [OF assms] have lt: "f64_bits y 0 < f64_bits x 0" by simp
  then obtain k where k: "f64_bits x 0 = Suc k" "f64_bits y 0 \<le> k" by (cases "f64_bits x 0") auto
  have "f64 x * 2 ^ k \<le> 2 ^ 52" using f64_le_top [of x] k by simp
  also have "\<dots> \<le> f64 y * 2 ^ f64_bits y 0" using f64_ge_bottom [of y] f64_bits_max [of x] lt by simp
  also have "\<dots> \<le> f64 y * 2 ^ k"
  proof (rule mult_left_mono)
    have "0 < f64 y * 2 ^ f64_bits y 0" using f64_ge_bottom [of y] f64_bits_max [of x] lt by simp
    then show "0 \<le> f64 y" by (simp add: zero_less_mult_iff)
  qed (simp add: k)
  finally show ?thesis by simp
qed

lemma f64_idem: "f64 (f64 x) = f64 x"
proof -
  define y where "y = f64 x"
  define n where "n = rne (x * 2 ^ f64_bits x 0)"
  have y: "y * 2 ^ f64_bits x 0 = of_int n" by (simp add: y_def n_def f64_def Let_def)
  show ?thesis
  proof (cases "f64_bits x 0 \<le> f64_bits y 0")
    case True
    then obtain j where j: "f64_bits y 0 = f64_bits x 0 + j" by (auto simp: le_iff_add)
    have "y * 2 ^ f64_bits y 0 = of_int (n * 2 ^ j)" by (simp add: j power_add y flip: mult.assoc)
    then show ?thesis using f64_exact y_def by blast
  next
    case False
    then obtain k where k: "f64_bits x 0 = Suc k" "f64_bits y 0 \<le> k" by (cases "f64_bits x 0") auto
    have up: "y * 2 ^ k \<le> 2 ^ 52" using f64_le_top [of x] k by (simp add: y_def)
    have low: "2 ^ 52 \<le> y * 2 ^ f64_bits y 0" using f64_bits_lower [of y] f64_bits_max [of x] False by simp
    then have "0 < y * 2 ^ f64_bits y 0" by (rule order_less_le_trans [rotated]) simp
    then have "0 \<le> y" by (simp add: zero_less_mult_iff)
    then have "y * 2 ^ f64_bits y 0 \<le> y * 2 ^ k" using k(2) by (simp add: mult_left_mono)
    with up low have "y * 2 ^ f64_bits y 0 = of_int (2 ^ 52)" by simp
    then show ?thesis using f64_exact y_def by blast
  qed
qed

lemma f64_bits_45: "x \<le> 128 \<Longrightarrow> 45 \<le> f64_bits x 0"
proof (rule ccontr)
  assume "x \<le> 128" "\<not> 45 \<le> f64_bits x 0"
  then have "2 ^ 52 \<le> x * 2 ^ f64_bits x 0" using f64_bits_lower [of x] by simp
  also have "\<dots> \<le> 128 * 2 ^ f64_bits x 0" using \<open>x \<le> 128\<close> by simp
  also have "\<dots> \<le> 128 * 2 ^ 44" using \<open>\<not> 45 \<le> f64_bits x 0\<close> by (intro mult_left_mono power_increasing) auto
  finally show False by simp
qed

lemma f64_near:
  assumes "x \<le> 128"
  shows "\<bar>f64 x - x\<bar> \<le> 1 / 2 ^ 46"
proof -
  let ?k = "f64_bits x 0"
  have "f64 x - x = (of_int (rne (x * 2 ^ ?k)) - x * 2 ^ ?k) / 2 ^ ?k" by (simp add: f64_def Let_def field_simps)
  then have "\<bar>f64 x - x\<bar> = \<bar>of_int (rne (x * 2 ^ ?k)) - x * 2 ^ ?k\<bar> / 2 ^ ?k" by (simp only: abs_divide) simp
  also have "\<dots> \<le> (1 / 2) / 2 ^ ?k" by (rule divide_right_mono [OF rne_near]) simp
  also have "\<dots> \<le> (1 / 2) / 2 ^ 45" using f64_bits_45 [OF assms] by (intro divide_left_mono power_increasing) auto
  finally show ?thesis by simp
qed

lemma f64_halves:
  assumes "n \<le> 256"
  shows "f64 (of_nat n / 2) = of_nat n / 2"
proof -
  have "(of_nat n :: rat) \<le> of_nat 256" using assms by (simp only: of_nat_le_iff)
  then have "45 \<le> f64_bits (of_nat n / 2) 0" by (intro f64_bits_45) simp
  then obtain k where k: "f64_bits (of_nat n / 2) 0 = Suc k" by (cases "f64_bits (of_nat n / 2) 0") auto
  have "of_nat n / 2 * 2 ^ f64_bits (of_nat n / 2) 0 = (of_int (int n * 2 ^ k) :: rat)" by (simp add: k)
  then show ?thesis by (rule f64_exact)
qed

interpretation fl: rounding f64
proof
  show "f64 (f64 x) = f64 x" if "0 \<le> x" for x by (rule f64_idem)
qed (rule f64_mono f64_near f64_halves; assumption)+

subsection \<open>Evaluation\<close>

text \<open>The same computation on numerator and denominator, for the code generator.\<close>

function int_bits :: "int \<Rightarrow> int \<Rightarrow> nat \<Rightarrow> int \<times> nat" where
  "int_bits n d k = (if k \<ge> 1074 \<or> n \<ge> d then (n, k) else int_bits (2 * n) d (Suc k))"
  by pat_completeness auto
termination by (relation "measure (\<lambda>(n, d, k). 1074 - k)") auto

declare int_bits.simps [simp del]

definition div_ne :: "int \<Rightarrow> int \<Rightarrow> int" where
  "div_ne n d = (let q = n div d; m = 2 * (n mod d) in if m < d then q else if m > d then q + 1 else if even q then q else q + 1)"

lemma rne_div: "0 < d \<Longrightarrow> rne (of_int n / of_int d) = div_ne n d"
proof -
  assume d: "0 < d"
  have f: "\<lfloor>(of_int n :: rat) / of_int d\<rfloor> = n div d" by (rule floor_divide_of_int_eq)
  have "(of_int n :: rat) = of_int (n div d) * of_int d + of_int (n mod d)" by (metis div_mult_mod_eq of_int_add of_int_mult)
  then have m: "(of_int n :: rat) / of_int d - of_int (n div d) = of_int (n mod d) / of_int d" using d by (simp add: field_simps)
  have lt: "(of_int (n mod d) :: rat) / of_int d < 1 / 2 \<longleftrightarrow> 2 * (n mod d) < d"
    using d by (simp add: field_simps) (metis of_int_less_iff of_int_mult of_int_numeral mult.commute)
  have gt: "1 / 2 < (of_int (n mod d) :: rat) / of_int d \<longleftrightarrow> d < 2 * (n mod d)"
    using d by (simp add: field_simps) (metis of_int_less_iff of_int_mult of_int_numeral mult.commute)
  show ?thesis by (simp only: rne_def div_ne_def Let_def f m lt gt)
qed

lemma int_bits_f64: "0 < d \<Longrightarrow> int_bits (n * 2 ^ k) (d * 2 ^ 52) k = (n * 2 ^ f64_bits (of_int n / of_int d) k, f64_bits (of_int n / of_int d) k)"
proof (induction "of_int n / of_int d :: rat" k rule: f64_bits.induct)
  case (1 k)
  have "(2 ^ 52 :: rat) \<le> of_int n / of_int d * 2 ^ k \<longleftrightarrow> (of_int (d * 2 ^ 52) :: rat) \<le> of_int (n * 2 ^ k)"
    using 1(2) by (simp add: field_simps)
  then have iff: "(2 ^ 52 :: rat) \<le> of_int n / of_int d * 2 ^ k \<longleftrightarrow> d * 2 ^ 52 \<le> n * 2 ^ k" by (simp only: of_int_le_iff)
  show ?case
  proof (cases "k \<ge> 1074 \<or> d * 2 ^ 52 \<le> n * 2 ^ k")
    case True
    then show ?thesis using iff by (simp add: int_bits.simps [of "n * 2 ^ k"] f64_bits.simps [of "of_int n / of_int d" k])
  next
    case False
    then have "int_bits (n * 2 ^ Suc k) (d * 2 ^ 52) (Suc k) = (n * 2 ^ f64_bits (of_int n / of_int d) (Suc k), f64_bits (of_int n / of_int d) (Suc k))"
      using 1 iff by blast
    then show ?thesis using False iff
      by (simp add: int_bits.simps [of "n * 2 ^ k"] f64_bits.simps [of "of_int n / of_int d" k] mult.commute mult.left_commute)
  qed
qed

lemma f64_code [code]:
  "f64 x = (case quotient_of x of (n, d) \<Rightarrow> (case int_bits n (d * 4503599627370496) 0 of (m, k) \<Rightarrow> Fract (div_ne m d) (2 ^ k)))"
proof -
  obtain n d where q: "quotient_of x = (n, d)" by fastforce
  then have d: "0 < d" and x: "x = of_int n / of_int d" using quotient_of_denom_pos quotient_of_div by blast+
  have "x * 2 ^ f64_bits x 0 = of_int (n * 2 ^ f64_bits x 0) / of_int d" by (simp add: x)
  then have "rne (x * 2 ^ f64_bits x 0) = div_ne (n * 2 ^ f64_bits x 0) d" by (simp only: rne_div [OF d])
  moreover have "int_bits n (d * 4503599627370496) 0 = (n * 2 ^ f64_bits x 0, f64_bits x 0)"
    using int_bits_f64 [OF d, of n 0] by (simp add: x)
  ultimately show ?thesis by (simp add: f64_def q Let_def Fract_of_int_quotient)
qed

end
