(* ===== verification/Composite.thy ===== *)
theory Composite
  imports DetectEngine GoFloat "HOL-Library.List_Lexorder"
begin

text \<open>
  The composite-confidence correlator (\<open>detection-engine/internal/composite/composite.go\<close>): the signals of
  each client within a window, their noisy-OR in \<open>float64\<close>, and the composite alert. The mutex makes
  \<open>Observe\<close> one step; its instant is a parameter, the \<open>Emit\<close> callback its result. The order in which Go
  ranges over the clients in \<open>evict\<close> is that of the list, one of the possible ones.
\<close>

subsection \<open>Combined confidence\<close>

definition clamp_prob :: "(rat \<Rightarrow> rat) \<Rightarrow> int \<Rightarrow> rat" where
  "clamp_prob r c = (if c < 0 then 0 else if c > 100 then 1 else r (of_int c / 100))"

fun combine_inv :: "(rat \<Rightarrow> rat) \<Rightarrow> rat \<Rightarrow> int list \<Rightarrow> rat" where
  "combine_inv r acc [] = acc"
| "combine_inv r acc (c # cs) = combine_inv r (r (acc * r (1 - clamp_prob r c))) cs"

definition combine_round :: "(rat \<Rightarrow> rat) \<Rightarrow> rat \<Rightarrow> int" where
  "combine_round r acc = \<lfloor>r (r (r (1 - acc) * 100) + 1 / 2)\<rfloor>"

definition clampProb :: "int \<Rightarrow> rat" where
  "clampProb = clamp_prob f64"

definition combine :: "int list \<Rightarrow> int" where
  "combine confidences = combine_round f64 (combine_inv f64 1 confidences)"

text \<open>What the comment on \<open>combine\<close> specifies: the probabilistic OR, in percent.\<close>

definition clamp :: "int \<Rightarrow> int" where
  "clamp c = max 0 (min 100 c)"

fun all_miss :: "int list \<Rightarrow> rat" where
  "all_miss [] = 1"
| "all_miss (c # cs) = (1 - of_int (clamp c) / 100) * all_miss cs"

definition noisy_or :: "int list \<Rightarrow> rat" where
  "noisy_or cs = 100 * (1 - all_miss cs)"

lemma all_miss_range: "0 \<le> all_miss cs \<and> all_miss cs \<le> 1"
  by (induction cs) (auto simp: clamp_def intro!: mult_le_one)

lemma all_miss_append: "all_miss (xs @ ys) = all_miss xs * all_miss ys"
  by (induction xs) simp_all

lemma rounding_chain:
  fixes f w b a x q d e :: rat
  assumes "\<bar>a - (1 - x)\<bar> \<le> d" "\<bar>b - a * 100\<bar> \<le> d" "\<bar>w - (b + 1 / 2)\<bar> \<le> d" "\<bar>x - q\<bar> \<le> e" "f \<le> w" "w < f + 1"
  shows "\<bar>f - 100 * (1 - q)\<bar> \<le> 1 / 2 + 100 * e + 102 * d"
proof -
  have "a \<le> 1 - x + d" "1 - x - d \<le> a" "b \<le> a * 100 + d" "a * 100 - d \<le> b" "w \<le> b + 1 / 2 + d" "b + 1 / 2 - d \<le> w"
    "x \<le> q + e" "q - e \<le> x" using assms(1-4) by (simp_all add: abs_le_iff)
  with assms(5,6) have "f \<le> 100 * (1 - q) + (1 / 2 + 100 * e + 102 * d)" "100 * (1 - q) - (1 / 2 + 100 * e + 102 * d) \<le> f"
    by (simp_all add: algebra_simps)
  then show ?thesis by (simp add: abs_le_iff)
qed

context rounding
begin

lemma clamp_range: "0 \<le> clamp_prob r c \<and> clamp_prob r c \<le> 1"
  using nonneg [of "of_int c / 100"] le_1 [of "of_int c / 100"] by (auto simp: clamp_prob_def)

lemma miss_range: "0 \<le> r (1 - clamp_prob r c) \<and> r (1 - clamp_prob r c) \<le> 1"
  using clamp_range [of c] nonneg le_1 by simp

lemma step_range: "0 \<le> acc \<Longrightarrow> r acc = acc \<Longrightarrow>
    0 \<le> r (acc * r (1 - clamp_prob r c)) \<and> r (acc * r (1 - clamp_prob r c)) \<le> acc
    \<and> r (r (acc * r (1 - clamp_prob r c))) = r (acc * r (1 - clamp_prob r c))"
  using miss_range [of c] by (auto intro: nonneg mult_le idem)

lemma combine_inv_le: "0 \<le> acc \<Longrightarrow> r acc = acc \<Longrightarrow>
    0 \<le> combine_inv r acc cs \<and> combine_inv r acc cs \<le> acc \<and> r (combine_inv r acc cs) = combine_inv r acc cs"
proof (induction cs arbitrary: acc)
  case (Cons c cs)
  note st = step_range [OF Cons.prems, of c]
  with Cons.IH [of "r (acc * r (1 - clamp_prob r c))"] show ?case by auto
qed simp

lemma combine_inv_mono: "0 \<le> acc \<Longrightarrow> acc \<le> acc' \<Longrightarrow> combine_inv r acc cs \<le> combine_inv r acc' cs"
proof (induction cs arbitrary: acc acc')
  case (Cons c cs)
  have "0 \<le> acc * r (1 - clamp_prob r c)" using Cons.prems miss_range [of c] by simp
  moreover have "acc * r (1 - clamp_prob r c) \<le> acc' * r (1 - clamp_prob r c)"
    using Cons.prems miss_range [of c] by (simp add: mult_right_mono)
  ultimately show ?case using Cons.IH by (simp add: mono nonneg)
qed simp

lemma combine_inv_append: "combine_inv r acc (xs @ ys) = combine_inv r (combine_inv r acc xs) ys"
  by (induction xs arbitrary: acc) simp_all

lemma combine_inv_insert: "combine_inv r 1 (xs @ c # ys) \<le> combine_inv r 1 (xs @ ys)"
proof -
  have "0 \<le> combine_inv r 1 xs" "r (combine_inv r 1 xs) = combine_inv r 1 xs" using combine_inv_le [of 1 xs] by auto
  from step_range [OF this, of c] show ?thesis by (simp add: combine_inv_append combine_inv_mono)
qed

lemma combine_inv_member: "combine_inv r 1 (xs @ c # ys) \<le> combine_inv r 1 [c]"
proof -
  have x: "0 \<le> combine_inv r 1 xs" "combine_inv r 1 xs \<le> 1" "r (combine_inv r 1 xs) = combine_inv r 1 xs"
    using combine_inv_le [of 1 xs] by auto
  from step_range [OF x(1) x(3), of c] combine_inv_le
  have "combine_inv r 1 (xs @ c # ys) \<le> r (combine_inv r 1 xs * r (1 - clamp_prob r c))" by (simp add: combine_inv_append)
  also have "\<dots> \<le> r (1 * r (1 - clamp_prob r c))"
    using x miss_range [of c] by (intro mono) (simp_all add: mult_left_le_one_le)
  finally show ?thesis by simp
qed

lemma combine_round_anti: "0 \<le> acc \<Longrightarrow> acc \<le> acc' \<Longrightarrow> acc' \<le> 1 \<Longrightarrow> combine_round r acc' \<le> combine_round r acc"
proof -
  assume i: "0 \<le> acc" "acc \<le> acc'" "acc' \<le> 1"
  then have "0 \<le> r (1 - acc')" "r (1 - acc') \<le> r (1 - acc)" by (auto intro: nonneg mono)
  then have "0 \<le> r (r (1 - acc') * 100)" "r (r (1 - acc') * 100) \<le> r (r (1 - acc) * 100)" by (auto intro!: nonneg mono)
  then have "r (r (r (1 - acc') * 100) + 1 / 2) \<le> r (r (r (1 - acc) * 100) + 1 / 2)" by (intro mono) auto
  then show ?thesis unfolding combine_round_def by (rule floor_mono)
qed

lemma combine_round_range: "0 \<le> acc \<Longrightarrow> acc \<le> 1 \<Longrightarrow> 0 \<le> combine_round r acc \<and> combine_round r acc \<le> 100"
proof -
  assume i: "0 \<le> acc" "acc \<le> 1"
  have "0 \<le> r (1 - acc)" "r (1 - acc) \<le> 1" using i by (auto intro: nonneg le_1)
  then have p: "0 \<le> r (r (1 - acc) * 100)" "r (r (1 - acc) * 100) \<le> 100"
    using mono [of "r (1 - acc) * 100" 100] by (auto intro: nonneg)
  then have "r (r (r (1 - acc) * 100) + 1 / 2) \<le> 201 / 2" using mono [of "r (r (1 - acc) * 100) + 1 / 2" "201 / 2"] by simp
  moreover have "0 \<le> r (r (r (1 - acc) * 100) + 1 / 2)" using p by (intro nonneg) simp
  ultimately show ?thesis unfolding combine_round_def by (simp add: floor_le_iff)
qed

text \<open>The rounding errors: at most three roundings a signal and three at the end.\<close>

lemma clamp_near: "\<bar>clamp_prob r c - of_int (clamp c) / 100\<bar> \<le> 1 / 2 ^ 46"
  using near [of "of_int c / 100"] by (auto simp: clamp_prob_def clamp_def max_def min_def)

lemma miss_near: "\<bar>r (1 - clamp_prob r c) - (1 - of_int (clamp c) / 100)\<bar> \<le> 2 / 2 ^ 46"
proof -
  define d :: rat where "d = 1 / 2 ^ 46"
  have "\<bar>r (1 - clamp_prob r c) - (1 - clamp_prob r c)\<bar> \<le> d" "\<bar>clamp_prob r c - of_int (clamp c) / 100\<bar> \<le> d"
    using near [of "1 - clamp_prob r c"] clamp_near [of c] clamp_range [of c] by (simp_all add: d_def)
  then have "\<bar>r (1 - clamp_prob r c) - (1 - of_int (clamp c) / 100)\<bar> \<le> 2 * d" by linarith
  then show ?thesis by (simp add: d_def)
qed

lemma step_near:
  assumes "0 \<le> acc" "acc \<le> 1" "\<bar>acc - q\<bar> \<le> e"
  shows "\<bar>r (acc * r (1 - clamp_prob r c)) - q * (1 - of_int (clamp c) / 100)\<bar> \<le> e + 3 / 2 ^ 46"
proof -
  define m where "m = r (1 - clamp_prob r c)"
  define p where "p = 1 - (of_int (clamp c) :: rat) / 100"
  have m: "0 \<le> m" "m \<le> 1" "\<bar>m - p\<bar> \<le> 2 / 2 ^ 46" using miss_range [of c] miss_near [of c] by (auto simp: m_def p_def)
  have p: "0 \<le> p" "p \<le> 1" by (auto simp: p_def clamp_def)
  have "acc * m - q * p = acc * (m - p) + (acc - q) * p" by (simp add: algebra_simps)
  then have "\<bar>acc * m - q * p\<bar> \<le> \<bar>acc * (m - p)\<bar> + \<bar>(acc - q) * p\<bar>" by (simp only: abs_triangle_ineq)
  also have "\<dots> \<le> \<bar>m - p\<bar> + \<bar>acc - q\<bar>"
    using assms(1,2) p by (simp add: abs_mult mult_left_le_one_le mult_right_le_one_le add_mono)
  finally have "\<bar>acc * m - q * p\<bar> \<le> 2 / 2 ^ 46 + e" using m assms(3) by linarith
  moreover have "\<bar>r (acc * m) - acc * m\<bar> \<le> 1 / 2 ^ 46" using assms m by (intro near) (auto intro: order_trans [OF mult_le_one])
  ultimately show ?thesis unfolding m_def [symmetric] p_def [symmetric] by linarith
qed

lemma combine_inv_near:
  "0 \<le> acc \<Longrightarrow> acc \<le> 1 \<Longrightarrow> r acc = acc \<Longrightarrow> \<bar>acc - q\<bar> \<le> e \<Longrightarrow>
     \<bar>combine_inv r acc cs - q * all_miss cs\<bar> \<le> e + of_nat (3 * length cs) / 2 ^ 46"
proof (induction cs arbitrary: acc q e)
  case (Cons c cs)
  note st = step_range [OF Cons.prems(1) Cons.prems(3), of c]
  with Cons.prems(2) have le: "r (acc * r (1 - clamp_prob r c)) \<le> 1" by linarith
  from Cons.IH [OF conjunct1 [OF st] le _ step_near [OF Cons.prems(1,2,4), of c]] st
  show ?case by (simp add: mult.assoc algebra_simps add_divide_distrib)
qed simp

lemma combine_round_near:
  assumes "0 \<le> acc" "acc \<le> 1" "\<bar>acc - q\<bar> \<le> e"
  shows "\<bar>of_int (combine_round r acc) - 100 * (1 - q)\<bar> \<le> 1 / 2 + 100 * e + 102 / 2 ^ 46"
proof -
  define a b d where "a = r (1 - acc)" and "b = r (a * 100)" and "d = (1 / 2 ^ 46 :: rat)"
  have a: "\<bar>a - (1 - acc)\<bar> \<le> d" "0 \<le> a" "a \<le> 1"
    using assms near [of "1 - acc"] nonneg [of "1 - acc"] le_1 [of "1 - acc"] by (auto simp: a_def b_def d_def)
  then have b: "\<bar>b - a * 100\<bar> \<le> d" "0 \<le> b" "b \<le> 100"
    using near [of "a * 100"] nonneg [of "a * 100"] mono [of "a * 100" 100] by (auto simp: a_def b_def d_def)
  then have c: "\<bar>r (b + 1 / 2) - (b + 1 / 2)\<bar> \<le> d" unfolding d_def by (intro near) auto
  have "of_int \<lfloor>r (b + 1 / 2)\<rfloor> \<le> r (b + 1 / 2)" "r (b + 1 / 2) < of_int \<lfloor>r (b + 1 / 2)\<rfloor> + 1" by linarith+
  with a(1) b(1) c assms(3) have "\<bar>of_int \<lfloor>r (b + 1 / 2)\<rfloor> - 100 * (1 - q)\<bar> \<le> 1 / 2 + 100 * e + 102 * d"
    by (intro rounding_chain)
  then show ?thesis by (simp add: combine_round_def a_def b_def d_def)
qed

end

lemma combine_insert: "combine (xs @ ys) \<le> combine (xs @ c # ys)"
  unfolding combine_def
  by (rule fl.combine_round_anti) (use fl.combine_inv_le [of 1] fl.combine_inv_insert in auto)

lemma combine_range: "0 \<le> combine cs \<and> combine cs \<le> 100"
  unfolding combine_def by (rule fl.combine_round_range) (use fl.combine_inv_le [of 1 cs] in auto)

lemma combine_near: "\<bar>of_int (combine cs) - noisy_or cs\<bar> \<le> 1 / 2 + of_nat (300 * length cs + 102) / 2 ^ 46"
proof -
  have i: "0 \<le> combine_inv f64 1 cs" "combine_inv f64 1 cs \<le> 1" using fl.combine_inv_le [of 1 cs] by auto
  have "\<bar>combine_inv f64 1 cs - all_miss cs\<bar> \<le> of_nat (3 * length cs) / 2 ^ 46" using fl.combine_inv_near [of 1 1 0 cs] by simp
  from fl.combine_round_near [OF i this] show ?thesis by (simp add: combine_def noisy_or_def add_divide_distrib)
qed

lemma combine_near_all:
  assumes "length cs \<le> 1000000"
  shows "\<bar>of_int (combine cs) - noisy_or cs\<bar> < 51 / 100"
proof -
  have "(of_nat (300 * length cs + 102) :: rat) \<le> of_nat 300000102" unfolding of_nat_le_iff using assms by simp
  then have "(of_nat (300 * length cs + 102) :: rat) / 2 ^ 46 \<le> of_nat 300000102 / 2 ^ 46" by (rule divide_right_mono) simp
  moreover have "(1 / 2 :: rat) + of_nat 300000102 / 2 ^ 46 < 51 / 100" by simp
  ultimately show ?thesis using combine_near [of cs] by linarith
qed

lemma combine_single: "combine [c] = clamp c"
proof -
  have "\<bar>of_int (combine [c]) - (of_int (clamp c) :: rat)\<bar> < 51 / 100" using combine_near_all [of "[c]"] by (simp add: noisy_or_def)
  then have "\<bar>of_int (combine [c] - clamp c) :: rat\<bar> < 1" by simp
  then show ?thesis by linarith
qed

lemma combine_member: "c \<in> set cs \<Longrightarrow> clamp c \<le> combine cs"
proof -
  assume "c \<in> set cs"
  then obtain xs ys where cs: "cs = xs @ c # ys" by (auto dest: split_list)
  have "combine [c] \<le> combine cs" unfolding combine_def cs
    by (rule fl.combine_round_anti)
      (use fl.combine_inv_le [of 1 "xs @ c # ys"] fl.combine_inv_le [of 1 "[c]"] fl.combine_inv_member [of xs c ys] in simp_all)
  then show ?thesis by (simp add: combine_single)
qed

text \<open>
  Property C29. The combined confidence is the noisy-OR. It differs from the exact probability by less than
  51 hundredths of a percent point whatever the rounding of the floating point does (up to a million
  signals), stays between 0 and 100, is at least every single confidence, and one more signal never lowers it.
\<close>

theorem combine_is_noisy_or:
  assumes "length (xs @ c # ys) \<le> 1000000"
  shows "\<bar>of_int (combine (xs @ c # ys)) - noisy_or (xs @ c # ys)\<bar> < 51 / 100
    \<and> 0 \<le> combine (xs @ c # ys) \<and> combine (xs @ c # ys) \<le> 100
    \<and> min 100 c \<le> combine (xs @ c # ys) \<and> combine (xs @ ys) \<le> combine (xs @ c # ys)"
  using combine_near_all [OF assms] combine_range [of "xs @ c # ys"] combine_member [of c "xs @ c # ys"] combine_insert [of xs ys c]
  by (auto simp: clamp_def)

theorem combine_is_noisy_or_witness:
  "combine [75, 70] = 93 \<and> min 100 70 \<le> combine [75, 70] \<and> combine [75] \<le> combine [75, 70]"
proof -
  have "combine [75, 70] = 93" by code_simp
  with combine_is_noisy_or [of "[75]" 70 "[]"] show ?thesis by simp
qed

end
