(* ===== verification/CompositeTrack.thy ===== *)
theory CompositeTrack
  imports Composite
begin

text \<open>
  The state of the composite correlator and its operation \<open>Observe\<close> (\<open>composite.go\<close>): the signals of each
  device, their expiry, the cap on tracked devices, and the composite alert that is built.
\<close>

definition defaultWindow :: duration where "defaultWindow = 15 * 60 * 1000000000"
definition minEmitConfidence :: int where [simp]: "minEmitConfidence = 50"
definition maxTrackedClients :: nat where [simp]: "maxTrackedClients = 4096"

record signal =
  sg_class :: string
  sg_confidence :: int
  sg_alert :: alert
  sg_seen :: instant

record correlator =
  co_window :: duration
  co_clients :: "(string, signal list) gomap"

definition NewCorrelator :: "duration \<Rightarrow> correlator" where
  "NewCorrelator window = \<lparr> co_window = (if window \<le> 0 then defaultWindow else window), co_clients = [] \<rparr>"

definition correlationKey :: "alert \<Rightarrow> string" where
  "correlationKey a =
     (if al_ClientMAC a \<noteq> [] then ''mac:'' @ to_lower (al_ClientMAC a)
      else if al_ClientIP a \<noteq> [] then ''ip:'' @ al_ClientIP a else [])"

definition prune :: "duration \<Rightarrow> signal list \<Rightarrow> instant \<Rightarrow> signal list" where
  "prune window sigs now = filter (\<lambda>s. time_sub now (sg_seen s) \<le> window) sigs"

fun upsert :: "signal list \<Rightarrow> signal \<Rightarrow> signal list" where
  "upsert [] s = [s]"
| "upsert (t # ts) s =
     (if sg_class t = sg_class s then (if sg_confidence s \<ge> sg_confidence t then s # ts else t # ts)
      else t # upsert ts s)"

text \<open>The newest signal of a client; the zero \<open>Time\<close> for one without signals.\<close>

definition newest :: "signal list \<Rightarrow> instant" where
  "newest sigs = foldl (\<lambda>n s. if sg_seen s > n then sg_seen s else n) zero_time sigs"

definition evict :: "(string, signal list) gomap \<Rightarrow> (string, signal list) gomap" where
  "evict clients =
     (if length clients \<le> maxTrackedClients then clients
      else let ages = sort_key snd (List.map (\<lambda>(cl, sigs). (cl, newest sigs)) clients)
           in foldl (\<lambda>m a. mdel (fst a) m) clients (take (length ages - maxTrackedClients) ages))"

definition bestPerClass :: "signal list \<Rightarrow> (string, signal) gomap" where
  "bestPerClass sigs =
     foldl (\<lambda>best s. case mget best (sg_class s) of
         None \<Rightarrow> mput (sg_class s) s best
       | Some cur \<Rightarrow> if sg_confidence s > sg_confidence cur then mput (sg_class s) s best else best) [] sigs"

definition distinctClasses :: "signal list \<Rightarrow> string list" where
  "distinctClasses sigs = sort (remdups (List.map sg_class sigs))"

definition zero_alert :: alert where
  "zero_alert = \<lparr> al_ID = [], al_Timestamp = zero_time, al_Domain = [], al_ClientIP = [], al_ClientMAC = [],
     al_ClientName = [], al_QueryType = [], al_MatchedIoC = [], al_IoCType = [], al_Severity = [], al_Source = [],
     al_Confidence = 0, al_MitreID = [], al_MitreName = [], al_Threat = [], al_Tags = [], al_SignalClass = [],
     al_Signals = [], al_SignalCount = 0 \<rparr>"

definition zero_signal :: signal where
  "zero_signal = \<lparr> sg_class = [], sg_confidence = 0, sg_alert = zero_alert, sg_seen = zero_time \<rparr>"

text \<open>A read of a Go map: the zero value where there is no entry.\<close>

definition best_at :: "(string, signal) gomap \<Rightarrow> string \<Rightarrow> signal" where
  "best_at best cl = (case mget best cl of Some s \<Rightarrow> s | None \<Rightarrow> zero_signal)"

text \<open>The loop that picks the anchor; the first alert is that of the first class.\<close>

fun pick_anchor :: "(string, signal) gomap \<Rightarrow> string list \<Rightarrow> alert \<Rightarrow> alert" where
  "pick_anchor best [] anchor = anchor"
| "pick_anchor best (cl # cls) anchor =
     pick_anchor best cls
       (if sg_confidence (best_at best cl) > al_Confidence anchor then sg_alert (best_at best cl) else anchor)"

definition build :: "alert \<Rightarrow> signal list \<Rightarrow> string list \<Rightarrow> instant \<Rightarrow> alert" where
  "build trigger sigs classes now =
     (let best = bestPerClass sigs;
          combined = combine (List.map (\<lambda>cl. sg_confidence (best_at best cl)) classes);
          anchor = pick_anchor best classes (sg_alert (best_at best (hd classes)))
      in zero_alert \<lparr> al_Timestamp := now, al_Domain := al_Domain anchor,
           al_ClientIP := (if al_ClientIP trigger = [] then al_ClientIP anchor else al_ClientIP trigger),
           al_ClientMAC := (if al_ClientMAC trigger = [] then al_ClientMAC anchor else al_ClientMAC trigger),
           al_ClientName := al_ClientName trigger, al_MatchedIoC := al_MatchedIoC anchor,
           al_IoCType := al_IoCType anchor, al_Severity := SeverityForConfidence combined,
           al_Source := ''composite'', al_Confidence := combined, al_MitreID := al_MitreID anchor,
           al_MitreName := al_MitreName anchor, al_Threat := al_Threat anchor,
           al_Tags := ''composite'' # List.map (\<lambda>cl. ''signal:'' @ cl) classes,
           al_SignalClass := SignalComposite, al_Signals := classes, al_SignalCount := int (length classes) \<rparr>)"

definition Observe :: "instant \<Rightarrow> alert \<Rightarrow> correlator \<Rightarrow> alert option \<times> correlator" where
  "Observe now a c =
     (let client = correlationKey a in
      if client = [] \<or> al_SignalClass a = [] \<or> al_SignalClass a = SignalComposite then (None, c)
      else
        let old = (case mget (co_clients c) client of Some s \<Rightarrow> s | None \<Rightarrow> []);
            sigs = upsert (prune (co_window c) old now)
                     \<lparr> sg_class = al_SignalClass a, sg_confidence = al_Confidence a, sg_alert = a, sg_seen = now \<rparr>;
            c1 = c \<lparr> co_clients := evict (mput client sigs (co_clients c)) \<rparr>;
            classes = distinctClasses sigs
        in if length classes < 2 then (None, c1)
           else let cmp = build a sigs classes now in
             if al_Confidence cmp < minEmitConfidence then (None, c1) else (Some cmp, c1))"

definition countLabel :: "nat \<Rightarrow> string" where
  "countLabel n = (if n \<ge> 4 then ''4+'' else if n = 3 then ''3'' else ''2'')"

subsection \<open>The signals of one client\<close>

text \<open>Every stored signal is of a class of its own, and is an observation of the client it is filed under.\<close>

definition signal_of :: "string \<Rightarrow> signal \<Rightarrow> bool" where
  "signal_of client s \<longleftrightarrow> sg_class s = al_SignalClass (sg_alert s) \<and> sg_confidence s = al_Confidence (sg_alert s)
     \<and> correlationKey (sg_alert s) = client \<and> sg_class s \<noteq> [] \<and> sg_class s \<noteq> SignalComposite"

definition signals_ok :: "string \<Rightarrow> signal list \<Rightarrow> bool" where
  "signals_ok client sigs \<longleftrightarrow> distinct (List.map sg_class sigs) \<and> (\<forall>s \<in> set sigs. signal_of client s)"

lemma signals_ok_Nil [simp]: "signals_ok client []"
  by (simp add: signals_ok_def)

lemma signals_ok_prune: "signals_ok client sigs \<Longrightarrow> signals_ok client (prune w sigs now)"
  by (simp add: signals_ok_def prune_def distinct_map_filter)

lemma set_upsert: "set (upsert sigs s) \<subseteq> insert s (set sigs)"
  by (induction sigs) auto

lemma classes_upsert: "sg_class ` set (upsert sigs s) = insert (sg_class s) (sg_class ` set sigs)"
  by (induction sigs) auto

lemma distinct_upsert: "distinct (List.map sg_class sigs) \<Longrightarrow> distinct (List.map sg_class (upsert sigs s))"
proof (induction sigs)
  case (Cons t ts)
  then show ?case using classes_upsert [of ts s] by (auto simp: image_iff)
qed simp

lemma signals_ok_upsert: "signals_ok client sigs \<Longrightarrow> signal_of client s \<Longrightarrow> signals_ok client (upsert sigs s)"
  unfolding signals_ok_def using distinct_upsert set_upsert by blast

text \<open>The class keeps at least the new confidence.\<close>

lemma upsert_strong: "\<exists>t \<in> set (upsert sigs s). sg_class t = sg_class s \<and> sg_confidence s \<le> sg_confidence t"
  by (induction sigs) auto

lemma bestPerClass_distinct:
  "distinct (List.map sg_class sigs) \<Longrightarrow> bestPerClass sigs = List.map (\<lambda>s. (sg_class s, s)) sigs"
proof (induction sigs rule: rev_induct)
  case (snoc s sigs)
  let ?m = "List.map (\<lambda>s. (sg_class s, s)) sigs"
  from snoc.prems have new: "sg_class s \<notin> set (mkeys ?m)" by (auto simp: image_iff)
  then have "mget ?m (sg_class s) = None" by (simp add: mget_None_iff)
  then show ?case using snoc mput_new [OF new] by (simp add: bestPerClass_def)
qed (simp add: bestPerClass_def)

lemma best_at_member:
  "distinct (List.map sg_class sigs) \<Longrightarrow> s \<in> set sigs \<Longrightarrow> best_at (bestPerClass sigs) (sg_class s) = s"
proof -
  assume d: "distinct (List.map sg_class sigs)" and s: "s \<in> set sigs"
  have "mwf (List.map (\<lambda>s. (sg_class s, s)) sigs)" using d by (simp add: mwf_def comp_def)
  then have "mget (List.map (\<lambda>s. (sg_class s, s)) sigs) (sg_class s) = Some s" using s by (simp add: mget_Some_in)
  then show ?thesis by (simp add: best_at_def bestPerClass_distinct [OF d])
qed

lemma set_distinctClasses: "set (distinctClasses sigs) = sg_class ` set sigs"
  by (simp add: distinctClasses_def)

lemma best_at_class:
  assumes "distinct (List.map sg_class sigs)" "cl \<in> set (distinctClasses sigs)"
  obtains s where "s \<in> set sigs" "sg_class s = cl" "best_at (bestPerClass sigs) cl = s"
  using assms best_at_member by (auto simp: set_distinctClasses)

text \<open>The anchor is the alert of one of the signals.\<close>

lemma pick_anchor_member:
  "\<forall>cl \<in> set cls. sg_alert (best_at best cl) \<in> A \<Longrightarrow> anchor \<in> A \<Longrightarrow> pick_anchor best cls anchor \<in> A"
  by (induction cls arbitrary: anchor) auto

lemma anchor_member:
  assumes "signals_ok client sigs" "sigs \<noteq> []"
  shows "pick_anchor (bestPerClass sigs) (distinctClasses sigs) (sg_alert (best_at (bestPerClass sigs) (hd (distinctClasses sigs)))) \<in> sg_alert ` set sigs"
proof -
  have d: "distinct (List.map sg_class sigs)" using assms(1) by (simp add: signals_ok_def)
  have all: "sg_alert (best_at (bestPerClass sigs) cl) \<in> sg_alert ` set sigs" if "cl \<in> set (distinctClasses sigs)" for cl
    using best_at_class [OF d that] by blast
  have "distinctClasses sigs \<noteq> []" using assms(2) set_distinctClasses [of sigs] by auto
  then have "hd (distinctClasses sigs) \<in> set (distinctClasses sigs)" by simp
  with all show ?thesis by (intro pick_anchor_member) auto
qed

text \<open>The device a composite is about is the device of the alert that triggered it.\<close>

lemma same_key_mac:
  assumes "correlationKey a = correlationKey b" "correlationKey a \<noteq> []"
  shows "to_lower (al_ClientMAC a) = to_lower (al_ClientMAC b)" "al_ClientMAC a = [] \<Longrightarrow> al_ClientIP a = al_ClientIP b"
  using assms by (auto simp: correlationKey_def split: if_splits)

lemma build_identity:
  assumes "signals_ok (correlationKey trigger) sigs" "sigs \<noteq> []" "correlationKey trigger \<noteq> []"
  shows "al_ClientMAC (build trigger sigs (distinctClasses sigs) now) = al_ClientMAC trigger
     \<and> (al_ClientIP trigger \<noteq> [] \<longrightarrow> al_ClientIP (build trigger sigs (distinctClasses sigs) now) = al_ClientIP trigger)"
proof -
  define anchor where "anchor = pick_anchor (bestPerClass sigs) (distinctClasses sigs) (sg_alert (best_at (bestPerClass sigs) (hd (distinctClasses sigs))))"
  have "anchor \<in> sg_alert ` set sigs" unfolding anchor_def by (rule anchor_member [OF assms(1,2)])
  then have key: "correlationKey anchor = correlationKey trigger" using assms(1) by (auto simp: signals_ok_def signal_of_def)
  have "al_ClientMAC trigger = [] \<Longrightarrow> al_ClientMAC anchor = []"
    using same_key_mac(1) [of anchor trigger] key assms(3) by simp
  then show ?thesis by (simp add: build_def Let_def anchor_def [symmetric])
qed

lemma build_confidence:
  assumes "signals_ok client sigs" "s \<in> set sigs"
  shows "clamp (sg_confidence s) \<le> al_Confidence (build trigger sigs (distinctClasses sigs) now)"
proof -
  have d: "distinct (List.map sg_class sigs)" using assms(1) by (simp add: signals_ok_def)
  have "sg_confidence s \<in> set (List.map (\<lambda>cl. sg_confidence (best_at (bestPerClass sigs) cl)) (distinctClasses sigs))"
    using best_at_member [OF d assms(2)] assms(2) by (force simp: set_distinctClasses image_iff)
  from combine_member [OF this] show ?thesis by (simp add: build_def Let_def)
qed

lemma build_fields [simp]:
  "al_Signals (build trigger sigs classes now) = classes" "al_SignalClass (build trigger sigs classes now) = SignalComposite"
  "al_SignalCount (build trigger sigs classes now) = int (length classes)" "al_Source (build trigger sigs classes now) = ''composite''"
  "al_Severity (build trigger sigs classes now) = SeverityForConfidence (al_Confidence (build trigger sigs classes now))"
  "al_ID (build trigger sigs classes now) = []" "al_Timestamp (build trigger sigs classes now) = now"
  by (simp_all add: build_def zero_alert_def Let_def)

subsection \<open>The tracked clients\<close>

definition correlator_ok :: "correlator \<Rightarrow> bool" where
  "correlator_ok c \<longleftrightarrow> mwf (co_clients c) \<and> length (co_clients c) \<le> maxTrackedClients
     \<and> (\<forall>k sigs. mget (co_clients c) k = Some sigs \<longrightarrow> signals_ok k sigs)"

lemma mdel_many:
  "mwf m \<Longrightarrow> mwf (foldl (\<lambda>m a. mdel (fst a) m) m as)
     \<and> mget (foldl (\<lambda>m a. mdel (fst a) m) m as) = (\<lambda>k. if k \<in> fst ` set as then None else mget m k)"
  by (induction as rule: rev_induct) (auto simp: mget_del fun_eq_iff)

lemma length_mdel_many:
  "mwf m \<Longrightarrow> distinct (List.map fst as) \<Longrightarrow> fst ` set as \<subseteq> set (mkeys m) \<Longrightarrow>
     length (foldl (\<lambda>m a. mdel (fst a) m) m as) = length m - length as"
proof (induction as arbitrary: m)
  case (Cons a as)
  from Cons.prems have a: "fst a \<in> set (mkeys m)" "fst a \<notin> fst ` set as" by auto
  have "fst ` set as \<subseteq> set (mkeys (mdel (fst a) m))"
  proof
    fix x assume "x \<in> fst ` set as"
    with a(2) have "x \<noteq> fst a" by metis
    moreover have "x \<in> set (mkeys m)" using \<open>x \<in> fst ` set as\<close> Cons.prems(3) by auto
    ultimately have "x \<in> set (mkeys m)" "x \<noteq> fst a" by simp_all
    then show "x \<in> set (mkeys (mdel (fst a) m))" by (simp add: mkeys_del)
  qed
  then have "length (foldl (\<lambda>m a. mdel (fst a) m) (mdel (fst a) m) as) = length (mdel (fst a) m) - length as"
    using Cons.IH [of "mdel (fst a) m"] Cons.prems by simp
  then show ?case using length_mdel [OF Cons.prems(1), of "fst a"] a(1) by simp
qed simp

lemma evict_ok:
  assumes "mwf m"
  shows "mwf (evict m) \<and> length (evict m) \<le> maxTrackedClients \<and> (\<forall>k v. mget (evict m) k = Some v \<longrightarrow> mget m k = Some v)"
proof (cases "length m \<le> maxTrackedClients")
  case True
  then show ?thesis using assms by (simp add: evict_def)
next
  case False
  define ages where "ages = sort_key snd (List.map (\<lambda>(cl, sigs). (cl, newest sigs)) m)"
  have len: "length ages = length m" by (simp add: ages_def)
  have keys: "fst ` set ages = set (mkeys m)" by (force simp: ages_def)
  let ?l = "List.map (\<lambda>(cl, sigs). (cl, newest sigs)) m"
  have "distinct (List.map fst ?l)" using assms by (simp add: mwf_def comp_def case_prod_beta)
  then have "distinct ?l" "inj_on fst (set ?l)" by (blast dest: distinct_map [THEN iffD1])+
  then have "distinct (List.map fst ages)" unfolding ages_def by (simp only: distinct_map distinct_sort set_sort)
  then have d: "distinct (List.map fst (take n ages))" for n by (simp add: take_map [symmetric] distinct_take)
  have sub: "fst ` set (take n ages) \<subseteq> set (mkeys m)" for n using set_take_subset [of n ages] keys by blast
  have eq: "evict m = foldl (\<lambda>m a. mdel (fst a) m) m (take (length m - maxTrackedClients) ages)"
    using False by (simp add: evict_def ages_def [symmetric] len Let_def)
  have "length (evict m) = maxTrackedClients" unfolding eq length_mdel_many [OF assms d sub] using False len by simp
  moreover have "mwf (evict m) \<and> (\<forall>k v. mget (evict m) k = Some v \<longrightarrow> mget m k = Some v)"
    unfolding eq using mdel_many [OF assms, of "take (length m - maxTrackedClients) ages"] by (auto split: if_splits)
  ultimately show ?thesis by simp
qed

subsection \<open>Observing a history\<close>

text \<open>
  What an observation leaves behind, against the history of the observations: every stored signal was
  observed, with that instant, for that client.
\<close>

definition observed :: "(instant \<times> alert) list \<Rightarrow> correlator \<Rightarrow> bool" where
  "observed h c \<longleftrightarrow> (\<forall>k sigs s. mget (co_clients c) k = Some sigs \<longrightarrow> s \<in> set sigs \<longrightarrow> (sg_seen s, sg_alert s) \<in> set h)"

text \<open>The signals \<open>Observe\<close> stores for the client of the alert, as the code computes them.\<close>

definition fresh_signals :: "instant \<Rightarrow> alert \<Rightarrow> correlator \<Rightarrow> signal list" where
  "fresh_signals now a c =
     upsert (prune (co_window c) (case mget (co_clients c) (correlationKey a) of Some s \<Rightarrow> s | None \<Rightarrow> []) now)
       \<lparr> sg_class = al_SignalClass a, sg_confidence = al_Confidence a, sg_alert = a, sg_seen = now \<rparr>"

definition correlatable :: "alert \<Rightarrow> bool" where
  "correlatable a \<longleftrightarrow> correlationKey a \<noteq> [] \<and> al_SignalClass a \<noteq> [] \<and> al_SignalClass a \<noteq> SignalComposite"

lemma Observe_state:
  "snd (Observe now a c) = (if correlatable a
     then c \<lparr> co_clients := evict (mput (correlationKey a) (fresh_signals now a c) (co_clients c)) \<rparr> else c)"
  by (simp add: Observe_def correlatable_def fresh_signals_def Let_def)

lemma Observe_emits:
  "fst (Observe now a c) = Some cmp \<longleftrightarrow> correlatable a \<and> length (distinctClasses (fresh_signals now a c)) \<ge> 2
     \<and> cmp = build a (fresh_signals now a c) (distinctClasses (fresh_signals now a c)) now \<and> al_Confidence cmp \<ge> 50"
  by (auto simp: Observe_def correlatable_def fresh_signals_def Let_def)

lemma fresh_signals_ok:
  assumes "correlator_ok c" "correlatable a"
  shows "signals_ok (correlationKey a) (fresh_signals now a c)"
proof -
  have "signals_ok (correlationKey a) (case mget (co_clients c) (correlationKey a) of Some s \<Rightarrow> s | None \<Rightarrow> [])"
    using assms(1) by (auto simp: correlator_ok_def split: option.split)
  from signals_ok_prune [OF this] show ?thesis unfolding fresh_signals_def
    by (rule signals_ok_upsert) (use assms(2) in \<open>simp add: signal_of_def correlatable_def\<close>)
qed

lemma fresh_signals_recent:
  assumes "s \<in> set (fresh_signals now a c)" "0 \<le> co_window c"
  shows "time_sub now (sg_seen s) \<le> co_window c"
  using set_upsert assms by (fastforce simp: fresh_signals_def prune_def time_sub_def)

lemma fresh_signals_observed:
  "observed h c \<Longrightarrow> s \<in> set (fresh_signals now a c) \<Longrightarrow> (sg_seen s, sg_alert s) \<in> set (h @ [(now, a)])"
  using set_upsert by (fastforce simp: fresh_signals_def prune_def observed_def split: option.splits)

lemma Observe_ok: "correlator_ok c \<Longrightarrow> correlator_ok (snd (Observe now a c))"
proof (cases "correlatable a")
  case True
  assume ok: "correlator_ok c"
  define m where "m = mput (correlationKey a) (fresh_signals now a c) (co_clients c)"
  have wf: "mwf m" using ok by (simp add: m_def correlator_ok_def)
  have "signals_ok k sigs" if "mget m k = Some sigs" for k sigs
    using that ok fresh_signals_ok [OF ok True, of now] by (auto simp: m_def mget_put correlator_ok_def split: if_splits)
  then show ?thesis using evict_ok [OF wf] True by (auto simp: correlator_ok_def Observe_state m_def [symmetric])
qed (simp add: Observe_state)

lemma Observe_observed: "correlator_ok c \<Longrightarrow> observed h c \<Longrightarrow> observed (h @ [(now, a)]) (snd (Observe now a c))"
proof (cases "correlatable a")
  case True
  assume ok: "correlator_ok c" and h: "observed h c"
  define m where "m = mput (correlationKey a) (fresh_signals now a c) (co_clients c)"
  have wf: "mwf m" using ok by (simp add: m_def correlator_ok_def)
  have "(sg_seen s, sg_alert s) \<in> set (h @ [(now, a)])" if "mget m k = Some sigs" "s \<in> set sigs" for k sigs s
    using that h fresh_signals_observed [OF h, of s now a] by (auto simp: m_def mget_put observed_def split: if_splits)
  note all = this
  have "(sg_seen s, sg_alert s) \<in> set (h @ [(now, a)])" if "mget (evict m) k = Some sigs" "s \<in> set sigs" for k sigs s
    using all [OF _ that(2), of k] evict_ok [OF wf] that(1) by blast
  then show ?thesis using True unfolding observed_def Observe_state m_def by simp
qed (auto simp: Observe_state observed_def)

definition observe_all :: "(instant \<times> alert) list \<Rightarrow> correlator \<Rightarrow> correlator" where
  "observe_all h c = fold (\<lambda>(t, a) c. snd (Observe t a c)) h c"

interpretation cm: machine "\<lambda>(t, a) c. snd (Observe t a c)" correlator_ok
  by unfold_locales (auto intro: Observe_ok)

lemma NewCorrelator_ok: "correlator_ok (NewCorrelator w)" "0 < co_window (NewCorrelator w)"
  by (auto simp: correlator_ok_def NewCorrelator_def defaultWindow_def)

lemma observe_all_ok: "correlator_ok (observe_all h (NewCorrelator w))"
  unfolding observe_all_def by (rule cm.runs_ok [OF NewCorrelator_ok(1)])

lemma co_window_Observe [simp]: "co_window (snd (Observe t a c)) = co_window c"
  by (simp add: Observe_state)

lemma observe_all_window: "co_window (observe_all h c) = co_window c"
  unfolding observe_all_def by (induction h arbitrary: c) auto

lemma observe_all_observed: "observed h (observe_all h (NewCorrelator w))"
proof (induction h rule: rev_induct)
  case (snoc x h)
  then show ?case using Observe_observed [OF observe_all_ok, of h h w "fst x" "snd x"]
    by (simp add: observe_all_def case_prod_beta)
qed (simp add: observe_all_def observed_def NewCorrelator_def)

text \<open>The signals an emitted composite was built from: observed for the same device, within the window.\<close>

lemma composite_signals:
  assumes "fst (Observe now a (observe_all h (NewCorrelator w))) = Some cmp"
  obtains sigs where "cmp = build a sigs (distinctClasses sigs) now" "signals_ok (correlationKey a) sigs" "2 \<le> length (distinctClasses sigs)"
    "correlationKey a \<noteq> []" "50 \<le> al_Confidence cmp" "sigs = fresh_signals now a (observe_all h (NewCorrelator w))"
    "\<And>s. s \<in> set sigs \<Longrightarrow> (sg_seen s, sg_alert s) \<in> set (h @ [(now, a)]) \<and> time_sub now (sg_seen s) \<le> co_window (NewCorrelator w)
       \<and> al_SignalClass (sg_alert s) = sg_class s \<and> correlationKey (sg_alert s) = correlationKey a"
proof -
  define c where "c = observe_all h (NewCorrelator w)"
  define sigs where "sigs = fresh_signals now a c"
  have ok: "correlator_ok c" and obs: "observed h c" and win: "co_window c = co_window (NewCorrelator w)"
    unfolding c_def by (rule observe_all_ok observe_all_observed observe_all_window)+
  from assms have e: "correlatable a" "2 \<le> length (distinctClasses sigs)" "cmp = build a sigs (distinctClasses sigs) now" "50 \<le> al_Confidence cmp"
    unfolding c_def [symmetric] Observe_emits sigs_def by auto
  have sok: "signals_ok (correlationKey a) sigs" unfolding sigs_def by (rule fresh_signals_ok [OF ok e(1)])
  have key: "correlationKey a \<noteq> []" using e(1) by (simp add: correlatable_def)
  have all: "(sg_seen s, sg_alert s) \<in> set (h @ [(now, a)]) \<and> time_sub now (sg_seen s) \<le> co_window (NewCorrelator w)
      \<and> al_SignalClass (sg_alert s) = sg_class s \<and> correlationKey (sg_alert s) = correlationKey a" if "s \<in> set sigs" for s
    using that fresh_signals_observed [OF obs, of s now a] fresh_signals_recent [of s now a c] NewCorrelator_ok(2) [of w] win sok
    by (auto simp: sigs_def signals_ok_def signal_of_def)
  show thesis by (rule that [OF e(3) sok e(2) key e(4) _ all]) (simp_all add: sigs_def c_def)
qed

text \<open>
  Property C7. A composite is earned by the device it names. After any history of alerts, each class the
  composite lists was really observed for that device (the same MAC, or the same address where there is no
  MAC) within the window before it, and there are at least two of them; the composite carries the MAC and
  address of the alert that triggered it, its severity follows its confidence, and the confidence is at
  least that of the alert it supersedes and at least 50.
\<close>

theorem composite_is_corroborated:
  assumes "fst (Observe now a (observe_all h (NewCorrelator w))) = Some cmp"
  shows "(\<forall>cl \<in> set (al_Signals cmp). \<exists>(t, b) \<in> set (h @ [(now, a)]). al_SignalClass b = cl
            \<and> correlationKey b = correlationKey a \<and> time_sub now t \<le> co_window (NewCorrelator w))
    \<and> distinct (al_Signals cmp) \<and> al_SignalCount cmp = int (length (al_Signals cmp)) \<and> 2 \<le> length (al_Signals cmp)
    \<and> al_ClientMAC cmp = al_ClientMAC a \<and> (al_ClientIP a \<noteq> [] \<longrightarrow> al_ClientIP cmp = al_ClientIP a)
    \<and> al_Severity cmp = SeverityForConfidence (al_Confidence cmp)
    \<and> min 100 (al_Confidence a) \<le> al_Confidence cmp \<and> 50 \<le> al_Confidence cmp"
proof -
  from composite_signals [OF assms] obtain sigs where e: "cmp = build a sigs (distinctClasses sigs) now"
    "signals_ok (correlationKey a) sigs" "2 \<le> length (distinctClasses sigs)" "correlationKey a \<noteq> []" "50 \<le> al_Confidence cmp"
    and fresh: "sigs = fresh_signals now a (observe_all h (NewCorrelator w))"
    and all: "\<And>s. s \<in> set sigs \<Longrightarrow> (sg_seen s, sg_alert s) \<in> set (h @ [(now, a)]) \<and> time_sub now (sg_seen s) \<le> co_window (NewCorrelator w)
       \<and> al_SignalClass (sg_alert s) = sg_class s \<and> correlationKey (sg_alert s) = correlationKey a" by blast
  have cls: "\<exists>(t, b) \<in> set (h @ [(now, a)]). al_SignalClass b = cl \<and> correlationKey b = correlationKey a
      \<and> time_sub now t \<le> co_window (NewCorrelator w)" if "cl \<in> set (al_Signals cmp)" for cl
  proof -
    from that obtain s where "s \<in> set sigs" "sg_class s = cl" by (auto simp: e(1) set_distinctClasses)
    then show ?thesis using all [of s] by blast
  qed
  have ne: "sigs \<noteq> []" using e(3) by (auto simp: distinctClasses_def)
  obtain s where s: "s \<in> set sigs" "al_Confidence a \<le> sg_confidence s"
    using upsert_strong [of _ "\<lparr> sg_class = al_SignalClass a, sg_confidence = al_Confidence a, sg_alert = a, sg_seen = now \<rparr>"]
    unfolding fresh fresh_signals_def by fastforce
  have "clamp (sg_confidence s) \<le> al_Confidence cmp" using build_confidence [OF e(2) s(1)] by (simp add: e(1))
  with s(2) have conf: "min 100 (al_Confidence a) \<le> al_Confidence cmp" by (auto simp: clamp_def)
  show ?thesis using cls build_identity [OF e(2) ne e(4), of now] conf e(3,5)
    by (simp add: e(1) distinctClasses_def)
qed

definition sample_alert :: "string \<Rightarrow> int \<Rightarrow> string \<Rightarrow> alert" where
  "sample_alert cls conf i = zero_alert \<lparr> al_ID := ''DET-1'', al_ClientIP := ''192.168.1.7'', al_MatchedIoC := i, al_IoCType := ''beacon'',
     al_Severity := ''medium'', al_Source := ''rita'', al_Confidence := conf, al_SignalClass := cls \<rparr>"

theorem composite_is_corroborated_witness:
  "\<exists>cmp. fst (Observe 60 (sample_alert ''volumetric'' 70 ''y'') (observe_all [(0, sample_alert ''beacon'' 75 ''x'')] (NewCorrelator 0))) = Some cmp
    \<and> al_Confidence cmp = 93 \<and> al_Signals cmp = [''beacon'', ''volumetric''] \<and> al_ClientIP cmp = ''192.168.1.7'' \<and> 70 \<le> al_Confidence cmp"
proof -
  let ?a = "sample_alert ''volumetric'' 70 ''y''" and ?h = "[(0, sample_alert ''beacon'' 75 ''x'')]"
  have e: "map_option (\<lambda>c. (al_Confidence c, al_Signals c, al_ClientIP c)) (fst (Observe 60 ?a (observe_all ?h (NewCorrelator 0))))
      = Some (93, [''beacon'', ''volumetric''], ''192.168.1.7'')" by code_simp
  then obtain cmp where c: "fst (Observe 60 ?a (observe_all ?h (NewCorrelator 0))) = Some cmp"
    "al_Confidence cmp = 93" "al_Signals cmp = [''beacon'', ''volumetric'']" "al_ClientIP cmp = ''192.168.1.7''" by auto
  from composite_is_corroborated [OF c(1)] have "min 100 (al_Confidence ?a) \<le> al_Confidence cmp" by blast
  then have "70 \<le> al_Confidence cmp" by (simp add: sample_alert_def)
  with c show ?thesis by blast
qed

end
