(* ===== verification/Feedback.thy ===== *)
theory Feedback
  imports DetectEngine
begin

text \<open>
  The false-positive feedback loop (\<open>detection-engine/internal/feedback\<close>): verdicts, the suppressions they
  install, their expiry and cap, the check on the alert path, the HTTP handler, and the replay after a
  restart (\<open>clickhouse.go\<close>). The instant is a parameter of every operation. The sink's error is only logged, so
  the verdict that is handed to it is an output. The mutex is atomicity.
\<close>

definition VerdictFalsePositive :: string where [simp]: "VerdictFalsePositive = ''false_positive''"
definition VerdictConfirmed :: string where [simp]: "VerdictConfirmed = ''confirmed''"
definition DefaultSuppressionTTL :: duration where "DefaultSuppressionTTL = 30 * 24 * 3600 * 1000000000"
definition DefaultMaxSuppressions :: nat where "DefaultMaxSuppressions = 10000"

record verdict =
  vd_AlertID :: string
  vd_MatchedIoC :: string
  vd_ClientIP :: string
  vd_Verdict :: string
  vd_Reason :: string
  vd_Analyst :: string
  vd_Timestamp :: instant

record fb_store =
  fb_suppressions :: "(string, verdict) gomap"
  fb_sink :: bool
  fb_ttl :: duration
  fb_max :: int

definition NewStore :: "bool \<Rightarrow> duration \<Rightarrow> int \<Rightarrow> fb_store" where
  "NewStore sink ttl maxs = \<lparr> fb_suppressions = [], fb_sink = sink, fb_ttl = (if ttl \<le> 0 then DefaultSuppressionTTL else ttl),
     fb_max = (if maxs \<le> 0 then int DefaultMaxSuppressions else maxs) \<rparr>"

definition norm :: "string \<Rightarrow> string" where
  "norm s = to_lower (trim_space s)"

definition fb_key :: "string \<Rightarrow> string \<Rightarrow> string" where
  "fb_key matchedIoC clientIP = to_lower (trim_space matchedIoC) @ ''|'' @ to_lower (trim_space clientIP)"

datatype record_error = IoCRequired | BadVerdict | AnalystRequired | LimitReached int

text \<open>\<open>Record\<close>: the error, the verdict written to the sink, the store.\<close>

definition Record :: "instant \<Rightarrow> verdict \<Rightarrow> fb_store \<Rightarrow> record_error option \<times> verdict option \<times> fb_store" where
  "Record now v s =
     (if vd_MatchedIoC v = [] then (Some IoCRequired, None, s)
      else if vd_Verdict v \<noteq> VerdictFalsePositive \<and> vd_Verdict v \<noteq> VerdictConfirmed then (Some BadVerdict, None, s)
      else
        let v = (if vd_Timestamp v = zero_time then v \<lparr> vd_Timestamp := now \<rparr> else v) in
        if vd_Analyst v = [] then (Some AnalystRequired, None, s)
        else
          let k = fb_key (vd_MatchedIoC v) (vd_ClientIP v) in
          if vd_Verdict v = VerdictFalsePositive then
            (if mget (fb_suppressions s) k = None \<and> int (length (fb_suppressions s)) \<ge> fb_max s
             then (Some (LimitReached (fb_max s)), None, s)
             else (None, if fb_sink s then Some v else None, s \<lparr> fb_suppressions := mput k v (fb_suppressions s) \<rparr>))
          else (None, if fb_sink s then Some v else None, s \<lparr> fb_suppressions := mdel k (fb_suppressions s) \<rparr>))"

definition expired :: "instant \<Rightarrow> fb_store \<Rightarrow> verdict \<Rightarrow> bool" where
  "expired now s v \<longleftrightarrow> time_sub now (vd_Timestamp v) > fb_ttl s"

definition applyLoaded :: "instant \<Rightarrow> verdict \<Rightarrow> fb_store \<Rightarrow> fb_store" where
  "applyLoaded now v s =
     (let k = fb_key (vd_MatchedIoC v) (vd_ClientIP v) in
      if vd_Verdict v = VerdictFalsePositive then
        (if expired now s v \<or> int (length (fb_suppressions s)) \<ge> fb_max s then s
         else s \<lparr> fb_suppressions := mput k v (fb_suppressions s) \<rparr>)
      else s \<lparr> fb_suppressions := mdel k (fb_suppressions s) \<rparr>)"

text \<open>The loop over the candidates: the stale keys met before the first live suppression.\<close>

fun candidates_loop :: "instant \<Rightarrow> fb_store \<Rightarrow> string list \<Rightarrow> bool \<times> string list" where
  "candidates_loop now s [] = (False, [])"
| "candidates_loop now s (k # ks) =
     (case mget (fb_suppressions s) k of
        None \<Rightarrow> candidates_loop now s ks
      | Some v \<Rightarrow> if expired now s v then (case candidates_loop now s ks of (b, st) \<Rightarrow> (b, k # st)) else (True, []))"

fun sweep :: "instant \<Rightarrow> string list \<Rightarrow> fb_store \<Rightarrow> fb_store" where
  "sweep now [] s = s"
| "sweep now (k # ks) s =
     sweep now ks
       (case mget (fb_suppressions s) k of
          Some v \<Rightarrow> if expired now s v then s \<lparr> fb_suppressions := mdel k (fb_suppressions s) \<rparr> else s
        | None \<Rightarrow> s)"

definition Suppressed :: "instant \<Rightarrow> alert \<Rightarrow> fb_store \<Rightarrow> bool \<times> fb_store" where
  "Suppressed now a s =
     (case candidates_loop now s [fb_key (al_MatchedIoC a) (al_ClientIP a), fb_key (al_MatchedIoC a) []] of
        (suppressed, stale) \<Rightarrow> (suppressed, sweep now stale s))"

definition Active :: "instant \<Rightarrow> fb_store \<Rightarrow> verdict list" where
  "Active now s = filter (\<lambda>v. \<not> expired now s v) (List.map snd (fb_suppressions s))"

text \<open>
  \<open>HandleFeedback\<close>: the body, capped and decoded by the JSON decoder, is a parameter (\<open>None\<close> when that fails), as is
  the header that names the authenticated actor. The result is the status.
\<close>

definition HandleFeedback ::
  "instant \<Rightarrow> verdict option \<Rightarrow> string \<Rightarrow> fb_store \<Rightarrow> int \<times> verdict option \<times> fb_store" where
  "HandleFeedback now body actor s =
     (case body of
        None \<Rightarrow> (400, None, s)
      | Some v0 \<Rightarrow>
          let v = (if actor \<noteq> [] then v0 \<lparr> vd_Analyst := actor \<rparr> else v0) in
          (case Record now v s of
             (Some e, _, s') \<Rightarrow> (400, None, s')
           | (None, w, s') \<Rightarrow> (202, w, s')))"

text \<open>
  \<open>LoadInto\<close> on the rows of its query: the last verdict per raw (indicator, client) pair, in whatever order
  ClickHouse returns them.
\<close>

definition LoadInto :: "instant \<Rightarrow> verdict list \<Rightarrow> fb_store \<Rightarrow> nat \<times> fb_store" where
  "LoadInto now rows s = (length rows, fold (applyLoaded now) rows s)"

subsection \<open>The check as a specification\<close>

text \<open>What \<open>Suppressed\<close> decides: a live verdict under one of the two keys.\<close>

definition live_at :: "instant \<Rightarrow> fb_store \<Rightarrow> string \<Rightarrow> bool" where
  "live_at now s k \<longleftrightarrow> (case mget (fb_suppressions s) k of None \<Rightarrow> False | Some v \<Rightarrow> \<not> expired now s v)"

lemma candidates_loop_live: "fst (candidates_loop now s ks) = list_ex (live_at now s) ks"
proof (induction ks)
  case (Cons k ks)
  then show ?case by (cases "mget (fb_suppressions s) k") (simp_all add: live_at_def [of _ _ k] case_prod_beta)
qed simp

lemma candidates_loop_stale: "k \<in> set (snd (candidates_loop now s ks)) \<Longrightarrow> \<not> live_at now s k"
  by (induction ks) (auto simp: live_at_def split: option.splits prod.splits if_splits)

lemma Suppressed_iff:
  "fst (Suppressed now a s) \<longleftrightarrow>
     live_at now s (fb_key (al_MatchedIoC a) (al_ClientIP a)) \<or> live_at now s (fb_key (al_MatchedIoC a) [])"
  using candidates_loop_live [of now s "[fb_key (al_MatchedIoC a) (al_ClientIP a), fb_key (al_MatchedIoC a) []]"]
  by (simp add: Suppressed_def case_prod_beta)

text \<open>A sweep removes expired suppressions only.\<close>

definition swept :: "instant \<Rightarrow> fb_store \<Rightarrow> fb_store \<Rightarrow> bool" where
  "swept now s t \<longleftrightarrow> fb_ttl t = fb_ttl s \<and> fb_max t = fb_max s \<and> fb_sink t = fb_sink s
     \<and> length (fb_suppressions t) \<le> length (fb_suppressions s)
     \<and> (\<forall>k. mget (fb_suppressions t) k = mget (fb_suppressions s) k
          \<or> mget (fb_suppressions t) k = None \<and> \<not> live_at now s k)"

lemma length_mdel_le: "length (mdel k m) \<le> length m"
  by (induction m) auto

lemma swept_refl: "swept now s s"
  by (simp add: swept_def)

lemma swept_at: "swept now s t \<Longrightarrow> mget (fb_suppressions t) k = mget (fb_suppressions s) k
    \<or> mget (fb_suppressions t) k = None \<and> \<not> live_at now s k"
  by (simp add: swept_def)

lemma swept_expired: "swept now s t \<Longrightarrow> expired u t v = expired u s v"
  by (simp add: swept_def expired_def)

lemma swept_live: "swept now s t \<Longrightarrow> live_at now t k = live_at now s k"
  using swept_at [of now s t k] by (cases "mget (fb_suppressions s) k") (auto simp: live_at_def swept_expired)

lemma swept_trans:
  assumes "swept now s t" "swept now t u"
  shows "swept now s u"
proof -
  have "mget (fb_suppressions u) k = mget (fb_suppressions s) k \<or> mget (fb_suppressions u) k = None \<and> \<not> live_at now s k" for k
    using assms swept_live [OF assms(1), of k] unfolding swept_def by metis
  with assms show ?thesis unfolding swept_def by auto
qed

lemma swept_sweep: "swept now s (sweep now ks s)"
proof (induction ks arbitrary: s)
  case (Cons k ks)
  let ?t = "case mget (fb_suppressions s) k of Some v \<Rightarrow> if expired now s v then s \<lparr> fb_suppressions := mdel k (fb_suppressions s) \<rparr> else s | None \<Rightarrow> s"
  have "swept now s ?t"
    by (auto simp: swept_refl split: option.split) (auto simp: swept_def mget_del live_at_def length_mdel_le)
  from swept_trans [OF this Cons.IH] show ?case by simp
qed (simp add: swept_refl)

lemma Suppressed_swept: "swept now s (snd (Suppressed now a s))"
  by (simp add: Suppressed_def case_prod_beta swept_sweep)

lemma expired_later: "expired now s v \<Longrightarrow> now \<le> later \<Longrightarrow> expired later s v"
  using time_sub_mono [of now later "vd_Timestamp v"] by (simp add: expired_def)

lemma live_later: "swept now s t \<Longrightarrow> now \<le> later \<Longrightarrow> live_at later t k = live_at later s k"
proof (cases "mget (fb_suppressions t) k = mget (fb_suppressions s) k")
  case True
  assume "swept now s t"
  with True show ?thesis by (cases "mget (fb_suppressions s) k") (simp_all add: live_at_def swept_expired)
next
  case False
  assume a: "swept now s t" "now \<le> later"
  with False have "mget (fb_suppressions t) k = None" "\<not> live_at now s k" using swept_at by metis+
  with a(2) show ?thesis by (auto simp: live_at_def dest: expired_later split: option.splits)
qed

text \<open>
  Further fact. Sweeping expired suppressions is invisible: asking whether one alert is suppressed never
  changes the answer for any alert at any later moment.
\<close>

theorem sweep_invisible:
  assumes "now \<le> later"
  shows "fst (Suppressed later b (snd (Suppressed now a s))) = fst (Suppressed later b s)"
  using live_later [OF Suppressed_swept assms] by (simp add: Suppressed_iff)

subsection \<open>Recording\<close>

lemma Record_error [branch]:
  "fst (Record now v s) = Some e \<Longrightarrow> snd (Record now v s) = (None, s)"
  by (auto simp: Record_def Let_def split: if_splits)

lemma Record_ok:
  "fst (Record now v s) = None \<Longrightarrow> vd_MatchedIoC v \<noteq> [] \<and> vd_Analyst v \<noteq> []
     \<and> (vd_Verdict v = VerdictFalsePositive \<or> vd_Verdict v = VerdictConfirmed)"
  by (auto simp: Record_def Let_def split: if_splits)

text \<open>
  Further fact. A verdict that is refused leaves no trace. The handler answers 400 exactly when the body does not decode,
  the indicator or the analyst is missing, the verdict is neither of the two, or a new suppression would
  exceed the cap; then nothing is stored and nothing persisted. Otherwise it answers 202.
\<close>

theorem HandleFeedback_errors:
  "case HandleFeedback now body actor s of (status, written, s') \<Rightarrow>
     (status = 400 \<or> status = 202) \<and>
     (status = 202 \<longleftrightarrow> (\<exists>v. body = Some v \<and> vd_MatchedIoC v \<noteq> [] \<and> vd_Verdict v \<in> {''false_positive'', ''confirmed''}
          \<and> (actor \<noteq> [] \<or> vd_Analyst v \<noteq> [])
          \<and> (vd_Verdict v = ''confirmed'' \<or> mget (fb_suppressions s) (fb_key (vd_MatchedIoC v) (vd_ClientIP v)) \<noteq> None
             \<or> int (length (fb_suppressions s)) < fb_max s)))
   \<and> (status = 202 \<or> written = None \<and> s' = s)"
proof (cases body)
  case (Some v0)
  define v where "v = (if actor \<noteq> [] then v0 \<lparr> vd_Analyst := actor \<rparr> else v0)"
  have f: "vd_MatchedIoC v = vd_MatchedIoC v0" "vd_Verdict v = vd_Verdict v0" "vd_ClientIP v = vd_ClientIP v0"
    "vd_Analyst v \<noteq> [] \<longleftrightarrow> actor \<noteq> [] \<or> vd_Analyst v0 \<noteq> []" by (simp_all add: v_def)
  have rec: "fst (Record now v s) = None \<longleftrightarrow> vd_MatchedIoC v \<noteq> [] \<and> vd_Verdict v \<in> {''false_positive'', ''confirmed''} \<and> vd_Analyst v \<noteq> []
      \<and> (vd_Verdict v = ''confirmed'' \<or> mget (fb_suppressions s) (fb_key (vd_MatchedIoC v) (vd_ClientIP v)) \<noteq> None
         \<or> int (length (fb_suppressions s)) < fb_max s)"
    by (cases "vd_Timestamp v = zero_time") (auto simp: Record_def Let_def)
  obtain e w s' where r: "Record now v s = (e, w, s')" by (metis prod.collapse)
  have h: "HandleFeedback now body actor s = (case e of Some _ \<Rightarrow> (400, None, s') | None \<Rightarrow> (202, w, s'))"
    unfolding HandleFeedback_def Some v_def [symmetric] Let_def using r by (simp add: v_def split: option.split)
  show ?thesis
  proof (cases e)
    case None
    then show ?thesis unfolding h using rec by (simp add: r f Some)
  next
    case (Some err)
    then have "s' = s" using Record_error [of now v s err] r by simp
    then show ?thesis unfolding h using rec Some by (simp add: r f \<open>body = Some v0\<close>)
  qed
qed (simp add: HandleFeedback_def)

theorem HandleFeedback_errors_witness:
  "HandleFeedback 0 None ''alice'' (NewStore True 0 0) = (400, None, NewStore True 0 0)"
  using HandleFeedback_errors [where now = 0 and body = None and actor = "''alice''" and s = "NewStore True 0 0"] by (auto split: prod.splits)

subsection \<open>The store over its life\<close>

datatype fb_op = RecordOp instant verdict | AskOp instant alert | LoadOp instant "verdict list"

fun fb_step :: "fb_op \<Rightarrow> fb_store \<Rightarrow> fb_store" where
  "fb_step (RecordOp now v) s = snd (snd (Record now v s))"
| "fb_step (AskOp now a) s = snd (Suppressed now a s)"
| "fb_step (LoadOp now rows) s = snd (LoadInto now rows s)"

definition fb_ok :: "fb_store \<Rightarrow> bool" where
  "fb_ok s \<longleftrightarrow> mwf (fb_suppressions s) \<and> int (length (fb_suppressions s)) \<le> fb_max s
     \<and> (\<forall>k v. mget (fb_suppressions s) k = Some v \<longrightarrow> vd_Verdict v = VerdictFalsePositive \<and> k = fb_key (vd_MatchedIoC v) (vd_ClientIP v))"

lemma fb_ok_put: "fb_ok s \<Longrightarrow> vd_Verdict v = VerdictFalsePositive \<Longrightarrow> k = fb_key (vd_MatchedIoC v) (vd_ClientIP v) \<Longrightarrow>
    mget (fb_suppressions s) k \<noteq> None \<or> int (length (fb_suppressions s)) < fb_max s \<Longrightarrow>
    fb_ok (s \<lparr> fb_suppressions := mput k v (fb_suppressions s) \<rparr>)"
  by (auto simp: fb_ok_def mget_put am.size_put)

lemma fb_ok_del: "fb_ok s \<Longrightarrow> fb_ok (s \<lparr> fb_suppressions := mdel k (fb_suppressions s) \<rparr>)"
  using length_mdel_le [of k "fb_suppressions s"] by (auto simp: fb_ok_def mget_del)

lemma fb_ok_Record: "fb_ok s \<Longrightarrow> fb_ok (snd (snd (Record now v s)))"
proof (cases "fst (Record now v s)")
  case None
  assume ok: "fb_ok s"
  define w where "w = (if vd_Timestamp v = zero_time then v \<lparr> vd_Timestamp := now \<rparr> else v)"
  have w: "vd_Verdict w = vd_Verdict v" "vd_MatchedIoC w = vd_MatchedIoC v" "vd_ClientIP w = vd_ClientIP v" by (simp_all add: w_def)
  show ?thesis
  proof (cases "vd_Verdict v = VerdictFalsePositive")
    case True
    with None have "mget (fb_suppressions s) (fb_key (vd_MatchedIoC w) (vd_ClientIP w)) \<noteq> None \<or> int (length (fb_suppressions s)) < fb_max s"
      by (auto simp: Record_def Let_def w_def [symmetric] w split: if_splits)
    moreover have "snd (snd (Record now v s)) = s \<lparr> fb_suppressions := mput (fb_key (vd_MatchedIoC w) (vd_ClientIP w)) w (fb_suppressions s) \<rparr>"
      using None True w by (auto simp: Record_def Let_def w_def [symmetric] split: if_splits)
    ultimately show ?thesis using ok True w by (simp add: fb_ok_put)
  next
    case False
    with None have "snd (snd (Record now v s)) = s \<lparr> fb_suppressions := mdel (fb_key (vd_MatchedIoC w) (vd_ClientIP w)) (fb_suppressions s) \<rparr>"
      using w by (auto simp: Record_def Let_def w_def [symmetric] split: if_splits)
    then show ?thesis using ok by (simp add: fb_ok_del)
  qed
qed (use Record_error [of now v s] in simp)

lemma fb_ok_applyLoaded: "fb_ok s \<Longrightarrow> fb_ok (applyLoaded now v s)"
  by (auto simp: applyLoaded_def Let_def intro: fb_ok_put fb_ok_del)

interpretation fl: machine "applyLoaded now" fb_ok for now
  by unfold_locales (rule fb_ok_applyLoaded)

lemma fb_ok_swept: "fb_ok s \<Longrightarrow> swept now s t \<Longrightarrow> mwf (fb_suppressions t) \<Longrightarrow> fb_ok t"
proof -
  assume a: "fb_ok s" "swept now s t" "mwf (fb_suppressions t)"
  have "mget (fb_suppressions s) k = Some v" if "mget (fb_suppressions t) k = Some v" for k v
    using swept_at [OF a(2), of k] that by auto
  with a show ?thesis by (auto simp: fb_ok_def swept_def)
qed

lemma mwf_sweep: "mwf (fb_suppressions s) \<Longrightarrow> mwf (fb_suppressions (sweep now ks s))"
  by (induction ks arbitrary: s) (auto split: option.split)

lemma fb_ok_step: "fb_ok s \<Longrightarrow> fb_ok (fb_step op s)"
proof (cases op)
  case (AskOp now a)
  assume ok: "fb_ok s"
  then have "mwf (fb_suppressions (snd (Suppressed now a s)))" by (simp add: Suppressed_def case_prod_beta mwf_sweep fb_ok_def)
  with fb_ok_swept [OF ok Suppressed_swept] AskOp show ?thesis by simp
qed (simp_all add: fb_ok_Record LoadInto_def fl.runs_ok)

interpretation fm: machine fb_step fb_ok
  by unfold_locales (rule fb_ok_step)

lemma NewStore_ok: "fb_ok (NewStore sink ttl maxs)"
  by (simp add: fb_ok_def NewStore_def DefaultMaxSuppressions_def)

lemma fb_step_config: "fb_max (fb_step op s) = fb_max s \<and> fb_ttl (fb_step op s) = fb_ttl s"
proof (cases op)
  case (RecordOp now v)
  then show ?thesis by (simp add: Record_def Let_def)
next
  case (AskOp now a)
  then show ?thesis using Suppressed_swept [of now s a] by (simp add: swept_def)
next
  case (LoadOp now rows)
  have "fb_max (fold (applyLoaded now) rows s) = fb_max s \<and> fb_ttl (fold (applyLoaded now) rows s) = fb_ttl s"
    by (induction rows arbitrary: s) (simp_all add: applyLoaded_def Let_def)
  then show ?thesis by (simp add: LoadOp LoadInto_def)
qed

text \<open>
  Further fact. The suppression map stays within its cap through any sequence of verdicts, checks and
  replays, so the endpoint cannot exhaust the pod's memory.
\<close>

theorem suppressions_bounded:
  "int (length (fb_suppressions (fold fb_step ops (NewStore sink ttl maxs)))) \<le> (if maxs \<le> 0 then 10000 else maxs)"
proof -
  have "fb_max (fold fb_step ops s) = fb_max s" for s by (induction ops arbitrary: s) (simp_all add: fb_step_config)
  then have "fb_max (fold fb_step ops (NewStore sink ttl maxs)) = (if maxs \<le> 0 then 10000 else maxs)"
    by (simp add: NewStore_def DefaultMaxSuppressions_def)
  then show ?thesis using fm.runs_ok [OF NewStore_ok, of ops sink ttl maxs] by (simp add: fb_ok_def)
qed

subsection \<open>The scope of a suppression\<close>

lemma split_at_last:
  "xs @ x # ys = xs' @ x # ys' \<Longrightarrow> x \<notin> set ys \<Longrightarrow> x \<notin> set ys' \<Longrightarrow> xs = xs' \<and> ys = ys'"
proof (induction xs arbitrary: xs')
  case Nil
  then show ?case by (cases xs') auto
next
  case (Cons a xs)
  then show ?case by (cases xs') auto
qed

lemma to_lower_char_bar: "to_lower_char c = CHR ''|'' \<longleftrightarrow> c = CHR ''|''"
proof (cases "65 \<le> (of_char c :: nat) \<and> (of_char c :: nat) \<le> 90")
  case True
  then have "(of_char (to_lower_char c) :: nat) = of_char c + 32" by (simp add: to_lower_char_def Let_def)
  with True have "(of_char (to_lower_char c) :: nat) \<noteq> of_char (CHR ''|'')" "(of_char c :: nat) \<noteq> of_char (CHR ''|'')" by auto
  then show ?thesis by metis
next
  case False
  then have "to_lower_char c = c" unfolding to_lower_char_def Let_def by (rule if_not_P)
  then show ?thesis by simp
qed

lemma bar_norm: "CHR ''|'' \<notin> set c \<Longrightarrow> CHR ''|'' \<notin> set (norm c)"
proof
  assume no: "CHR ''|'' \<notin> set c" and "CHR ''|'' \<in> set (norm c)"
  then obtain x where "x \<in> set (trim_space c)" "to_lower_char x = CHR ''|''" unfolding norm_def to_lower_def by force
  then have "CHR ''|'' \<in> set c" using set_trim_space [of c] to_lower_char_bar [of x] by auto
  with no show False by contradiction
qed

lemma fb_key_norm: "fb_key i c = norm i @ ''|'' @ norm c"
  by (simp add: fb_key_def norm_def)

lemma fb_key_eq:
  assumes "fb_key i c = fb_key i' c'" "CHR ''|'' \<notin> set c" "CHR ''|'' \<notin> set c'"
  shows "norm i = norm i' \<and> norm c = norm c'"
  using split_at_last [of "norm i" "CHR ''|''" "norm c" "norm i'" "norm c'"] assms(1) bar_norm assms(2,3) by (simp add: fb_key_norm)

text \<open>The verdicts an operation brings in: the one recorded, stamped with the instant where it has none, or those replayed.\<close>

fun fb_verdicts :: "fb_op \<Rightarrow> verdict list" where
  "fb_verdicts (RecordOp now v) = [if vd_Timestamp v = zero_time then v \<lparr> vd_Timestamp := now \<rparr> else v]"
| "fb_verdicts (AskOp now a) = []"
| "fb_verdicts (LoadOp now rows) = rows"

definition fb_from :: "verdict set \<Rightarrow> fb_store \<Rightarrow> bool" where
  "fb_from H s \<longleftrightarrow> (\<forall>k v. mget (fb_suppressions s) k = Some v \<longrightarrow> v \<in> H)"

lemma fb_from_put: "fb_from H s \<Longrightarrow> v \<in> H \<Longrightarrow> fb_from H (s \<lparr> fb_suppressions := mput k v (fb_suppressions s) \<rparr>)"
  by (auto simp: fb_from_def mget_put)

lemma fb_from_del: "fb_from H s \<Longrightarrow> fb_from H (s \<lparr> fb_suppressions := mdel k (fb_suppressions s) \<rparr>)"
  by (auto simp: fb_from_def mget_del)

lemma fb_from_load: "fb_from H s \<Longrightarrow> set rows \<subseteq> H \<Longrightarrow> fb_from H (fold (applyLoaded now) rows s)"
  by (induction rows arbitrary: s) (auto simp: applyLoaded_def Let_def fb_from_put fb_from_del)

lemma fb_from_step: "fb_from H s \<Longrightarrow> set (fb_verdicts op) \<subseteq> H \<Longrightarrow> fb_from H (fb_step op s)"
proof (cases op)
  case (RecordOp now v)
  assume h: "fb_from H s" "set (fb_verdicts op) \<subseteq> H"
  define w where "w = (if vd_Timestamp v = zero_time then v \<lparr> vd_Timestamp := now \<rparr> else v)"
  have "w \<in> H" using h(2) RecordOp by (simp add: w_def)
  then show ?thesis using h(1) RecordOp
    by (simp add: Record_def Let_def w_def [symmetric] fb_from_put fb_from_del)
next
  case (AskOp now a)
  assume "fb_from H s"
  then show ?thesis using AskOp swept_at [OF Suppressed_swept [of now s a]] unfolding fb_from_def by (metis fb_step.simps(2) option.distinct(1))
next
  case (LoadOp now rows)
  assume "fb_from H s" "set (fb_verdicts op) \<subseteq> H"
  then show ?thesis using LoadOp by (simp add: LoadInto_def fb_from_load)
qed

lemma fb_from_run: "fb_from H s \<Longrightarrow> (\<And>op. op \<in> set ops \<Longrightarrow> set (fb_verdicts op) \<subseteq> H) \<Longrightarrow> fb_from H (fold fb_step ops s)"
  by (induction ops arbitrary: s) (simp_all add: fb_from_step)

text \<open>
  Property C9. Suppression is scoped, never global. After any sequence of verdicts, checks and replays, an
  alert is silenced only by a false-positive verdict that was recorded or replayed for the same indicator
  (up to case and surrounding blanks) and for the same client or for no particular client, and that is not
  past the lifetime, provided no client name holds the separator of the keys.
\<close>

theorem suppression_is_scoped:
  assumes "fst (Suppressed now a (fold fb_step ops (NewStore sink ttl maxs)))"
    and "CHR ''|'' \<notin> set (al_ClientIP a)"
    and "\<And>op v. op \<in> set ops \<Longrightarrow> v \<in> set (fb_verdicts op) \<Longrightarrow> CHR ''|'' \<notin> set (vd_ClientIP v)"
  shows "\<exists>op \<in> set ops. \<exists>v \<in> set (fb_verdicts op). vd_Verdict v = ''false_positive'' \<and> norm (vd_MatchedIoC v) = norm (al_MatchedIoC a)
     \<and> (norm (vd_ClientIP v) = norm (al_ClientIP a) \<or> norm (vd_ClientIP v) = [])
     \<and> time_sub now (vd_Timestamp v) \<le> (if ttl \<le> 0 then DefaultSuppressionTTL else ttl)"
proof -
  define s where "s = fold fb_step ops (NewStore sink ttl maxs)"
  define H where "H = {v. \<exists>op \<in> set ops. v \<in> set (fb_verdicts op)}"
  have ok: "fb_ok s" unfolding s_def by (rule fm.runs_ok [OF NewStore_ok])
  have "fb_from H (NewStore sink ttl maxs)" by (simp add: fb_from_def NewStore_def)
  then have from_H: "fb_from H s" unfolding s_def by (rule fb_from_run) (auto simp: H_def)
  have "fb_ttl (fold fb_step ops s0) = fb_ttl s0" for s0 by (induction ops arbitrary: s0) (simp_all add: fb_step_config)
  then have ttl: "fb_ttl s = (if ttl \<le> 0 then DefaultSuppressionTTL else ttl)" by (simp add: s_def NewStore_def)
  from assms(1) obtain c where c: "live_at now s (fb_key (al_MatchedIoC a) c)" "c = al_ClientIP a \<or> c = []"
    unfolding s_def [symmetric] Suppressed_iff by blast
  then obtain v where v: "mget (fb_suppressions s) (fb_key (al_MatchedIoC a) c) = Some v" "\<not> expired now s v"
    by (auto simp: live_at_def split: option.splits)
  have fp: "vd_Verdict v = ''false_positive''" "fb_key (al_MatchedIoC a) c = fb_key (vd_MatchedIoC v) (vd_ClientIP v)"
    using ok v(1) by (auto simp: fb_ok_def)
  obtain op where op: "op \<in> set ops" "v \<in> set (fb_verdicts op)" using from_H v(1) by (auto simp: fb_from_def H_def)
  have "CHR ''|'' \<notin> set c" using c(2) assms(2) by auto
  from fb_key_eq [OF fp(2) this assms(3) [OF op]]
  have n: "norm (vd_MatchedIoC v) = norm (al_MatchedIoC a)" "norm (vd_ClientIP v) = norm c" by simp_all
  moreover have "norm [] = []" by (simp add: norm_def trim_space_def trim_left_by_def trim_right_by_def)
  moreover have "time_sub now (vd_Timestamp v) \<le> (if ttl \<le> 0 then DefaultSuppressionTTL else ttl)"
    using v(2) ttl by (simp add: expired_def)
  ultimately show ?thesis using op fp(1) c(2) by metis
qed

definition sample_verdict :: "string \<Rightarrow> string \<Rightarrow> instant \<Rightarrow> verdict" where
  "sample_verdict i vd t = \<lparr> vd_AlertID = [], vd_MatchedIoC = i, vd_ClientIP = [], vd_Verdict = vd, vd_Reason = [],
     vd_Analyst = ''ana'', vd_Timestamp = t \<rparr>"

definition hit_alert :: "string \<Rightarrow> string \<Rightarrow> alert" where
  "hit_alert i c = \<lparr> al_ID = ''DET-1'', al_Timestamp = 0, al_Domain = i, al_ClientIP = c, al_ClientMAC = [], al_ClientName = [],
     al_QueryType = ''A'', al_MatchedIoC = i, al_IoCType = ''domain'', al_Severity = ''high'', al_Source = ''misp'',
     al_Confidence = 85, al_MitreID = [], al_MitreName = [], al_Threat = [], al_Tags = [], al_SignalClass = ''ioc'',
     al_Signals = [], al_SignalCount = 0 \<rparr>"

theorem suppression_is_scoped_witness:
  "\<exists>op \<in> set [RecordOp 5 (sample_verdict ''Evil.com '' ''false_positive'' 5)]. \<exists>v \<in> set (fb_verdicts op).
     norm (vd_MatchedIoC v) = norm ''evil.com'' \<and> norm (vd_ClientIP v) = []"
proof -
  let ?ops = "[RecordOp 5 (sample_verdict ''Evil.com '' ''false_positive'' 5)]" and ?a = "hit_alert ''evil.com'' ''192.168.1.7''"
  have s: "fst (Suppressed 9 ?a (fold fb_step ?ops (NewStore False 0 0)))" by code_simp
  have "CHR ''|'' \<notin> set (al_ClientIP ?a)" by (simp add: hit_alert_def)
  from suppression_is_scoped [OF s this]
  have "\<exists>op \<in> set ?ops. \<exists>v \<in> set (fb_verdicts op). vd_Verdict v = ''false_positive'' \<and> norm (vd_MatchedIoC v) = norm (al_MatchedIoC ?a)"
    by (auto simp: sample_verdict_def)
  moreover have "norm [] = []" by code_simp
  ultimately show ?thesis by (simp add: sample_verdict_def hit_alert_def)
qed

subsection \<open>Two ways a suppression outlives its reason\<close>

text \<open>
  Further fact. The poster of a verdict chooses how long it silences. A verdict is aged from the timestamp in
  its body, which the handler takes as it is; so a verdict dated in the future suppresses the indicator
  until that date plus the lifetime.
\<close>

theorem verdict_lifetime_is_callers_choice:
  assumes "0 < fb_ttl s" "int (length (fb_suppressions s)) < fb_max s"
    and "vd_MatchedIoC v \<noteq> []" "vd_Verdict v = ''false_positive''" "vd_Analyst v \<noteq> []" "vd_Timestamp v \<noteq> zero_time"
    and "t \<le> vd_Timestamp v + fb_ttl s"
    and "al_MatchedIoC a = vd_MatchedIoC v" "al_ClientIP a = vd_ClientIP v"
  shows "fst (HandleFeedback now (Some v) [] s) = 202 \<and> fst (Suppressed t a (snd (snd (HandleFeedback now (Some v) [] s))))"
proof -
  let ?k = "fb_key (vd_MatchedIoC v) (vd_ClientIP v)" and ?t = "s \<lparr> fb_suppressions := mput (fb_key (vd_MatchedIoC v) (vd_ClientIP v)) v (fb_suppressions s) \<rparr>"
  have r: "Record now v s = (None, if fb_sink s then Some v else None, ?t)" using assms by (simp add: Record_def Let_def)
  have "time_sub t (vd_Timestamp v) \<le> fb_ttl s" using assms(1,7) by (auto simp: time_sub_def)
  then have "live_at t ?t ?k" by (simp add: live_at_def mget_put expired_def)
  then show ?thesis using assms(8,9) by (simp add: HandleFeedback_def r Suppressed_iff)
qed

theorem verdict_lifetime_is_callers_choice_witness:
  "fst (Suppressed 3153600000000000000 (hit_alert ''evil.com'' [])
     (snd (snd (HandleFeedback 0 (Some (sample_verdict ''evil.com'' ''false_positive'' 3153600000000000000)) [] (NewStore True 0 0)))))"
  using verdict_lifetime_is_callers_choice [of "NewStore True 0 0" "sample_verdict ''evil.com'' ''false_positive'' 3153600000000000000"
      3153600000000000000 "hit_alert ''evil.com'' []" 0]
  by (simp add: NewStore_def DefaultSuppressionTTL_def DefaultMaxSuppressions_def sample_verdict_def hit_alert_def zero_time_def)

text \<open>
  Further fact. A restart can bring a cleared suppression back. The store treats spellings of an indicator
  as one, the replay query groups by the raw spelling; so after a false-positive verdict on one spelling and
  a confirmation on another, the alert is reported, and after a restart that replays both rows, the
  confirmation first, it is silenced again.
\<close>

theorem restart_resurrects_suppression:
  "let fp = sample_verdict ''Evil.com'' ''false_positive'' 10; ok = sample_verdict ''evil.com'' ''confirmed'' 20;
       a = hit_alert ''evil.com'' ''192.168.1.7'';
       before = fold fb_step [RecordOp 10 fp, RecordOp 20 ok] (NewStore True 0 0);
       after = snd (LoadInto 30 [ok, fp] (NewStore True 0 0))
   in vd_MatchedIoC fp \<noteq> vd_MatchedIoC ok \<and> \<not> fst (Suppressed 30 a before) \<and> fst (Suppressed 30 a after)"
  by code_simp

end
