(* ===== verification/Ingest.thy ===== *)
theory Ingest
  imports DetectEngine
begin

text \<open>
  Sensor ingest (\<open>detection-engine/internal/ingest\<close>): the unified event and its conversion to an alert
  (\<open>model.go\<close>), the five ClickHouse streams (\<open>sources.go\<close>, \<open>ml.go\<close>, \<open>tls.go\<close>) and the cursor of the poller
  (\<open>poller.go\<close>). Decoding the JSON of a row is a parameter, as is the answer of ClickHouse; a row is the
  record its \<open>json.Unmarshal\<close> fills, with the text of each \<open>json.Number\<close>.
\<close>

subsection \<open>Numbers\<close>

text \<open>
  \<open>strconv.ParseInt(s, 10, 64)\<close>, as \<open>json.Number.Int64\<close> calls it: the value, and whether there is no error. A
  syntax error gives 0, a number out of range the nearest bound.
\<close>

definition parse_int64 :: "string \<Rightarrow> int \<times> bool" where
  "parse_int64 s =
     (let (neg, ds) = (case s of [] \<Rightarrow> (False, []) | c # cs \<Rightarrow> if c = CHR ''-'' then (True, cs) else if c = CHR ''+'' then (False, cs) else (False, s))
      in if ds = [] \<or> \<not> list_all is_digit ds then (0, False)
         else let n = int (read_digits ds 0); v = (if neg then - n else n) in
           if v < - (2 ^ 63) then (- (2 ^ 63), False) else if v \<ge> 2 ^ 63 then (2 ^ 63 - 1, False) else (v, True))"

definition toInt :: "string \<Rightarrow> int" where
  "toInt n = fst (parse_int64 n)"

subsection \<open>The unified event (\<open>model.go\<close>)\<close>

record sensor_event =
  se_Sensor :: string
  se_Kind :: string
  se_Timestamp :: instant
  se_FlowID :: string
  se_SrcIP :: string
  se_SrcPort :: int
  se_DstIP :: string
  se_DstPort :: int
  se_Proto :: string
  se_Signature :: string
  se_Category :: string
  se_Indicator :: string
  se_IndicatorType :: string
  se_Severity :: string
  se_Confidence :: int
  se_Source :: string
  se_Threat :: string
  se_SNI :: string
  se_JA3 :: string

definition empty_event :: sensor_event where
  "empty_event = \<lparr> se_Sensor = [], se_Kind = [], se_Timestamp = zero_time, se_FlowID = [], se_SrcIP = [], se_SrcPort = 0,
     se_DstIP = [], se_DstPort = 0, se_Proto = [], se_Signature = [], se_Category = [], se_Indicator = [],
     se_IndicatorType = [], se_Severity = [], se_Confidence = 0, se_Source = [], se_Threat = [], se_SNI = [], se_JA3 = [] \<rparr>"

definition normalizeIntelType :: "string \<Rightarrow> string" where
  "normalizeIntelType t =
     (let u = trim_prefix t ''Intel::'' in
      if u = ''DOMAIN'' then ''domain'' else if u = ''ADDR'' \<or> u = ''SUBNET'' then ''ip'' else if u = ''URL'' then ''url''
      else if u = ''JA3'' then ''ja3'' else if u = ''TLSFP'' then ''tlsfp'' else if u = ''CERT_HASH'' then ''cert-sha256''
      else if u = ''FILE_HASH'' then ''sha256'' else to_lower u)"

definition suricataSeverity :: "int \<Rightarrow> string" where
  "suricataSeverity s = (if s = 1 then ''high'' else if s = 2 then ''medium'' else ''low'')"

record threat_intel =
  ti_Source :: string
  ti_Severity :: string
  ti_Confidence :: int
  ti_Threat :: string

definition applyThreatIntel :: "(string \<Rightarrow> threat_intel option) \<Rightarrow> string \<Rightarrow> sensor_event \<Rightarrow> sensor_event" where
  "applyThreatIntel decode raw e =
     (if raw = [] then e
      else case decode raw of
          None \<Rightarrow> e
        | Some ti \<Rightarrow>
            let e = (if ti_Severity ti \<noteq> [] \<and> ti_Severity ti \<noteq> ''unknown'' then e \<lparr> se_Severity := ti_Severity ti \<rparr> else e);
                e = (if ti_Confidence ti > se_Confidence e then e \<lparr> se_Confidence := ti_Confidence ti \<rparr> else e);
                e = (if ti_Source ti \<noteq> [] then e \<lparr> se_Source := ti_Source ti \<rparr> else e)
            in if ti_Threat ti \<noteq> [] then e \<lparr> se_Threat := ti_Threat ti \<rparr> else e)"

definition signalClass :: "string \<Rightarrow> string" where
  "signalClass kind =
     (if kind = ''ids-alert'' then SignalIDS else if kind = ''intel-hit'' then SignalIoC
      else if kind = ''tls-client'' then SignalTLS else if kind = ''ml-beacon'' then SignalBeacon
      else if kind = ''ml-anomaly'' then SignalVolumetric else kind)"

definition lookup :: "matcher \<Rightarrow> string \<Rightarrow> string \<Rightarrow> ioc option" where
  "lookup m iocType value =
     (if iocType = ''domain'' then MatchDomain m value else if iocType = ''ip'' then MatchIP m value
      else if iocType \<in> {''ja3'', ''tlsfp'', ''md5'', ''sha256''} then MatchHash m value else None)"

definition ToAlert :: "matcher option \<Rightarrow> sensor_event \<Rightarrow> alert" where
  "ToAlert mo ev =
     (let a0 = \<lparr> al_ID = [], al_Timestamp = se_Timestamp ev, al_Domain = se_Indicator ev, al_ClientIP = se_SrcIP ev,
                 al_ClientMAC = [], al_ClientName = [], al_QueryType = [], al_MatchedIoC = se_Indicator ev,
                 al_IoCType = se_IndicatorType ev, al_Severity = se_Severity ev, al_Source = se_Source ev,
                 al_Confidence = se_Confidence ev, al_MitreID = [], al_MitreName = [], al_Threat = se_Threat ev,
                 al_Tags = [], al_SignalClass = signalClass (se_Kind ev), al_Signals = [], al_SignalCount = 0 \<rparr>;
          a1 = (if al_MatchedIoC a0 = [] then a0 \<lparr> al_MatchedIoC := se_Signature ev, al_Domain := se_Signature ev \<rparr> else a0);
          a2 = (if al_Threat a1 = [] then a1 \<lparr> al_Threat := se_Signature ev \<rparr> else a1);
          a3 = (if al_Source a2 = [] then a2 \<lparr> al_Source := se_Sensor ev \<rparr> else a2);
          a4 = (case (if se_Kind ev = ''intel-hit'' then (case mo of None \<Rightarrow> None | Some m \<Rightarrow> lookup m (se_IndicatorType ev) (se_Indicator ev)) else None) of
                  None \<Rightarrow> a3
                | Some i \<Rightarrow>
                    a3 \<lparr> al_Severity := ioc_Severity i, al_Confidence := ioc_Confidence i,
                         al_Source := (if ioc_Source i \<noteq> [] then ioc_Source i else al_Source a3),
                         al_Threat := (if ioc_Threat i \<noteq> [] then ioc_Threat i else al_Threat a3),
                         al_MitreID := ioc_MitreID i, al_MitreName := ioc_MitreName i \<rparr>);
          mitre = DeriveMitre \<lparr> ioc_Value = [], ioc_Type = se_IndicatorType ev, ioc_Source = [], ioc_Threat = se_Threat ev,
                    ioc_Confidence = 0, ioc_Tags = [], ioc_Severity = [], ioc_MitreID = [], ioc_MitreName = [] \<rparr>;
          a5 = (if al_MitreID a4 = [] then a4 \<lparr> al_MitreID := fst mitre, al_MitreName := snd mitre \<rparr> else a4)
      in if al_Severity a5 = [] then a5 \<lparr> al_Severity := ''medium'' \<rparr> else a5)"

subsection \<open>The streams\<close>

text \<open>\<open>time.Unix(ts, 0)\<close> and \<open>t.Unix()\<close>.\<close>

definition unix_time :: "int \<Rightarrow> instant" where
  "unix_time ts = ts * 1000000000"

definition chTime :: "instant \<Rightarrow> string" where
  "chTime t = ''toDateTime('' @ show_int (t div 1000000000) @ '')''"

definition nl :: string where "nl = [CHR 0x0A, CHR '' '', CHR '' '']"
definition nl0 :: string where "nl0 = [CHR 0x0A]"

definition query_tail :: "string \<Rightarrow> string \<Rightarrow> instant \<Rightarrow> nat \<Rightarrow> string" where
  "query_tail table cond since limit =
     nl0 @ ''FROM '' @ table @ '' WHERE timestamp >= '' @ chTime since @ cond @ nl0 @ ''ORDER BY timestamp LIMIT '' @ show_nat limit
     @ '' FORMAT JSONEachRow''"

definition suricata_Query :: "instant \<Rightarrow> nat \<Rightarrow> string" where
  "suricata_Query since limit =
     ''SELECT toUnixTimestamp(timestamp) AS ts, flow_id, src_ip, src_port,'' @ nl
     @ ''dest_ip, dest_port, proto, alert_signature, alert_category, alert_severity,'' @ nl
     @ ''alert_signature_id, threat_intel'' @ query_tail ''suricata_alerts'' [] since limit"

record suricata_row =
  sr_TS :: string
  sr_FlowID :: string
  sr_SrcIP :: string
  sr_SrcPort :: string
  sr_DestIP :: string
  sr_DestPort :: string
  sr_Proto :: string
  sr_AlertSignature :: string
  sr_AlertCategory :: string
  sr_AlertSeverity :: string
  sr_AlertSignatureID :: string
  sr_ThreatIntel :: string

text \<open>A parse of a row: \<open>None\<close> is its error.\<close>

definition suricata_Parse ::
  "(string \<Rightarrow> suricata_row option) \<Rightarrow> (string \<Rightarrow> threat_intel option) \<Rightarrow> string \<Rightarrow> (sensor_event \<times> string) option" where
  "suricata_Parse decode decode_ti row =
     (case decode row of None \<Rightarrow> None
      | Some r \<Rightarrow>
          (case parse_int64 (sr_TS r) of (ts, ok) \<Rightarrow>
            if \<not> ok then None
            else let ev = empty_event \<lparr> se_Sensor := ''suricata'', se_Kind := ''ids-alert'', se_Timestamp := unix_time ts,
                        se_FlowID := sr_FlowID r, se_SrcIP := sr_SrcIP r, se_SrcPort := toInt (sr_SrcPort r),
                        se_DstIP := sr_DestIP r, se_DstPort := toInt (sr_DestPort r), se_Proto := sr_Proto r,
                        se_Signature := sr_AlertSignature r, se_Category := sr_AlertCategory r,
                        se_Severity := suricataSeverity (fst (parse_int64 (sr_AlertSeverity r))), se_Source := ''et-open'' \<rparr>
                 in Some (applyThreatIntel decode_ti (sr_ThreatIntel r) ev,
                          sr_FlowID r @ ''/'' @ sr_AlertSignatureID r @ ''/'' @ sr_TS r)))"

definition zeek_intel_Query :: "instant \<Rightarrow> nat \<Rightarrow> string" where
  "zeek_intel_Query since limit =
     ''SELECT toUnixTimestamp(timestamp) AS ts, uid, src_ip, src_port,'' @ nl
     @ ''dst_ip, dst_port, indicator, indicator_type, seen_where, sources'' @ query_tail ''zeek_intel'' [] since limit"

record zeek_intel_row =
  zr_TS :: string
  zr_UID :: string
  zr_SrcIP :: string
  zr_SrcPort :: string
  zr_DstIP :: string
  zr_DstPort :: string
  zr_Indicator :: string
  zr_IndicatorType :: string
  zr_SeenWhere :: string
  zr_Sources :: "string list"

definition zeek_intel_Parse :: "(string \<Rightarrow> zeek_intel_row option) \<Rightarrow> string \<Rightarrow> (sensor_event \<times> string) option" where
  "zeek_intel_Parse decode row =
     (case decode row of None \<Rightarrow> None
      | Some r \<Rightarrow>
          (case parse_int64 (zr_TS r) of (ts, ok) \<Rightarrow>
            if \<not> ok then None
            else Some (empty_event \<lparr> se_Sensor := ''zeek'', se_Kind := ''intel-hit'', se_Timestamp := unix_time ts,
                        se_FlowID := zr_UID r, se_SrcIP := zr_SrcIP r, se_SrcPort := toInt (zr_SrcPort r),
                        se_DstIP := zr_DstIP r, se_DstPort := toInt (zr_DstPort r), se_Proto := ''tcp'',
                        se_Signature := zr_SeenWhere r, se_Indicator := zr_Indicator r,
                        se_IndicatorType := normalizeIntelType (zr_IndicatorType r),
                        se_Source := (case zr_Sources r of [] \<Rightarrow> ''zeek-intel'' | s # _ \<Rightarrow> s) \<rparr>,
                       zr_UID r @ ''/'' @ zr_Indicator r @ ''/'' @ zr_TS r)))"

definition ml_beacons_Query :: "instant \<Rightarrow> nat \<Rightarrow> string" where
  "ml_beacons_Query since limit =
     ''SELECT toUnixTimestamp(timestamp) AS ts, src_ip, dst_ip,'' @ nl
     @ ''dst_domain, beacon_score, connection_count, confidence, severity, beacon_type, tags'' @ query_tail ''ml_beacons'' [] since limit"

record ml_beacon_row =
  mb_TS :: string
  mb_SrcIP :: string
  mb_DstIP :: string
  mb_DstDomain :: string
  mb_BeaconScore :: string
  mb_ConnectionCount :: string
  mb_Confidence :: string
  mb_Severity :: string
  mb_BeaconType :: string
  mb_Tags :: "string list"

definition ml_beacons_Parse :: "(string \<Rightarrow> ml_beacon_row option) \<Rightarrow> string \<Rightarrow> (sensor_event \<times> string) option" where
  "ml_beacons_Parse decode row =
     (case decode row of None \<Rightarrow> None
      | Some r \<Rightarrow>
          (case parse_int64 (mb_TS r) of (ts, ok) \<Rightarrow>
            if \<not> ok then None
            else let threat = (if mb_BeaconType r \<noteq> [] then ''beaconing ('' @ mb_BeaconType r @ '')'' else ''beaconing'');
                     target = (if mb_DstDomain r = [] then mb_DstIP r else mb_DstDomain r)
                 in Some (empty_event \<lparr> se_Sensor := ''ml-anomaly'', se_Kind := ''ml-beacon'', se_Timestamp := unix_time ts,
                        se_SrcIP := mb_SrcIP r, se_DstIP := mb_DstIP r,
                        se_Signature := ''beacon score '' @ mb_BeaconScore r @ '' to '' @ target @ '' ('' @ mb_ConnectionCount r @ '' conns)'',
                        se_Indicator := target, se_IndicatorType := ''beacon'', se_Severity := mb_Severity r,
                        se_Confidence := toInt (mb_Confidence r), se_Source := ''rita'', se_Threat := threat \<rparr>,
                       mb_SrcIP r @ ''/'' @ mb_DstIP r @ ''/'' @ mb_TS r)))"

definition ml_anomalies_Query :: "instant \<Rightarrow> nat \<Rightarrow> string" where
  "ml_anomalies_Query since limit =
     ''SELECT toUnixTimestamp(timestamp) AS ts,'' @ nl
     @ ''toString(window_start) AS window_start, src_ip, anomaly_score, confidence,'' @ nl
     @ ''severity, conn_count, bytes_out, dst_fanout, model_version, tags'' @ query_tail ''ml_anomalies'' [] since limit"

record ml_anomaly_row =
  ma_TS :: string
  ma_WindowStart :: string
  ma_SrcIP :: string
  ma_AnomalyScore :: string
  ma_Confidence :: string
  ma_Severity :: string
  ma_ConnCount :: string
  ma_BytesOut :: string
  ma_DstFanout :: string
  ma_ModelVersion :: string
  ma_Tags :: "string list"

definition ml_anomalies_Parse :: "(string \<Rightarrow> ml_anomaly_row option) \<Rightarrow> string \<Rightarrow> (sensor_event \<times> string) option" where
  "ml_anomalies_Parse decode row =
     (case decode row of None \<Rightarrow> None
      | Some r \<Rightarrow>
          (case parse_int64 (ma_TS r) of (ts, ok) \<Rightarrow>
            if \<not> ok then None
            else let reasons = filter (\<lambda>t. t \<noteq> ''anomaly'' \<and> t \<noteq> ''iforest'') (ma_Tags r);
                     shape = (if length reasons > 0 then ''flow anomaly: '' @ join '','' reasons else ''flow anomaly'')
                 in Some (empty_event \<lparr> se_Sensor := ''ml-anomaly'', se_Kind := ''ml-anomaly'', se_Timestamp := unix_time ts,
                        se_SrcIP := ma_SrcIP r,
                        se_Signature := ''anomaly score '' @ ma_AnomalyScore r @ '' window '' @ ma_WindowStart r @ '' (model '' @ ma_ModelVersion r @ '')'',
                        se_Indicator := ma_SrcIP r, se_IndicatorType := ''flow-window'', se_Severity := ma_Severity r,
                        se_Confidence := toInt (ma_Confidence r), se_Source := ''iforest'', se_Threat := shape \<rparr>,
                       ma_SrcIP r @ ''/'' @ ma_WindowStart r)))"

definition zeek_ssl_Query :: "instant \<Rightarrow> nat \<Rightarrow> string" where
  "zeek_ssl_Query since limit =
     ''SELECT toUnixTimestamp(timestamp) AS ts, uid, src_ip, src_port,'' @ nl
     @ ''dst_ip, dst_port, server_name, ja3, tls_client_fp'' @ query_tail ''zeek_ssl'' '' AND established = 1'' since limit"

record zeek_ssl_row =
  zs_TS :: string
  zs_UID :: string
  zs_SrcIP :: string
  zs_SrcPort :: string
  zs_DstIP :: string
  zs_DstPort :: string
  zs_ServerName :: string
  zs_JA3 :: string
  zs_TLSClientFP :: string

definition zeek_ssl_Parse :: "(string \<Rightarrow> zeek_ssl_row option) \<Rightarrow> string \<Rightarrow> (sensor_event \<times> string) option" where
  "zeek_ssl_Parse decode row =
     (case decode row of None \<Rightarrow> None
      | Some r \<Rightarrow>
          (case parse_int64 (zs_TS r) of (ts, ok) \<Rightarrow>
            if \<not> ok then None
            else Some (empty_event \<lparr> se_Sensor := ''zeek'', se_Kind := ''tls-client'', se_Timestamp := unix_time ts,
                        se_FlowID := zs_UID r, se_SrcIP := zs_SrcIP r, se_SrcPort := toInt (zs_SrcPort r),
                        se_DstIP := zs_DstIP r, se_DstPort := toInt (zs_DstPort r), se_Proto := ''tcp'',
                        se_Indicator := zs_TLSClientFP r, se_IndicatorType := ''tlsfp'', se_SNI := zs_ServerName r, se_JA3 := zs_JA3 r \<rparr>,
                       zs_UID r @ ''/'' @ zs_TS r)))"

subsection \<open>The poller\<close>

definition pollBatchLimit :: nat where [simp]: "pollBatchLimit = 1000"

record poller =
  po_cursor :: instant
  po_seen :: "string set"

definition NewPoller :: "instant \<Rightarrow> poller" where
  "NewPoller now = \<lparr> po_cursor = unix_time (now div 1000000000), po_seen = {} \<rparr>"

text \<open>The callback of the query on each row, with \<open>maxTS\<close> and \<open>fresh\<close> threaded through.\<close>

fun poll_rows :: "('r \<Rightarrow> (sensor_event \<times> string) option) \<Rightarrow> poller \<Rightarrow> 'r list \<Rightarrow> instant \<Rightarrow> string set
    \<Rightarrow> sensor_event list \<times> instant \<times> string set" where
  "poll_rows parse p [] maxTS fresh = ([], maxTS, fresh)"
| "poll_rows parse p (row # rows) maxTS fresh =
     (case parse row of
        None \<Rightarrow> poll_rows parse p rows maxTS fresh
      | Some (ev, key) \<Rightarrow>
          if se_Timestamp ev = po_cursor p \<and> key \<in> po_seen p then poll_rows parse p rows maxTS fresh
          else
            let (maxTS, fresh) = (if se_Timestamp ev > maxTS then (se_Timestamp ev, {}) else (maxTS, fresh));
                fresh = (if se_Timestamp ev = maxTS then insert key fresh else fresh);
                (evs, r) = poll_rows parse p rows maxTS fresh
            in (ev # evs, r))"

text \<open>
  \<open>poll\<close> on the rows the query delivers; the flag says whether it ended without an error. After an error the
  rows already handled have been emitted, and the cursor stays.
\<close>

definition poll_source :: "('r \<Rightarrow> (sensor_event \<times> string) option) \<Rightarrow> 'r list \<times> bool \<Rightarrow> poller \<Rightarrow> sensor_event list \<times> poller" where
  "poll_source parse answer p =
     (case poll_rows parse p (fst answer) (po_cursor p) {} of (evs, maxTS, fresh) \<Rightarrow>
        (evs, if \<not> snd answer then p
              else if maxTS > po_cursor p then \<lparr> po_cursor = maxTS, po_seen = fresh \<rparr>
              else p \<lparr> po_seen := po_seen p \<union> fresh \<rparr>))"

subsection \<open>The poller as a specification\<close>

text \<open>The rows that parse, and their identity: the timestamp and the key.\<close>

definition parsed :: "('r \<Rightarrow> (sensor_event \<times> string) option) \<Rightarrow> 'r list \<Rightarrow> (sensor_event \<times> string) list" where
  "parsed parse rows = List.map_filter parse rows"

definition row_id :: "sensor_event \<times> string \<Rightarrow> instant \<times> string" where
  "row_id r = (se_Timestamp (fst r), snd r)"

definition unseen :: "poller \<Rightarrow> sensor_event \<times> string \<Rightarrow> bool" where
  "unseen p r \<longleftrightarrow> \<not> (se_Timestamp (fst r) = po_cursor p \<and> snd r \<in> po_seen p)"

lemma parsed_simps [simp]: "parsed parse [] = []"
  "parsed parse (row # rows) = (case parse row of None \<Rightarrow> parsed parse rows | Some r \<Rightarrow> r # parsed parse rows)"
  by (simp_all add: parsed_def map_filter_simps split: option.split)

definition latest :: "instant \<Rightarrow> (sensor_event \<times> string) list \<Rightarrow> instant" where
  "latest m rs = foldl max m (List.map (\<lambda>r. se_Timestamp (fst r)) rs)"

lemma latest_simps [simp]: "latest m [] = m" "latest m (r # rs) = latest (max m (se_Timestamp (fst r))) rs"
  by (simp_all add: latest_def)

lemma latest_ge: "m \<le> latest m rs" "r \<in> set rs \<Longrightarrow> se_Timestamp (fst r) \<le> latest m rs"
proof (induction rs arbitrary: m)
  case (Cons a rs)
  { case 1 show ?case using Cons(1) [of "max m (se_Timestamp (fst a))"] by simp }
  { case 2 then show ?case using Cons(1) [of "max m (se_Timestamp (fst a))"] Cons(2) by auto }
qed simp_all

lemma poll_rows_spec:
  "poll_rows parse p rows m f =
     (let keep = filter (unseen p) (parsed parse rows); M = latest m keep
      in (List.map fst keep, M, (if M = m then f else {}) \<union> {snd r |r. r \<in> set keep \<and> se_Timestamp (fst r) = M}))"
proof (induction rows arbitrary: m f)
  case (Cons row rows)
  show ?case
  proof (cases "parse row")
    case None
    then show ?thesis using Cons by simp
  next
    case (Some r)
    show ?thesis
    proof (cases "unseen p r")
      case False
      then show ?thesis using Cons Some by (simp add: unseen_def case_prod_beta)
    next
      case True
      obtain ev k where r: "r = (ev, k)" by fastforce
      define t where "t = se_Timestamp ev"
      define m' where "m' = max m t"
      define f' where "f' = (if t = m' then insert k (if t > m then {} else f) else f)"
      let ?keep = "filter (unseen p) (parsed parse rows)"
      have "\<not> (t = po_cursor p \<and> k \<in> po_seen p)" using True by (simp add: unseen_def r t_def)
      then have nd: "(t = po_cursor p \<and> k \<in> po_seen p) = False" by simp
      have step: "poll_rows parse p (row # rows) m f = (ev # fst (poll_rows parse p rows m' f'), snd (poll_rows parse p rows m' f'))"
        by (cases "t > m") (simp_all add: Some r t_def [symmetric] nd m'_def f'_def case_prod_beta Let_def del: de_Morgan_conj)
      have ge: "m' \<le> latest m' ?keep" by (rule latest_ge)
      have sets: "(if latest m' ?keep = m' then f' else {}) \<union> {snd x |x. x \<in> set ?keep \<and> se_Timestamp (fst x) = latest m' ?keep}
          = (if latest m' ?keep = m then f else {}) \<union> {snd x |x. x \<in> set (r # ?keep) \<and> se_Timestamp (fst x) = latest m' ?keep}"
      proof (cases "t = m'")
        case True
        then show ?thesis using ge by (auto simp: f'_def m'_def t_def r)
      next
        case False
        then have "m' = m" "t < m" by (auto simp: m'_def)
        then show ?thesis using ge by (auto simp: f'_def t_def r)
      qed
      have keep: "filter (unseen p) (parsed parse (row # rows)) = r # ?keep" using True by (simp add: Some)
      have lat: "latest m (r # ?keep) = latest m' ?keep" by (simp add: r m'_def t_def)
      show ?thesis unfolding step Cons.IH Let_def keep lat using sets by (simp add: r)
    qed
  qed
qed simp

text \<open>
  What a run of polls knows: the rows of all earlier answers are not newer than the cursor, and those of
  the cursor's second are the seen ones.
\<close>

definition poller_inv :: "(instant \<times> string) set \<Rightarrow> poller \<Rightarrow> bool" where
  "poller_inv H p \<longleftrightarrow> (\<forall>(t, k) \<in> H. t \<le> po_cursor p) \<and> (\<forall>k. k \<in> po_seen p \<longleftrightarrow> (po_cursor p, k) \<in> H)"

lemma unseen_new: "poller_inv H p \<Longrightarrow> po_cursor p \<le> se_Timestamp (fst r) \<Longrightarrow> unseen p r \<longleftrightarrow> row_id r \<notin> H"
  by (auto simp: unseen_def poller_inv_def row_id_def)

lemma poller_inv_poll:
  assumes inv: "poller_inv H p" and new: "\<forall>r \<in> set (parsed parse rows). po_cursor p \<le> se_Timestamp (fst r)"
  shows "fst (poll_source parse (rows, ok) p) = List.map fst (filter (\<lambda>r. row_id r \<notin> H) (parsed parse rows))"
    "ok \<Longrightarrow> poller_inv (H \<union> row_id ` set (parsed parse rows)) (snd (poll_source parse (rows, ok) p))"
proof -
  let ?ps = "parsed parse rows" and ?keep = "filter (unseen p) (parsed parse rows)"
  let ?M = "latest (po_cursor p) ?keep"
  have keep: "?keep = filter (\<lambda>r. row_id r \<notin> H) ?ps" using unseen_new [OF inv] new by (intro filter_cong) auto
  show "fst (poll_source parse (rows, ok) p) = List.map fst (filter (\<lambda>r. row_id r \<notin> H) ?ps)"
    by (simp add: poll_source_def poll_rows_spec Let_def keep)
  assume ok
  have M: "po_cursor p \<le> ?M" "\<And>r. r \<in> set ?ps \<Longrightarrow> se_Timestamp (fst r) \<le> ?M"
  proof -
    show "po_cursor p \<le> ?M" by (rule latest_ge)
    fix r assume r: "r \<in> set ?ps"
    show "se_Timestamp (fst r) \<le> ?M"
      using latest_ge(2) [of r ?keep "po_cursor p"] r \<open>po_cursor p \<le> ?M\<close> by (cases "unseen p r") (auto simp: unseen_def)
  qed
  show "poller_inv (H \<union> row_id ` set ?ps) (snd (poll_source parse (rows, ok) p))"
  proof (cases "?M > po_cursor p")
    case True
    then have "snd (poll_source parse (rows, ok) p) = \<lparr> po_cursor = ?M, po_seen = {snd r |r. r \<in> set ?keep \<and> se_Timestamp (fst r) = ?M} \<rparr>"
      using \<open>ok\<close> by (simp add: poll_source_def poll_rows_spec Let_def)
    moreover have "k \<in> {snd r |r. r \<in> set ?keep \<and> se_Timestamp (fst r) = ?M} \<longleftrightarrow> (?M, k) \<in> H \<union> row_id ` set ?ps" for k
    proof
      assume "(?M, k) \<in> H \<union> row_id ` set ?ps"
      moreover have "(?M, k) \<notin> H" using inv True by (auto simp: poller_inv_def)
      ultimately obtain r where r: "r \<in> set ?ps" "se_Timestamp (fst r) = ?M" "k = snd r" by (auto simp: row_id_def)
      then have "unseen p r" using True by (simp add: unseen_def)
      with r have "r \<in> set ?keep" by simp
      with r(2,3) show "k \<in> {snd r |r. r \<in> set ?keep \<and> se_Timestamp (fst r) = ?M}" by blast
    qed (force simp: row_id_def)
    moreover have "t \<le> ?M" if "(t, k) \<in> H \<union> row_id ` set ?ps" for t k
      using that inv M by (force simp: poller_inv_def row_id_def)
    ultimately show ?thesis by (simp add: poller_inv_def) blast
  next
    case False
    with M(1) have eq: "?M = po_cursor p" by simp
    then have "snd (poll_source parse (rows, ok) p) = p \<lparr> po_seen := po_seen p \<union> {snd r |r. r \<in> set ?keep \<and> se_Timestamp (fst r) = po_cursor p} \<rparr>"
      using \<open>ok\<close> by (simp add: poll_source_def poll_rows_spec Let_def)
    moreover have "\<And>r. r \<in> set ?ps \<Longrightarrow> se_Timestamp (fst r) = po_cursor p" using M(2) new eq by force
    then have "k \<in> po_seen p \<union> {snd r |r. r \<in> set ?keep \<and> se_Timestamp (fst r) = po_cursor p} \<longleftrightarrow> (po_cursor p, k) \<in> H \<union> row_id ` set ?ps" for k
    proof -
      assume at: "\<And>r. r \<in> set ?ps \<Longrightarrow> se_Timestamp (fst r) = po_cursor p"
      have "(po_cursor p, k) \<in> row_id ` set ?ps \<longleftrightarrow> k \<in> snd ` set ?ps" using at by (force simp: row_id_def)
      moreover have "k \<in> po_seen p \<union> {snd r |r. r \<in> set ?keep \<and> se_Timestamp (fst r) = po_cursor p} \<longleftrightarrow> k \<in> po_seen p \<union> snd ` set ?ps"
        using at by (fastforce simp: unseen_def)
      ultimately show ?thesis using inv by (auto simp: poller_inv_def)
    qed
    moreover have "t \<le> po_cursor p" if "(t, k) \<in> H \<union> row_id ` set ?ps" for t k
      using that inv \<open>\<And>r. r \<in> set ?ps \<Longrightarrow> se_Timestamp (fst r) = po_cursor p\<close> by (force simp: poller_inv_def row_id_def)
    ultimately show ?thesis by (simp add: poller_inv_def) blast
  qed
qed

text \<open>A run: every answer comes without an error and, as its query asks, holds no row before the cursor.\<close>

fun poller_run :: "('r \<Rightarrow> (sensor_event \<times> string) option) \<Rightarrow> 'r list list \<Rightarrow> poller \<Rightarrow> poller" where
  "poller_run parse [] p = p"
| "poller_run parse (rows # as) p = poller_run parse as (snd (poll_source parse (rows, True) p))"

fun answers_ok :: "('r \<Rightarrow> (sensor_event \<times> string) option) \<Rightarrow> 'r list list \<Rightarrow> poller \<Rightarrow> bool" where
  "answers_ok parse [] p = True"
| "answers_ok parse (rows # as) p =
     (list_all (\<lambda>r. po_cursor p \<le> se_Timestamp (fst r)) (parsed parse rows) \<and> answers_ok parse as (snd (poll_source parse (rows, True) p)))"

lemma poller_inv_run:
  "poller_inv H p \<Longrightarrow> answers_ok parse as p \<Longrightarrow> poller_inv (H \<union> row_id ` set (parsed parse (concat as))) (poller_run parse as p)"
proof (induction as arbitrary: H p)
  case (Cons rows as)
  have "parsed parse (rows @ concat as) = parsed parse rows @ parsed parse (concat as)"
    by (induction rows) (auto split: option.split)
  then show ?case using Cons.IH [OF poller_inv_poll(2) [OF Cons.prems(1), of parse rows True]] Cons.prems
    by (simp add: list_all_iff image_Un Un_assoc)
qed simp


definition sample_zeek :: "string \<Rightarrow> zeek_intel_row option" where
  "sample_zeek s = Some \<lparr> zr_TS = ''100'', zr_UID = s, zr_SrcIP = ''192.168.1.7'', zr_SrcPort = ''50000'', zr_DstIP = ''203.0.113.9'',
     zr_DstPort = ''443'', zr_Indicator = ''evil.com'', zr_IndicatorType = ''Intel::DOMAIN'', zr_SeenWhere = ''DNS::IN_REQUEST'', zr_Sources = [] \<rparr>"


lemma poll_source_stalls:
  assumes "\<And>row. row \<in> set rows \<Longrightarrow> \<exists>ev k. parse row = Some (ev, k) \<and> se_Timestamp ev = po_cursor p \<and> k \<in> po_seen p"
  shows "poll_source parse (rows, True) p = ([], p)"
proof -
  have "poll_rows parse p rows m {} = ([], m, {})" for m
    using assms
  proof (induction rows)
    case (Cons row rows)
    from Cons.prems [of row] obtain ev k where "parse row = Some (ev, k)" "se_Timestamp ev = po_cursor p" "k \<in> po_seen p" by auto
    with Cons show ?case by simp
  qed simp
  then show ?thesis by (simp add: poll_source_def)
qed

text \<open>
  Further fact. A full second stops a stream for good. The query returns the first thousand rows at or after
  the cursor; once a thousand rows of the cursor's second have been seen, every later poll gets the same
  thousand, emits nothing and leaves the cursor where it is, whatever has been written since.
\<close>

theorem poller_stalls_on_full_second:
  assumes "length second = pollBatchLimit"
    and "list_all (\<lambda>row. case parse row of None \<Rightarrow> False | Some (ev, k) \<Rightarrow> se_Timestamp ev = po_cursor p \<and> k \<in> po_seen p) second"
  shows "poller_run parse (List.map (\<lambda>later. take pollBatchLimit (second @ later)) laters) p = p
    \<and> fst (poll_source parse (take pollBatchLimit (second @ later), True) p) = []"
proof -
  have tk: "take pollBatchLimit (second @ l) = second" for l using assms(1) by simp
  have "poll_source parse (second, True) p = ([], p)"
    by (rule poll_source_stalls) (use assms(2) in \<open>fastforce simp: list_all_iff split: option.splits\<close>)
  then show ?thesis unfolding tk by (induction laters) simp_all
qed

theorem poller_stalls_on_full_second_witness:
  "fst (poll_source (zeek_intel_Parse sample_zeek) (take pollBatchLimit (replicate 1000 ''a'' @ [''new'']), True)
     \<lparr> po_cursor = unix_time 100, po_seen = {''a/evil.com/100''} \<rparr>) = []"
proof -
  let ?p = "\<lparr> po_cursor = unix_time 100, po_seen = {''a/evil.com/100''} \<rparr>"
  have "case zeek_intel_Parse sample_zeek ''a'' of None \<Rightarrow> False | Some (ev, k) \<Rightarrow> se_Timestamp ev = po_cursor ?p \<and> k \<in> po_seen ?p"
    by code_simp
  then have "list_all (\<lambda>row. case zeek_intel_Parse sample_zeek row of None \<Rightarrow> False | Some (ev, k) \<Rightarrow> se_Timestamp ev = po_cursor ?p \<and> k \<in> po_seen ?p) (replicate 1000 ''a'')"
    by (simp add: list_all_iff)
  from poller_stalls_on_full_second [OF _ this] show ?thesis by simp
qed

end
