(* ===== verification/TlsHeur.thy ===== *)
theory TlsHeur
  imports Ingest
begin

text \<open>
  The DNS cache (\<open>detection-engine/internal/correlator/dnscache.go\<close>) and the TLS client heuristics that read
  it (\<open>internal/tlsheur/analyzer.go\<close>). The instant of each call is a parameter; an alert is a result. The
  order in which Go ranges over the suppressed findings does not matter, since each is judged alone.
\<close>

subsection \<open>The DNS cache\<close>

record dns_entry =
  dn_domain :: string
  dn_expires :: instant

type_synonym dns_cache = "(string, dns_entry) gomap"

definition NewDNSCache :: dns_cache where
  "NewDNSCache = []"

definition cache_Set :: "instant \<Rightarrow> string \<Rightarrow> string \<Rightarrow> int \<Rightarrow> dns_cache \<Rightarrow> dns_cache" where
  "cache_Set now ip domain ttlSeconds c =
     (let ttl = (if ttlSeconds \<le> 0 then 300 else ttlSeconds)
      in mput ip \<lparr> dn_domain = domain, dn_expires = now + seconds ttl \<rparr> c)"

definition cache_Get :: "instant \<Rightarrow> string \<Rightarrow> dns_cache \<Rightarrow> string" where
  "cache_Get now ip c = (case mget c ip of None \<Rightarrow> [] | Some e \<Rightarrow> if now > dn_expires e then [] else dn_domain e)"

definition cache_Len :: "dns_cache \<Rightarrow> nat" where
  "cache_Len c = length c"

lemma cache_Get_Set:
  assumes "0 < ttl" "ttl \<le> 9223372036"
  shows "cache_Get t ip' (cache_Set now ip domain ttl c) =
     (if ip = ip' then (if t > now + ttl * 1000000000 then [] else domain) else cache_Get t ip' c)"
  using assms by (simp add: cache_Get_def cache_Set_def mget_put seconds_exact)

subsection \<open>The analyzer\<close>

definition suppressWindow :: duration where "suppressWindow = 3600 * 1000000000"
definition maxSuppressed :: nat where "maxSuppressed = 16384"

record analyzer =
  tl_localNets :: "ipnet list"
  tl_suppressed :: "(string, instant) gomap"

definition DefaultLocalCIDRs :: "string list" where
  "DefaultLocalCIDRs = [''10.0.0.0/8'', ''172.16.0.0/12'', ''192.168.0.0/16'', ''127.0.0.0/8'']"

definition NewAnalyzer :: "string list \<Rightarrow> analyzer" where
  "NewAnalyzer localCIDRs =
     \<lparr> tl_localNets = List.map_filter (\<lambda>c. map_option (\<lambda>(n, _). n) (parse_cidr (trim_space c))) localCIDRs, tl_suppressed = [] \<rparr>"

text \<open>The tests of \<open>net.IP\<close>.\<close>

fun IsLoopback :: "addr \<Rightarrow> bool" where
  "IsLoopback (IP4 w) = (drop_bit 24 w = 127)"
| "IsLoopback (IP6 w z) = (w = 1)"

fun IsLinkLocalUnicast :: "addr \<Rightarrow> bool" where
  "IsLinkLocalUnicast (IP4 w) = (drop_bit 16 w = 0xA9FE)"
| "IsLinkLocalUnicast (IP6 w z) = (drop_bit 118 w = 0x3FA)"

fun IsMulticast :: "addr \<Rightarrow> bool" where
  "IsMulticast (IP4 w) = (drop_bit 28 w = 0xE)"
| "IsMulticast (IP6 w z) = (drop_bit 120 w = 0xFF)"

definition isLocal :: "analyzer \<Rightarrow> string \<Rightarrow> bool" where
  "isLocal a ip =
     (case parse_ip ip of
        None \<Rightarrow> True
      | Some p \<Rightarrow> IsLoopback p \<or> IsLinkLocalUnicast p \<or> IsMulticast p \<or> list_ex (\<lambda>n. ipnet_contains n p) (tl_localNets a))"

definition lastLabels :: "string \<Rightarrow> nat \<Rightarrow> string" where
  "lastLabels domain n =
     (let d = to_lower (trim_suffix domain ''.''); parts = split_on (CHR ''.'') d
      in if length parts \<le> n then d else join ''.'' (drop (length parts - n) parts))"

definition sameRegistrableDomain :: "string \<Rightarrow> string \<Rightarrow> bool" where
  "sameRegistrableDomain a b \<longleftrightarrow> lastLabels a 2 = lastLabels b 2"

fun firstNonEmpty :: "string list \<Rightarrow> string" where
  "firstNonEmpty [] = []"
| "firstNonEmpty (v # vs) = (if v \<noteq> [] then v else firstNonEmpty vs)"

definition suppress :: "instant \<Rightarrow> string \<Rightarrow> analyzer \<Rightarrow> bool \<times> analyzer" where
  "suppress now key a =
     (if (case mget (tl_suppressed a) key of Some until \<Rightarrow> now < until | None \<Rightarrow> False) then (True, a)
      else
        let m = (if length (tl_suppressed a) \<ge> maxSuppressed then filter (\<lambda>(k, until). \<not> now > until) (tl_suppressed a) else tl_suppressed a)
        in (False, a \<lparr> tl_suppressed := mput key (now + suppressWindow) m \<rparr>))"

definition finding_alert :: "sensor_event \<Rightarrow> string \<Rightarrow> string \<Rightarrow> string \<Rightarrow> int \<Rightarrow> ioc \<Rightarrow> alert" where
  "finding_alert ev reason value severity confidence i =
     (let a = \<lparr> al_ID = [], al_Timestamp = se_Timestamp ev, al_Domain = firstNonEmpty [se_SNI ev, se_DstIP ev],
            al_ClientIP = se_SrcIP ev, al_ClientMAC = [], al_ClientName = [], al_QueryType = [], al_MatchedIoC = value,
            al_IoCType = firstNonEmpty [ioc_Type i, ''tlsfp''], al_Severity = severity,
            al_Source = firstNonEmpty [ioc_Source i, ''tls-heuristics''], al_Confidence = confidence,
            al_MitreID = ioc_MitreID i, al_MitreName = ioc_MitreName i, al_Threat = firstNonEmpty [ioc_Threat i, reason],
            al_Tags = [], al_SignalClass = SignalTLS, al_Signals = [], al_SignalCount = 0 \<rparr>;
          a = (if al_MitreID a = [] then a \<lparr> al_MitreID := ''T1071.001'', al_MitreName := ''Application Layer Protocol: Web Protocols'' \<rparr> else a)
      in if al_Severity a = [] then a \<lparr> al_Severity := ''medium'' \<rparr> else a)"

definition tls_alert :: "instant \<Rightarrow> sensor_event \<Rightarrow> string \<Rightarrow> string \<Rightarrow> string \<Rightarrow> int \<Rightarrow> ioc \<Rightarrow> analyzer \<Rightarrow> alert option \<times> analyzer" where
  "tls_alert now ev reason value severity confidence i a =
     (case suppress now (se_SrcIP ev @ ''|'' @ se_DstIP ev @ ''|'' @ reason @ ''|'' @ value) a of
        (True, a') \<Rightarrow> (None, a')
      | (False, a') \<Rightarrow> (Some (finding_alert ev reason value severity confidence i), a'))"

definition no_ioc :: ioc where
  "no_ioc = \<lparr> ioc_Value = [], ioc_Type = [], ioc_Source = [], ioc_Threat = [], ioc_Confidence = 0, ioc_Tags = [],
     ioc_Severity = [], ioc_MitreID = [], ioc_MitreName = [] \<rparr>"

definition Handle :: "matcher \<Rightarrow> (string \<Rightarrow> string) option \<Rightarrow> instant \<Rightarrow> sensor_event \<Rightarrow> analyzer \<Rightarrow> alert option \<times> analyzer" where
  "Handle m resolver now ev a =
     (if se_Kind ev \<noteq> ''tls-client'' \<or> isLocal a (se_DstIP ev) then (None, a)
      else case (if se_Indicator ev \<noteq> [] then MatchHash m (se_Indicator ev) else None) of
          Some i \<Rightarrow> tls_alert now ev ''tlsfp-ioc'' (se_Indicator ev) (ioc_Severity i) (ioc_Confidence i) i a
        | None \<Rightarrow>
            (case (if se_JA3 ev \<noteq> [] then MatchHash m (se_JA3 ev) else None) of
               Some i \<Rightarrow> tls_alert now ev ''ja3-ioc'' (se_JA3 ev) (ioc_Severity i) (ioc_Confidence i) i a
             | None \<Rightarrow>
                 let resolved = (case resolver of None \<Rightarrow> [] | Some get \<Rightarrow> get (se_DstIP ev)) in
                 if se_SNI ev \<noteq> [] \<and> resolved \<noteq> [] \<and> \<not> sameRegistrableDomain (se_SNI ev) resolved
                 then tls_alert now ev ''sni-dns-mismatch'' (se_SNI ev @ '' vs '' @ resolved) ''low'' 30 no_ioc a
                 else if se_SNI ev = [] \<and> resolved = [] then tls_alert now ev ''dns-less-tls'' (se_DstIP ev) ''low'' 20 no_ioc a
                 else (None, a)))"

subsection \<open>What is reported, and how often\<close>

lemma mget_filter_true: "mget (filter (\<lambda>(k, v). P k v) m) k = Some v \<Longrightarrow> mwf m \<Longrightarrow> mget m k = Some v"
proof -
  assume f: "mget (filter (\<lambda>(k, v). P k v) m) k = Some v" and wf: "mwf m"
  then have "(k, v) \<in> set m" by (auto dest: map_of_SomeD)
  with wf show ?thesis by (simp add: mget_Some_in)
qed

lemma finding_alert_fields [simp]:
  "al_SignalClass (finding_alert ev r v s c i) = SignalTLS" "al_Confidence (finding_alert ev r v s c i) = c"
  "al_ClientMAC (finding_alert ev r v s c i) = []" "al_ClientIP (finding_alert ev r v s c i) = se_SrcIP ev"
  "al_Signals (finding_alert ev r v s c i) = []" "al_SignalCount (finding_alert ev r v s c i) = 0"
  "al_MatchedIoC (finding_alert ev r v s c i) = v"
  by (simp_all add: finding_alert_def Let_def)

lemma tls_alert_Some: "fst (tls_alert now ev r v s c i a) = Some al \<Longrightarrow> al = finding_alert ev r v s c i"
  by (auto simp: tls_alert_def split: prod.splits bool.splits)

text \<open>
  Further fact. A TLS finding is a signal of class tls for the source of the connection, never about a local
  destination; without a fingerprint indicator its confidence is 30 for a name that does not belong to the
  resolved domain and 20 for a connection without name and resolution.
\<close>

theorem Handle_reports:
  assumes "fst (Handle m resolver now ev a) = Some al"
  shows "se_Kind ev = ''tls-client'' \<and> \<not> isLocal a (se_DstIP ev) \<and> al_SignalClass al = SignalTLS \<and> al_ClientIP al = se_SrcIP ev
    \<and> al_ClientMAC al = [] \<and> al_Signals al = []
    \<and> (al_Confidence al = 20 \<and> se_SNI ev = [] \<or> al_Confidence al = 30 \<and> se_SNI ev \<noteq> []
       \<or> (\<exists>i. MatchHash m (al_MatchedIoC al) = Some i \<and> al_MatchedIoC al \<noteq> [] \<and> al_Confidence al = ioc_Confidence i))"
proof -
  from assms have c: "se_Kind ev = ''tls-client''" "\<not> isLocal a (se_DstIP ev)" by (auto simp: Handle_def split: if_splits)
  let ?h1 = "if se_Indicator ev \<noteq> [] then MatchHash m (se_Indicator ev) else None"
  let ?h2 = "if se_JA3 ev \<noteq> [] then MatchHash m (se_JA3 ev) else None"
  have "\<exists>r v s cf i. al = finding_alert ev r v s cf i \<and> (cf = 20 \<and> se_SNI ev = [] \<or> cf = 30 \<and> se_SNI ev \<noteq> []
      \<or> (MatchHash m v = Some i \<and> v \<noteq> [] \<and> cf = ioc_Confidence i))"
  proof (cases ?h1)
    case (Some i)
    then have "MatchHash m (se_Indicator ev) = Some i" "se_Indicator ev \<noteq> []" by (auto split: if_splits)
    moreover have "al = finding_alert ev ''tlsfp-ioc'' (se_Indicator ev) (ioc_Severity i) (ioc_Confidence i) i"
      using assms c Some by (intro tls_alert_Some) (simp add: Handle_def)
    ultimately show ?thesis by blast
  next
    case n1: None
    show ?thesis
    proof (cases ?h2)
      case (Some i)
      then have "MatchHash m (se_JA3 ev) = Some i" "se_JA3 ev \<noteq> []" by (auto split: if_splits)
      moreover have "al = finding_alert ev ''ja3-ioc'' (se_JA3 ev) (ioc_Severity i) (ioc_Confidence i) i"
        using assms c n1 Some by (intro tls_alert_Some) (simp add: Handle_def)
      ultimately show ?thesis by blast
    next
      case None
      then show ?thesis using assms c n1 unfolding Handle_def Let_def
        by (auto dest!: tls_alert_Some split: if_splits) blast+
    qed
  qed
  then show ?thesis using c by auto
qed

lemma suppress_again:
  assumes "suppress now key a = (False, a')" "t < now + suppressWindow"
  shows "suppress t key a' = (True, a')"
  using assms by (auto simp: suppress_def mget_put Let_def split: if_splits)

text \<open>Other findings in between do not end the silence of a finding before its time.\<close>

definition silenced :: "instant \<Rightarrow> string \<Rightarrow> analyzer \<Rightarrow> bool" where
  "silenced until key a \<longleftrightarrow> mwf (tl_suppressed a) \<and> (\<exists>u. mget (tl_suppressed a) key = Some u \<and> until \<le> u)"

lemma silenced_keep:
  assumes "silenced until key a" "now < until"
  shows "silenced until key (snd (suppress now k a))"
proof -
  from assms obtain u where u: "mget (tl_suppressed a) key = Some u" "until \<le> u" "mwf (tl_suppressed a)" by (auto simp: silenced_def)
  have "(key, u) \<in> set (filter (\<lambda>(k, until). \<not> now > until) (tl_suppressed a))"
    using u assms(2) by (auto simp: mget_Some_in)
  then have f: "mget (filter (\<lambda>(k, until). \<not> now > until) (tl_suppressed a)) key = Some u"
    using mget_Some_in [OF mwf_filter [OF u(3)]] by fast
  show ?thesis
  proof (cases "k = key")
    case True
    then show ?thesis using u assms(2) by (auto simp: suppress_def silenced_def Let_def)
  next
    case False
    then show ?thesis using u f by (auto simp: suppress_def silenced_def Let_def mget_put mwf_filter)
  qed
qed

text \<open>
  Further fact. The same finding is reported at most once an hour, whatever other findings come in between.
\<close>

theorem finding_once_per_hour:
  assumes "suppress now key a = (False, a')" "mwf (tl_suppressed a)"
    and "list_all (\<lambda>(t, k). t < now + suppressWindow) calls" and "t < now + suppressWindow"
  shows "fst (suppress t key (fold (\<lambda>(t, k) a. snd (suppress t k a)) calls a'))"
proof -
  have "silenced (now + suppressWindow) key a'"
    using assms(1,2) by (auto simp: suppress_def silenced_def Let_def mget_put mwf_filter split: if_splits)
  then have "silenced (now + suppressWindow) key (fold (\<lambda>(t, k) a. snd (suppress t k a)) calls a')"
    using assms(3) by (induction calls arbitrary: a') (auto intro: silenced_keep)
  then show ?thesis using assms(4) by (auto simp: silenced_def suppress_def)
qed

end
