(* ===== verification/Pipeline.thy ===== *)
theory Pipeline
  imports CompositeTrack Feedback TlsHeur Policy
begin

text \<open>
  How \<open>detection-engine/cmd/detection-engine/main.go\<close> wires the engine, the DNS cache, the feedback store, the
  composite correlator, the sensor streams and the TLS analyzer, up to the event handed to the webhook
  sender. Every callback runs to its end before the next event is taken: the goroutines meet only at the
  mutexes of the components, and one alert passes the whole chain in one of them. \<open>ResolveClient\<close> is not set
  by \<open>main\<close>. The alerts that reached the correlator are kept in \<open>pl_trace\<close>, which the code does not store.
\<close>

record pipeline =
  pl_engine :: engine
  pl_matcher :: matcher
  pl_cache :: dns_cache
  pl_feedback :: fb_store
  pl_composite :: correlator
  pl_tls :: analyzer
  pl_sent :: "detection_event list"
  pl_trace :: "(instant \<times> alert) list"

text \<open>The start: the static list is the first feed.\<close>

record settings =
  st_static :: "string option"
  st_ttl :: duration
  st_sink :: bool
  st_window :: duration
  st_localNets :: "string list"

definition start_pipeline :: "instant \<Rightarrow> settings \<Rightarrow> pipeline" where
  "start_pipeline now st =
     \<lparr> pl_engine = NewEngine now,
       pl_matcher = (case LoadDomainsFromFile (st_static st) of None \<Rightarrow> NewMatcher | Some iocs \<Rightarrow> snd (Add iocs NewMatcher)),
       pl_cache = NewDNSCache, pl_feedback = NewStore (st_sink st) (st_ttl st) 0,
       pl_composite = NewCorrelator (st_window st), pl_tls = NewAnalyzer (st_localNets st), pl_sent = [], pl_trace = [] \<rparr>"

text \<open>\<open>forward\<close> with a webhook configured.\<close>

definition forward :: "alert \<Rightarrow> pipeline \<Rightarrow> pipeline" where
  "forward a p = p \<lparr> pl_sent := pl_sent p @ [AlertToEvent a] \<rparr>"

text \<open>The callback of the composite correlator.\<close>

definition emit_composite :: "instant \<Rightarrow> alert \<Rightarrow> pipeline \<Rightarrow> pipeline" where
  "emit_composite now c p =
     (case Suppressed now c (pl_feedback p) of
        (True, fb) \<Rightarrow> p \<lparr> pl_feedback := fb \<rparr>
      | (False, fb) \<Rightarrow> forward c (p \<lparr> pl_feedback := fb \<rparr>))"

text \<open>\<open>engine.OnAlert\<close>.\<close>

definition on_alert :: "instant \<Rightarrow> alert \<Rightarrow> pipeline \<Rightarrow> pipeline" where
  "on_alert now a p =
     (case Suppressed now a (pl_feedback p) of
        (True, fb) \<Rightarrow> p \<lparr> pl_feedback := fb \<rparr>
      | (False, fb) \<Rightarrow>
          (let p1 = p \<lparr> pl_feedback := fb, pl_trace := pl_trace p @ [(now, a)] \<rparr>;
               (c, co) = Observe now a (pl_composite p1);
               p2 = p1 \<lparr> pl_composite := co \<rparr>
           in case c of
                Some c \<Rightarrow> emit_composite now c p2
              | None \<Rightarrow> forward a p2))"

fun run_callback :: "instant \<Rightarrow> callback \<Rightarrow> pipeline \<Rightarrow> pipeline" where
  "run_callback now (DnsAnswer ip domain ttl) p = p \<lparr> pl_cache := cache_Set now ip domain ttl (pl_cache p) \<rparr>"
| "run_callback now (OnAlert a) p = on_alert now a p"

definition run_engine :: "instant \<Rightarrow> callback list \<times> engine \<Rightarrow> pipeline \<Rightarrow> pipeline" where
  "run_engine now r p = fold (run_callback now) (fst r) (p \<lparr> pl_engine := snd r \<rparr>)"

datatype pipe_op =
    PollP instant "query_log_entry list option"
  | SensorP instant sensor_event
  | TlsP instant sensor_event
  | FeedbackP instant "verdict option" string
  | ReplayP instant "verdict list"
  | FeedP "ioc list"

fun pipe_step :: "pipe_op \<Rightarrow> pipeline \<Rightarrow> pipeline" where
  "pipe_step (PollP now answer) p = run_engine now (poll (pl_matcher p) answer (pl_engine p)) p"
| "pipe_step (SensorP now ev) p = run_engine now (Ingest (ToAlert (Some (pl_matcher p)) ev) (pl_engine p)) p"
| "pipe_step (TlsP now ev) p =
     (case Handle (pl_matcher p) (Some (\<lambda>ip. cache_Get now ip (pl_cache p))) now ev (pl_tls p) of
        (None, tls) \<Rightarrow> p \<lparr> pl_tls := tls \<rparr>
      | (Some a, tls) \<Rightarrow> run_engine now (Ingest a (pl_engine p)) (p \<lparr> pl_tls := tls \<rparr>))"
| "pipe_step (FeedbackP now body actor) p = p \<lparr> pl_feedback := snd (snd (HandleFeedback now body actor (pl_feedback p))) \<rparr>"
| "pipe_step (ReplayP now rows) p = p \<lparr> pl_feedback := snd (LoadInto now rows (pl_feedback p)) \<rparr>"
| "pipe_step (FeedP iocs) p = p \<lparr> pl_matcher := snd (Add iocs (pl_matcher p)) \<rparr>"

subsection \<open>What every forwarded event is\<close>

text \<open>
  An event is sent for an alert that reached the correlator, or for the composite its observation formed.
\<close>

definition sent_for :: "duration \<Rightarrow> (instant \<times> alert) list \<Rightarrow> detection_event \<Rightarrow> bool" where
  "sent_for w trace ev \<longleftrightarrow> (\<exists>h t a. prefix (h @ [(t, a)]) trace \<and>
     (ev = AlertToEvent a \<and> fst (Observe t a (observe_all h (NewCorrelator w))) = None
      \<or> (\<exists>c. fst (Observe t a (observe_all h (NewCorrelator w))) = Some c \<and> ev = AlertToEvent c)))"

text \<open>What an alert is before it is correlated: without a MAC, since nothing resolves one, and without signals.\<close>

definition plain :: "alert \<Rightarrow> bool" where
  "plain a \<longleftrightarrow> al_ClientMAC a = [] \<and> al_Signals a = []"

definition pipe_ok :: "duration \<Rightarrow> pipeline \<Rightarrow> bool" where
  "pipe_ok w p \<longleftrightarrow> en_resolve (pl_engine p) = None \<and> engine_ok (pl_engine p)
     \<and> pl_composite p = observe_all (pl_trace p) (NewCorrelator w)
     \<and> (\<forall>(t, a) \<in> set (pl_trace p). plain a)
     \<and> (\<forall>ev \<in> set (pl_sent p). sent_for w (pl_trace p) ev)"

lemma sent_for_mono: "sent_for w tr ev \<Longrightarrow> prefix tr tr' \<Longrightarrow> sent_for w tr' ev"
  unfolding sent_for_def using prefix_order.trans by blast

lemma observe_all_snoc: "observe_all (h @ [(t, a)]) c = snd (Observe t a (observe_all h c))"
  by (simp add: observe_all_def)

lemma on_alert_ok:
  assumes "pipe_ok w p" "plain a"
  shows "pipe_ok w (on_alert now a p)"
proof -
  obtain b fb where s: "Suppressed now a (pl_feedback p) = (b, fb)" by fastforce
  obtain c co where o: "Observe now a (pl_composite p) = (c, co)" by fastforce
  let ?h = "pl_trace p" and ?h' = "pl_trace p @ [(now, a)]"
  have co: "co = observe_all ?h' (NewCorrelator w)" using o assms(1) by (simp add: pipe_ok_def observe_all_snoc)
  have fst_o: "fst (Observe now a (observe_all ?h (NewCorrelator w))) = c" using o assms(1) by (simp add: pipe_ok_def)
  have old: "sent_for w ?h' ev" if "ev \<in> set (pl_sent p)" for ev
    using that assms(1) sent_for_mono [of w ?h ev ?h'] by (simp add: pipe_ok_def)
  have new: "sent_for w ?h' (AlertToEvent x)" if "case c of None \<Rightarrow> x = a | Some y \<Rightarrow> x = y" for x
    unfolding sent_for_def using that fst_o by (intro exI [of _ ?h] exI [of _ now] exI [of _ a]) (auto split: option.splits)
  let ?q = "p \<lparr> pl_feedback := fb, pl_trace := ?h', pl_composite := co \<rparr>"
  have q: "pipe_ok w ?q" using assms co old by (auto simp: pipe_ok_def)
  have sends: "pipe_ok w (?q \<lparr> pl_feedback := fb', pl_sent := pl_sent p @ [AlertToEvent x] \<rparr>)"
    if "case c of None \<Rightarrow> x = a | Some y \<Rightarrow> x = y" for x fb'
    using q new [OF that] by (auto simp: pipe_ok_def)
  have quiet: "pipe_ok w (?q \<lparr> pl_feedback := fb' \<rparr>)" for fb' using q by (simp add: pipe_ok_def)
  show ?thesis
  proof (cases b)
    case True
    then have "on_alert now a p = p \<lparr> pl_feedback := fb \<rparr>" by (simp add: on_alert_def s)
    then show ?thesis using assms(1) by (simp add: pipe_ok_def)
  next
    case False
    show ?thesis
    proof (cases c)
      case None
      with False have "on_alert now a p = ?q \<lparr> pl_feedback := fb, pl_sent := pl_sent p @ [AlertToEvent a] \<rparr>"
        by (simp add: on_alert_def s o forward_def Let_def)
      then show ?thesis using sends [of a fb] None by simp
    next
      case (Some x)
      obtain b2 fb2 where s2: "Suppressed now x fb = (b2, fb2)" by fastforce
      with False Some have "on_alert now a p = (if b2 then ?q \<lparr> pl_feedback := fb2 \<rparr>
          else ?q \<lparr> pl_feedback := fb2, pl_sent := pl_sent p @ [AlertToEvent x] \<rparr>)"
        by (simp add: on_alert_def s o forward_def emit_composite_def Let_def)
      then show ?thesis using sends [of x fb2] quiet [of fb2] Some by simp
    qed
  qed
qed

lemma run_callback_ok:
  "pipe_ok w p \<Longrightarrow> (\<And>a. cb = OnAlert a \<Longrightarrow> plain a) \<Longrightarrow> pipe_ok w (run_callback now cb p)"
  by (cases cb) (simp_all add: on_alert_ok, simp add: pipe_ok_def)

lemma run_callbacks_ok:
  "pipe_ok w p \<Longrightarrow> (\<And>a. a \<in> set (alerts_of cbs) \<Longrightarrow> plain a) \<Longrightarrow> pipe_ok w (fold (run_callback now) cbs p)"
proof (induction cbs arbitrary: p)
  case (Cons cb cbs)
  have "pipe_ok w (run_callback now cb p)" by (rule run_callback_ok [OF Cons.prems(1)]) (use Cons.prems(2) in auto)
  moreover have "plain a" if "a \<in> set (alerts_of cbs)" for a using Cons.prems(2) that by (cases cb) auto
  ultimately show ?case using Cons.IH by simp
qed simp

text \<open>The engine, which has no resolver, raises plain alerts.\<close>

lemma no_resolver: "en_resolve e = None \<Longrightarrow> resolveClient e ip = ([], [])"
  by (simp add: resolveClient_def)

lemma no_resolver_next: "next_id e = (d, e') \<Longrightarrow> en_resolve e = None \<Longrightarrow> resolveClient e' ip = ([], [])"
  using next_id_fields(2) [of e] by (simp add: no_resolver)

lemma emitAlert_plain: "en_resolve e = None \<Longrightarrow> a \<in> set (alerts_of (fst (emitAlert entry d i e))) \<Longrightarrow> plain a"
  by (auto simp: plain_def emitAlert_def addAlert_def no_resolver_next Let_def split: prod.splits)

lemma poll_answers_plain:
  "en_resolve e = None \<Longrightarrow> a \<in> set (alerts_of (fst (poll_answers m entry d ans e))) \<Longrightarrow> plain a"
proof (induction ans arbitrary: e)
  case (Cons an ans)
  show ?case
  proof (cases "if address_answer an then MatchIP m (an_Value an) else None")
    case None
    with Cons show ?thesis by auto
  next
    case (Some i)
    obtain o1 e1 where 1: "emitAlert entry (arrow_label d (an_Value an)) i e = (o1, e1)" by fastforce
    obtain o2 e2 where 2: "poll_answers m entry d ans e1 = (o2, e2)" by fastforce
    have "en_resolve e1 = None" using emitAlert_emits [of e entry "arrow_label d (an_Value an)" i] Cons.prems(1) by (simp add: 1 emits_def)
    then show ?thesis using Cons.prems Some Cons.IH [of e1] emitAlert_plain [OF Cons.prems(1), of a entry "arrow_label d (an_Value an)" i]
      by (auto simp: 1 2)
  qed
qed simp

lemma poll_entry_plain:
  assumes "en_resolve e = None" "a \<in> set (alerts_of (fst (poll_entry m entry e)))"
  shows "plain a"
proof -
  let ?d = "entry_domain entry"
  obtain o1 e1 where 1: "(case MatchDomain m ?d of Some i \<Rightarrow> emitAlert entry ?d i e | None \<Rightarrow> ([], e)) = (o1, e1)" by fastforce
  obtain o2 e2 where 2: "poll_answers m entry ?d (ql_Answer entry) e1 = (o2, e2)" by fastforce
  have r: "en_resolve e1 = None" and o1: "a \<in> set (alerts_of o1) \<Longrightarrow> plain a"
    using 1 assms(1) emitAlert_emits [of e entry ?d "the (MatchDomain m ?d)"] emitAlert_plain [OF assms(1), of a entry ?d "the (MatchDomain m ?d)"]
    by (cases "MatchDomain m ?d"; simp add: emits_def)+
  then show ?thesis using assms(2) poll_answers_plain [OF r, of a m entry ?d "ql_Answer entry"]
    by (auto simp: poll_entry_def Let_def 1 2)
qed

lemma poll_loop_plain:
  "engine_ok e \<Longrightarrow> en_resolve e = None \<Longrightarrow> a \<in> set (alerts_of (fst (poll_loop m entries e))) \<Longrightarrow> plain a"
proof (induction entries arbitrary: e)
  case (Cons entry entries)
  obtain o1 e1 where 1: "poll_entry m entry e = (o1, e1)" by fastforce
  obtain o2 e2 where 2: "poll_loop m entries e1 = (o2, e2)" by fastforce
  have e1: "emits e (o1, e1)" using poll_entry_emits [OF Cons.prems(1), of m entry] by (simp add: 1)
  then have "en_resolve e1 = None" "engine_ok e1" using Cons.prems(2) emits_ok [OF e1] by (simp_all add: emits_def)
  then show ?case using Cons.IH [of e1] Cons.prems(2,3) poll_entry_plain [OF Cons.prems(2), of a m entry] by (auto simp: 1 2 split: if_splits)
qed simp

lemma poll_plain:
  assumes "engine_ok e" "en_resolve e = None" "a \<in> set (alerts_of (fst (poll m answer e)))"
  shows "plain a"
proof (cases answer)
  case (Some entries)
  then have "a \<in> set (alerts_of (fst (poll_loop m entries e)))" using assms(3) by (simp add: poll_def split: prod.splits)
  then show ?thesis by (rule poll_loop_plain [OF assms(1,2)])
qed (use assms in \<open>simp add: poll_def\<close>)

lemma Ingest_plain: "en_resolve e = None \<Longrightarrow> plain b \<Longrightarrow> a \<in> set (alerts_of (fst (Ingest b e))) \<Longrightarrow> plain a"
  by (auto simp: plain_def Ingest_def addAlert_def no_resolver no_resolver_next Let_def split: prod.splits if_splits)

lemma plain_update:
  "plain (a \<lparr> al_Severity := s \<rparr>) = plain a" "plain (a \<lparr> al_MitreID := s \<rparr>) = plain a" "plain (a \<lparr> al_MitreName := s \<rparr>) = plain a"
  "plain (a \<lparr> al_Threat := s \<rparr>) = plain a" "plain (a \<lparr> al_Source := s \<rparr>) = plain a" "plain (a \<lparr> al_Confidence := n \<rparr>) = plain a"
  "plain (a \<lparr> al_Domain := s \<rparr>) = plain a" "plain (a \<lparr> al_MatchedIoC := s \<rparr>) = plain a"
  by (simp_all add: plain_def)

lemma plain_choice: "plain (if c then x else y) = (if c then plain x else plain y)"
  "plain (case v of None \<Rightarrow> x | Some i \<Rightarrow> f i) = (if v = None then plain x else plain (f (the v)))"
  by (auto split: option.split)

lemma ToAlert_plain: "plain (ToAlert mo ev)"
  unfolding ToAlert_def Let_def
  by (simp only: plain_choice plain_update if_cancel) (simp add: plain_def)

lemma run_engine_ok:
  assumes "pipe_ok w p" "emits (pl_engine p) r \<or> en_resolve (snd r) = None \<and> engine_ok (snd r)"
    "\<And>a. a \<in> set (alerts_of (fst r)) \<Longrightarrow> plain a"
  shows "pipe_ok w (run_engine now r p)"
proof -
  have "en_resolve (snd r) = None \<and> engine_ok (snd r)" using assms(1,2) emits_ok [of "pl_engine p" r] by (auto simp: pipe_ok_def emits_def)
  then have "pipe_ok w (p \<lparr> pl_engine := snd r \<rparr>)" using assms(1) by (simp add: pipe_ok_def)
  then show ?thesis unfolding run_engine_def by (rule run_callbacks_ok [OF _ assms(3)])
qed

lemma pipe_ok_step: "pipe_ok w p \<Longrightarrow> pipe_ok w (pipe_step op p)"
proof (cases op)
  case (PollP now answer)
  assume ok: "pipe_ok w p"
  then have e: "engine_ok (pl_engine p)" "en_resolve (pl_engine p) = None" by (simp_all add: pipe_ok_def)
  have "en_resolve (snd (poll (pl_matcher p) answer (pl_engine p))) = None \<and> engine_ok (snd (poll (pl_matcher p) answer (pl_engine p)))"
    using poll_alerts [OF e(1), of "pl_matcher p" answer] e(2) by (simp add: engine_ok_def length_keep_last)
  then show ?thesis using run_engine_ok [OF ok] poll_plain [OF e] by (simp add: PollP)
next
  case (SensorP now ev)
  assume ok: "pipe_ok w p"
  then have e: "en_resolve (pl_engine p) = None" by (simp add: pipe_ok_def)
  show ?thesis unfolding SensorP pipe_step.simps
    by (rule run_engine_ok [OF ok]) (use Ingest_emits Ingest_plain [OF e ToAlert_plain] in blast)+
next
  case (TlsP now ev)
  assume ok: "pipe_ok w p"
  let ?H = "Handle (pl_matcher p) (Some (\<lambda>ip. cache_Get now ip (pl_cache p))) now ev (pl_tls p)"
  obtain ao tls where h: "?H = (ao, tls)" by fastforce
  let ?p = "p \<lparr> pl_tls := tls \<rparr>"
  have ok': "pipe_ok w ?p" and e: "en_resolve (pl_engine p) = None" using ok by (simp_all add: pipe_ok_def)
  show ?thesis
  proof (cases ao)
    case None
    then show ?thesis using ok' by (simp add: TlsP h)
  next
    case (Some b)
    then have "fst ?H = Some b" by (simp add: h)
    from Handle_reports [OF this] have b: "plain b" by (simp add: plain_def)
    have "pipe_ok w (run_engine now (Ingest b (pl_engine p)) ?p)"
      by (rule run_engine_ok [OF ok']) (use Ingest_emits [of "pl_engine p" b] Ingest_plain [OF e b] in auto)
    then show ?thesis by (simp add: TlsP h Some)
  qed
qed (simp_all add: pipe_ok_def)

interpretation pm: machine pipe_step "pipe_ok w" for w
  by unfold_locales (rule pipe_ok_step)

lemma start_pipeline_ok: "pipe_ok (st_window st) (start_pipeline now st)"
  by (simp add: pipe_ok_def start_pipeline_def engine_ok_def NewEngine_def observe_all_def)

definition run_pipeline :: "instant \<Rightarrow> settings \<Rightarrow> pipe_op list \<Rightarrow> pipeline" where
  "run_pipeline now st ops = fold pipe_step ops (start_pipeline now st)"

lemma run_pipeline_ok: "pipe_ok (st_window st) (run_pipeline now st ops)"
  unfolding run_pipeline_def by (rule pm.runs_ok [OF start_pipeline_ok])

end
