(* ===== verification/PipelineSafety.thy ===== *)
theory PipelineSafety
  imports Pipeline
begin

text \<open>
  What the killswitch may rely on in the events the detection engine forwards, end to end: from what the
  sensors and AdGuard report, through the engine, the feedback store and the correlator, to the decision of
  the policy (\<open>main.go\<close> of the detection engine, \<open>policy.go\<close> of the killswitch).
\<close>

subsection \<open>The client of a forwarded event\<close>

text \<open>A trace of plain alerts: every key is an address.\<close>

definition plain_trace :: "(instant \<times> alert) list \<Rightarrow> bool" where
  "plain_trace h \<longleftrightarrow> (\<forall>(t, a) \<in> set h. plain a)"

lemma composite_client:
  assumes c: "fst (Observe t a (observe_all h (NewCorrelator w))) = Some c" and no: "plain_trace (h @ [(t, a)])"
  shows "al_ClientMAC c = [] \<and> al_ClientIP c = al_ClientIP a \<and> al_ClientIP a \<noteq> []"
proof -
  from composite_signals [OF c] obtain sigs where s: "c = build a sigs (distinctClasses sigs) t"
    "signals_ok (correlationKey a) sigs" "2 \<le> length (distinctClasses sigs)" "correlationKey a \<noteq> []" by metis
  have ne: "sigs \<noteq> []" using s(3) by (auto simp: distinctClasses_def)
  have mac: "al_ClientMAC a = []" using no by (simp add: plain_trace_def plain_def)
  then have ip: "al_ClientIP a \<noteq> []" using s(4) by (auto simp: correlationKey_def split: if_splits)
  from build_identity [OF s(2) ne s(4), of t] mac ip show ?thesis by (simp add: s(1))
qed

lemma composite_class_seen:
  assumes c: "fst (Observe t a (observe_all h (NewCorrelator w))) = Some c" and no: "plain_trace (h @ [(t, a)])"
    and cl: "cl \<in> set (al_Signals c)"
  obtains u b where "(u, b) \<in> set (h @ [(t, a)])" "al_SignalClass b = cl" "al_ClientIP b = al_ClientIP c"
    "time_sub (al_Timestamp c) u \<le> co_window (NewCorrelator w)"
proof -
  from composite_signals [OF c] obtain sigs where s: "c = build a sigs (distinctClasses sigs) t" "correlationKey a \<noteq> []"
    and all: "\<And>s. s \<in> set sigs \<Longrightarrow> (sg_seen s, sg_alert s) \<in> set (h @ [(t, a)]) \<and> time_sub t (sg_seen s) \<le> co_window (NewCorrelator w)
       \<and> al_SignalClass (sg_alert s) = sg_class s \<and> correlationKey (sg_alert s) = correlationKey a" by metis
  from cl obtain x where x: "x \<in> set sigs" "sg_class x = cl" by (auto simp: s(1) set_distinctClasses)
  note f = all [OF x(1)]
  have mac: "al_ClientMAC (sg_alert x) = []" using f no by (force simp: plain_trace_def plain_def)
  have "al_ClientIP (sg_alert x) = al_ClientIP a" using same_key_mac(2) [of "sg_alert x" a] f s(2) mac by simp
  then have "al_ClientIP (sg_alert x) = al_ClientIP c" using composite_client [OF c no] by simp
  with f x(2) show thesis by (intro that [of "sg_seen x" "sg_alert x"]) (simp_all add: s(1))
qed

text \<open>Every event sent is explained by the trace, which holds plain alerts only.\<close>

lemma sent_explained:
  assumes "ev \<in> set (pl_sent (run_pipeline now st ops))"
  obtains h t a where "prefix (h @ [(t, a)]) (pl_trace (run_pipeline now st ops))" "plain_trace (h @ [(t, a)])"
    "ev = AlertToEvent a
     \<or> (\<exists>c. fst (Observe t a (observe_all h (NewCorrelator (st_window st)))) = Some c \<and> ev = AlertToEvent c)"
proof -
  have ok: "pipe_ok (st_window st) (run_pipeline now st ops)" by (rule run_pipeline_ok)
  then obtain h t a where p: "prefix (h @ [(t, a)]) (pl_trace (run_pipeline now st ops))"
    "ev = AlertToEvent a
     \<or> (\<exists>c. fst (Observe t a (observe_all h (NewCorrelator (st_window st)))) = Some c \<and> ev = AlertToEvent c)"
    using assms unfolding pipe_ok_def sent_for_def by blast
  have "plain_trace (h @ [(t, a)])" using ok set_mono_prefix [OF p(1)] unfolding pipe_ok_def plain_trace_def plain_def by blast
  with p show thesis using that by blast
qed

lemma forwarded_mac: "ev \<in> set (pl_sent (run_pipeline now st ops)) \<Longrightarrow> de_ClientMAC ev = []"
proof -
  assume "ev \<in> set (pl_sent (run_pipeline now st ops))"
  then obtain h t a where n: "plain_trace (h @ [(t, a)])" "ev = AlertToEvent a
     \<or> (\<exists>c. fst (Observe t a (observe_all h (NewCorrelator (st_window st)))) = Some c \<and> ev = AlertToEvent c)"
    by (rule sent_explained)
  then show ?thesis using composite_client [OF _ n(1)] by (auto simp: plain_trace_def plain_def)
qed

text \<open>
  Property C31. The MAC allowlist of the killswitch protects nobody from the detection engine. Since \<open>ResolveClient\<close> is
  never set, whatever happens no forwarded event carries a MAC, and the policy decides every one of them
  as if its MAC entries did not exist.
\<close>

theorem mac_allowlist_is_dead:
  assumes "ev \<in> set (pl_sent (run_pipeline now st ops))"
  shows "de_ClientMAC ev = []
    \<and> Evaluate p ev = Evaluate (p \<lparr> pol_Allowlist := (pol_Allowlist p) \<lparr> al_macs := [] \<rparr> \<rparr>) ev"
proof -
  have m: "de_ClientMAC ev = []" by (rule forwarded_mac [OF assms])
  have "Contains (pol_Allowlist p) [] ip = Contains ((pol_Allowlist p) \<lparr> al_macs := [] \<rparr>) [] ip" for ip
    by (auto simp: Contains_def allowed_mac_def allowed_ip_def Let_def split: option.splits)
  then show ?thesis by (simp add: m Evaluate_def autoBlockBlockedBy_def corroborated_def Let_def)
qed

subsection \<open>What an automatic block rests on\<close>

text \<open>
  Property C4. An automatic block always rests on a known-bad sighting. If a policy that requires a known-bad
  signal auto-blocks a forwarded event, an alert of class ioc or ids for that very address passed the feedback
  store; either it is the event, or the event is a composite formed within the correlation window of it.
\<close>

theorem auto_block_rests_on_sighting:
  assumes ev: "ev \<in> set (pl_sent (run_pipeline now st ops))" and known: "AutoRequireKnownBad p"
    and auto: "dc_Action (Evaluate p ev) = ''auto_block''"
  shows "\<exists>(t, b) \<in> set (pl_trace (run_pipeline now st ops)).
     (al_SignalClass b = SignalIoC \<or> al_SignalClass b = SignalIDS) \<and> al_ClientIP b = de_ClientIP ev
   \<and> (ev = AlertToEvent b \<or> de_SignalClass ev = SignalComposite
        \<and> time_sub (de_Timestamp ev) t \<le> co_window (NewCorrelator (st_window st)))"
proof -
  have "decision_level (Evaluate p ev) = 2" using auto by (simp add: decision_level_def)
  then have k: "HasKnownBadSignal ev" using known by (auto simp: decision_level_Evaluate split: if_splits)
  from ev obtain h t a where p: "prefix (h @ [(t, a)]) (pl_trace (run_pipeline now st ops))" and n: "plain_trace (h @ [(t, a)])"
    and c: "ev = AlertToEvent a
     \<or> (\<exists>c. fst (Observe t a (observe_all h (NewCorrelator (st_window st)))) = Some c \<and> ev = AlertToEvent c)"
    by (rule sent_explained)
  have sub: "set (h @ [(t, a)]) \<subseteq> set (pl_trace (run_pipeline now st ops))" by (rule set_mono_prefix [OF p])
  show ?thesis using c
  proof
    assume "ev = AlertToEvent a"
    moreover from this k n have "al_SignalClass a = SignalIoC \<or> al_SignalClass a = SignalIDS"
      by (auto simp: plain_trace_def plain_def HasKnownBadSignal_iff IsKnownBadSignal_def)
    ultimately show ?thesis using sub by (intro bexI [of _ "(t, a)"]) auto
  next
    assume "\<exists>c. fst (Observe t a (observe_all h (NewCorrelator (st_window st)))) = Some c \<and> ev = AlertToEvent c"
    then obtain c where c: "fst (Observe t a (observe_all h (NewCorrelator (st_window st)))) = Some c" "ev = AlertToEvent c" by blast
    from composite_signals [OF c(1)] obtain sigs where "c = build a sigs (distinctClasses sigs) t" by metis
    then have f: "al_SignalClass c = SignalComposite" by simp
    with k obtain cl where cl: "cl \<in> set (al_Signals c)" "cl = SignalIoC \<or> cl = SignalIDS"
      by (auto simp: c(2) HasKnownBadSignal_iff IsKnownBadSignal_def)
    from composite_class_seen [OF c(1) n cl(1)] obtain u b where "(u, b) \<in> set (h @ [(t, a)])" "al_SignalClass b = cl"
      "al_ClientIP b = al_ClientIP c" "time_sub (al_Timestamp c) u \<le> co_window (NewCorrelator (st_window st))" .
    then show ?thesis using sub cl(2) f by (intro bexI [of _ "(u, b)"]) (auto simp: c(2) AlertToEvent_def Let_def)
  qed
qed

definition sample_settings :: settings where
  "sample_settings = \<lparr> st_static = None, st_ttl = 0, st_sink = False, st_window = 0, st_localNets = [] \<rparr>"

definition sample_sensor :: "string \<Rightarrow> string \<Rightarrow> int \<Rightarrow> sensor_event" where
  "sample_sensor kind i conf = empty_event \<lparr> se_Sensor := ''zeek'', se_Kind := kind, se_SrcIP := ''192.168.1.7'', se_Indicator := i,
     se_IndicatorType := ''ip'', se_Severity := ''critical'', se_Confidence := conf \<rparr>"

text \<open>One Suricata alert.\<close>

definition ids_run :: pipeline where
  "ids_run = run_pipeline 0 sample_settings [SensorP 60 (sample_sensor ''ids-alert'' ''203.0.113.9'' 95)]"

definition sent_brief :: "pipeline \<Rightarrow> (string \<times> string \<times> string \<times> int) list" where
  "sent_brief p = List.map (\<lambda>ev. (de_ID ev, de_SignalClass ev, de_MatchedIoC ev, de_Confidence ev)) (pl_sent p)"

lemma ids_run_auto: "list_all (\<lambda>ev. dc_Action (Evaluate DefaultPolicy ev) = ''auto_block'') (pl_sent ids_run) \<and> pl_sent ids_run \<noteq> []"
  by code_simp

theorem mac_allowlist_is_dead_witness:
  "list_all (\<lambda>ev. de_ClientMAC ev = []) (pl_sent ids_run) \<and> pl_sent ids_run \<noteq> []"
  using mac_allowlist_is_dead [of _ 0 sample_settings "[SensorP 60 (sample_sensor ''ids-alert'' ''203.0.113.9'' 95)]"] ids_run_auto
  unfolding ids_run_def list_all_iff by blast

theorem auto_block_rests_on_sighting_witness:
  "\<exists>(t, b) \<in> set (pl_trace ids_run). al_SignalClass b = SignalIoC \<or> al_SignalClass b = SignalIDS"
proof -
  obtain ev where ev: "ev \<in> set (pl_sent ids_run)" "dc_Action (Evaluate DefaultPolicy ev) = ''auto_block''"
    using ids_run_auto by (cases "pl_sent ids_run") auto
  have "AutoRequireKnownBad DefaultPolicy" by (simp add: DefaultPolicy_def)
  from auto_block_rests_on_sighting [OF ev(1) [unfolded ids_run_def] this ev(2)] show ?thesis unfolding ids_run_def by blast
qed

subsection \<open>A detection that is lost\<close>

definition fp_verdict :: "string \<Rightarrow> verdict" where
  "fp_verdict i = \<lparr> vd_AlertID = ''DET-1'', vd_MatchedIoC = i, vd_ClientIP = [], vd_Verdict = VerdictFalsePositive, vd_Reason = [],
     vd_Analyst = ''alice'', vd_Timestamp = 120 \<rparr>"

definition beacon_op :: pipe_op where "beacon_op = SensorP 60 (sample_sensor ''ml-beacon'' ''198.51.100.4'' 95)"
definition verdict_op :: pipe_op where "verdict_op = FeedbackP 120 (Some (fp_verdict ''198.51.100.4'')) ''alice''"
definition ids_op :: pipe_op where "ids_op = SensorP 180 (sample_sensor ''ids-alert'' ''203.0.113.9'' 95)"

text \<open>
  Further fact. A verdict on one indicator can silence the detection of another. A beacon alert for one address is
  forwarded and an analyst marks it a false positive; when Suricata then reports the same device for a different
  indicator, the alert itself is not suppressed and would have been forwarded and automatically blocked, but the
  composite it forms takes the indicator of the beacon, that composite is suppressed, and nothing is forwarded.
\<close>

theorem suppressed_composite_swallows_alert:
  "sent_brief (run_pipeline 0 sample_settings [verdict_op, ids_op]) = [(''DET-1'', SignalIDS, ''203.0.113.9'', 95)]
   \<and> sent_brief (run_pipeline 0 sample_settings [beacon_op, verdict_op]) = [(''DET-1'', SignalBeacon, ''198.51.100.4'', 95)]
   \<and> sent_brief (run_pipeline 0 sample_settings [beacon_op, verdict_op, ids_op]) = [(''DET-1'', SignalBeacon, ''198.51.100.4'', 95)]
   \<and> List.map (\<lambda>(t, a). al_SignalClass a) (pl_trace (run_pipeline 0 sample_settings [beacon_op, verdict_op, ids_op])) = [SignalBeacon, SignalIDS]"
proof (intro conjI)
  show "sent_brief (run_pipeline 0 sample_settings [verdict_op, ids_op]) = [(''DET-1'', SignalIDS, ''203.0.113.9'', 95)]" by code_simp
  show "sent_brief (run_pipeline 0 sample_settings [beacon_op, verdict_op]) = [(''DET-1'', SignalBeacon, ''198.51.100.4'', 95)]" by code_simp
  show "sent_brief (run_pipeline 0 sample_settings [beacon_op, verdict_op, ids_op]) = [(''DET-1'', SignalBeacon, ''198.51.100.4'', 95)]" by code_simp
  show "List.map (\<lambda>(t, a). al_SignalClass a) (pl_trace (run_pipeline 0 sample_settings [beacon_op, verdict_op, ids_op])) = [SignalBeacon, SignalIDS]" by code_simp
qed

text \<open>A composite is forwarded without an identifier.\<close>

lemma composite_without_id:
  "sent_brief (run_pipeline 0 sample_settings [beacon_op, ids_op])
     = [(''DET-1'', SignalBeacon, ''198.51.100.4'', 95), ([], SignalComposite, ''198.51.100.4'', 100)]"
  by code_simp

end
