(* ===== verification/Webhook.thy ===== *)
theory Webhook
  imports Events
begin

text \<open>
  The webhook sender (\<open>detection-engine/internal/webhook/sender.go\<close>): the bounded queue and the delivery of one
  payload with its retries. The marshalled body is a parameter (\<open>None\<close> when \<open>json.Marshal\<close> fails), and so is what
  happens to the n-th request: it cannot be built, it fails in transport, or it is answered with a status.
  The result records the counter label, the requests made and the pauses between them. Cancellation of the
  context during a pause is not modelled.
\<close>

definition queue_size :: nat where [simp]: "queue_size = 64"

record sender =
  sn_secret :: string
  sn_token :: string
  sn_retries :: nat

record hook_request =
  wr_body :: "byte list"
  wr_contentType :: string
  wr_signature :: "string option"
  wr_authorization :: "string option"

datatype outcome = BuildError | TransportError | Status int

text \<open>\<open>Send\<close>: the payload is dropped when the queue is full.\<close>

definition Send :: "'p \<Rightarrow> 'p list \<Rightarrow> bool \<times> 'p list" where
  "Send payload ch = (if length ch < queue_size then (True, ch @ [payload]) else (False, ch))"

definition backoff :: "nat \<Rightarrow> duration" where
  "backoff attempt = (let b = wrap64 (2 ^ (attempt - 1) * 1000000000) in if b > 30 * 1000000000 then 30 * 1000000000 else b)"

definition hook_request_of :: "sender \<Rightarrow> byte list \<Rightarrow> hook_request" where
  "hook_request_of s body =
     \<lparr> wr_body = body, wr_contentType = ''application/json'',
       wr_signature = (if sn_secret s \<noteq> [] then Some (SignPayload (sn_secret s) body) else None),
       wr_authorization = (if sn_token s \<noteq> [] then Some (''Bearer '' @ sn_token s) else None) \<rparr>"

record delivery =
  dl_label :: string
  dl_requests :: "hook_request list"
  dl_pauses :: "duration list"

text \<open>
  The loop over the attempts, \<open>n\<close> of them left. A request that cannot be built was not sent.
\<close>

fun attempts :: "sender \<Rightarrow> byte list \<Rightarrow> (nat \<Rightarrow> outcome) \<Rightarrow> nat \<Rightarrow> nat \<Rightarrow> delivery" where
  "attempts s body world attempt 0 = \<lparr> dl_label = ''failure'', dl_requests = [], dl_pauses = [] \<rparr>"
| "attempts s body world attempt (Suc n) =
     (let r = hook_request_of s body;
          pause = (if attempt > 0 then [backoff attempt] else []);
          again = attempts s body world (Suc attempt) n;
          stop = (\<lambda>l. \<lparr> dl_label = l, dl_requests = [r], dl_pauses = pause \<rparr>)
      in case world attempt of
           BuildError \<Rightarrow> again \<lparr> dl_pauses := pause @ dl_pauses again \<rparr>
         | TransportError \<Rightarrow> again \<lparr> dl_requests := r # dl_requests again, dl_pauses := pause @ dl_pauses again \<rparr>
         | Status c \<Rightarrow>
             if 200 \<le> c \<and> c < 300 then stop ''success''
             else if c = 401 \<or> c = 403 then stop ''unauthorized''
             else if 400 \<le> c \<and> c < 500 then stop ''failure''
             else again \<lparr> dl_requests := r # dl_requests again, dl_pauses := pause @ dl_pauses again \<rparr>)"

definition deliver :: "sender \<Rightarrow> byte list option \<Rightarrow> (nat \<Rightarrow> outcome) \<Rightarrow> delivery" where
  "deliver s payload world =
     (case payload of None \<Rightarrow> \<lparr> dl_label = ''failure'', dl_requests = [], dl_pauses = [] \<rparr>
      | Some body \<Rightarrow> attempts s body world 0 (Suc (sn_retries s)))"

text \<open>The answer that ends a delivery, as a specification: the first one that is not worth a retry.\<close>

fun final :: "outcome \<Rightarrow> bool" where
  "final (Status c) \<longleftrightarrow> 200 \<le> c \<and> c < 300 \<or> 400 \<le> c \<and> c < 500"
| "final _ \<longleftrightarrow> False"

fun label_of :: "outcome \<Rightarrow> string" where
  "label_of (Status c) = (if 200 \<le> c \<and> c < 300 then ''success'' else if c = 401 \<or> c = 403 then ''unauthorized'' else ''failure'')"
| "label_of _ = ''failure''"

lemma attempts_spec:
  "dl_label (attempts s body world a n) = (case List.find (\<lambda>i. final (world i)) [a..<a + n] of Some i \<Rightarrow> label_of (world i) | None \<Rightarrow> ''failure'')
   \<and> set (dl_requests (attempts s body world a n)) \<subseteq> {hook_request_of s body}
   \<and> length (dl_requests (attempts s body world a n)) \<le> n
   \<and> set (dl_pauses (attempts s body world a n)) \<subseteq> {b. b \<le> 30 * 1000000000}"
proof (induction n arbitrary: a)
  case (Suc n)
  have up: "[a..<a + Suc n] = a # [Suc a..<Suc a + n]" by (simp add: upt_conv_Cons)
  have b: "backoff a \<le> 30000000000" for a by (simp add: backoff_def Let_def)
  show ?case
  proof (cases "final (world a)")
    case True
    then obtain c where "world a = Status c" "200 \<le> c \<and> c < 300 \<or> 400 \<le> c \<and> c < 500" by (cases "world a") auto
    then show ?thesis unfolding up using b [of a] by (auto simp: Let_def simp del: upt_Suc)
  next
    case False
    then have next_: "attempts s body world a (Suc n) =
        (let again = attempts s body world (Suc a) n; pause = (if a > 0 then [backoff a] else [])
         in if world a = BuildError then again \<lparr> dl_pauses := pause @ dl_pauses again \<rparr>
            else again \<lparr> dl_requests := hook_request_of s body # dl_requests again, dl_pauses := pause @ dl_pauses again \<rparr>)"
      by (cases "world a") (auto simp: Let_def)
    show ?thesis unfolding next_ up using False Suc.IH [of "Suc a"] b [of a] by (auto simp: Let_def simp del: upt_Suc)
  qed
qed simp

text \<open>
  Further fact. A delivery ends with the first answer that is final, success or a client error, and never
  sends more than one request and the configured number of retries; every request carries the same body
  with the signature of the shared secret and the bearer token, and no pause is longer than thirty seconds.
\<close>

theorem deliver_outcome:
  "dl_label (deliver s (Some body) world) = (case List.find (\<lambda>i. final (world i)) [0..<Suc (sn_retries s)] of Some i \<Rightarrow> label_of (world i) | None \<Rightarrow> ''failure'')
   \<and> length (dl_requests (deliver s (Some body) world)) \<le> Suc (sn_retries s)
   \<and> list_all (\<lambda>r. r = hook_request_of s body) (dl_requests (deliver s (Some body) world))
   \<and> list_all (\<lambda>b. b \<le> 30 * 1000000000) (dl_pauses (deliver s (Some body) world))"
  using attempts_spec [of s body world 0 "Suc (sn_retries s)"] unfolding deliver_def list_all_iff by (auto simp del: attempts.simps)

end
