(* ===== verification/EndToEnd.thy ===== *)
theory EndToEnd
  imports PipelineSafety Webhook Controller
begin

text \<open>
  The two services together: what the webhook sender of the detection engine (\<open>webhook/sender.go\<close>) posts, at the
  middleware, the router and the handler of the killswitch (\<open>killswitch-controller/main.go\<close>). The transport between
  them is HTTP: a request arrives with the headers and the body the sender gave it, an absent header reading as
  the empty string. \<open>WEBHOOK_URL\<close> names the \<open>/evaluate\<close> endpoint.
\<close>

definition http_of :: "hook_request \<Rightarrow> request" where
  "http_of r = \<lparr> rq_method = ''POST'', rq_path = ''/evaluate'',
     rq_authorization = (case wr_authorization r of None \<Rightarrow> [] | Some v \<Rightarrow> v),
     rq_signature = (case wr_signature r of None \<Rightarrow> [] | Some v \<Rightarrow> v), rq_body = wr_body r \<rparr>"

definition paired :: "sender \<Rightarrow> config \<Rightarrow> bool" where
  "paired s cf \<longleftrightarrow> sn_token s = cf_apiKey cf \<and> sn_secret s = cf_webhookSecret cf"

lemma mux_evaluate:
  "rq_method r = ''POST'' \<Longrightarrow> rq_path r = ''/evaluate'' \<Longrightarrow>
     mux now cf jd resolve r s = handleEvaluate now (cf_policy cf) resolve (cf_autoBlockAllowed cf) (jd_event jd (rq_body r)) s"
  by (simp add: mux_def Let_def)

lemma accepted:
  assumes "paired s cf" "length body \<le> maxBodyBytes"
  shows "serve now cf jd resolve (http_of (hook_request_of s body)) c
    = handleEvaluate now (cf_policy cf) resolve (cf_autoBlockAllowed cf) (jd_event jd body) c"
proof -
  let ?r = "http_of (hook_request_of s body)"
  have f: "rq_method ?r = ''POST''" "rq_path ?r = ''/evaluate''" "rq_body ?r = body"
    by (simp_all add: http_of_def hook_request_of_def)
  have bearer: "cf_apiKey cf \<noteq> [] \<Longrightarrow> validBearer (rq_authorization ?r) (cf_apiKey cf)"
    using assms(1) by (simp add: paired_def http_of_def hook_request_of_def validBearer_def has_prefix_def)
  have sig: "cf_webhookSecret cf \<noteq> [] \<Longrightarrow> VerifyPayload (cf_webhookSecret cf) (rq_signature ?r) body = None"
    using assms(1) by (simp add: paired_def http_of_def hook_request_of_def)
  show ?thesis using bearer sig assms(2) unfolding serve_def authMiddleware_def f mux_evaluate [OF f(1,2)] by auto
qed

text \<open>The requests of a delivery that reached the controller, one after the other.\<close>

definition arrive :: "instant \<Rightarrow> config \<Rightarrow> json_dec \<Rightarrow> 'w resolver \<Rightarrow> hook_request list \<Rightarrow> 'w ctl \<Rightarrow> 'w ctl" where
  "arrive now cf jd resolve rs c = fold (\<lambda>r c. snd (serve now cf jd resolve (http_of r) c)) rs c"

lemma arrive_replicate:
  assumes "paired s cf" "length body \<le> maxBodyBytes"
  shows "arrive now cf jd resolve (replicate n (hook_request_of s body)) c
    = ((\<lambda>c. snd (handleEvaluate now (cf_policy cf) resolve (cf_autoBlockAllowed cf) (jd_event jd body) c)) ^^ n) c"
proof -
  let ?f = "\<lambda>c. snd (handleEvaluate now (cf_policy cf) resolve (cf_autoBlockAllowed cf) (jd_event jd body) c)"
  show ?thesis unfolding arrive_def
    by (induction n arbitrary: c) (simp_all add: accepted [OF assms] funpow_swap1 [of ?f])
qed

lemma deliver_requests:
  "dl_requests (deliver s (Some body) world) = replicate (length (dl_requests (deliver s (Some body) world))) (hook_request_of s body)"
  by (rule replicate_eqI) (use attempts_spec [of s body world 0 "Suc (sn_retries s)"] in \<open>auto simp: deliver_def\<close>)


text \<open>A killswitch paired with its sender.\<close>

definition paired_sender :: sender where
  "paired_sender = \<lparr> sn_secret = [], sn_token = cf_apiKey sample_config, sn_retries = 3 \<rparr>"


text \<open>
  Further fact. A lost answer enforces twice. When the killswitch decides a delivery but its answer does not reach the sender,
  the sender repeats the request and the killswitch, which does not compare detection identifiers, creates a second
  action for the same event and calls the driver again.
\<close>

theorem lost_answer_enforces_twice:
  "dl_label (deliver paired_sender (Some []) (\<lambda>n. if n = 0 then TransportError else Status 200)) = ''success''
   \<and> (let c = arrive 0 sample_config sample_dec (resolve_in [(ActionDNSSinkhole, dumb_driver)])
          (dl_requests (deliver paired_sender (Some []) (\<lambda>n. if n = 0 then TransportError else Status 200))) (sample_ctl (0 :: nat))
      in ks_world c = 2 \<and> List.map ea_DetectionID (ListByState StateActive (ks_store c)) = [de_ID sample_event, de_ID sample_event])"
  by code_simp

end
