(* ===== verification/Flows.thy ===== *)
theory Flows
  imports TlsHeur "HOL-Library.List_Lexorder"
begin

text \<open>
  Bidirectional flows (\<open>detection-engine/internal/capture/flow.go\<close>, \<open>types.go\<close>) and their enrichment
  (\<open>internal/correlator\<close>: \<open>correlator.go\<close>, \<open>devicecache.go\<close>, \<open>types.go\<close>). Packet decoding is not part of it: a
  packet is the arguments of \<open>update\<close>. Counters have the width of the code's. The channel that takes the
  records is bounded; \<open>free\<close> is the room it has, and what does not fit is dropped, as in the code.
\<close>

record flow_entry =
  fw_srcIP :: addr
  fw_dstIP :: addr
  fw_srcPort :: "16 word"
  fw_dstPort :: "16 word"
  fw_protocol :: "8 word"
  fw_bytesOut :: "64 word"
  fw_bytesIn :: "64 word"
  fw_packetsOut :: "32 word"
  fw_packetsIn :: "32 word"
  fw_tcpFlags :: "8 word"
  fw_vlanID :: "16 word"
  fw_startTime :: instant
  fw_lastSeen :: instant

record packet =
  pk_srcIP :: addr
  pk_dstIP :: addr
  pk_srcPort :: "16 word"
  pk_dstPort :: "16 word"
  pk_protocol :: "8 word"
  pk_size :: "64 word"
  pk_tcpFlags :: "8 word"
  pk_vlanID :: "16 word"

record flow_record =
  fr_Timestamp :: instant
  fr_SrcIP :: string
  fr_SrcPort :: "16 word"
  fr_DstIP :: string
  fr_DstPort :: "16 word"
  fr_Protocol :: "8 word"
  fr_BytesIn :: "64 word"
  fr_BytesOut :: "64 word"
  fr_PacketsIn :: "32 word"
  fr_PacketsOut :: "32 word"
  fr_DurationMs :: "32 word"
  fr_TCPFlags :: "8 word"
  fr_VlanID :: "16 word"

type_synonym flow_table = "(string, flow_entry) gomap"

text \<open>\<open>net.IP.String\<close>, which prints an IPv4-mapped address as the IPv4 address.\<close>

definition ip_string :: "addr \<Rightarrow> string" where
  "ip_string ip = addr_string (unmap ip)"

definition endpoint :: "addr \<Rightarrow> 16 word \<Rightarrow> string" where
  "endpoint ip port = ip_string ip @ '':'' @ show_nat (unat port)"

definition normalizeKey :: "addr \<Rightarrow> addr \<Rightarrow> 16 word \<Rightarrow> 16 word \<Rightarrow> 8 word \<Rightarrow> string \<times> bool" where
  "normalizeKey srcIP dstIP srcPort dstPort protocol =
     (let src = endpoint srcIP srcPort; dst = endpoint dstIP dstPort; proto = show_nat (unat protocol)
      in if src > dst then (proto @ ''|'' @ dst @ ''|'' @ src, True) else (proto @ ''|'' @ src @ ''|'' @ dst, False))"

definition update :: "instant \<Rightarrow> packet \<Rightarrow> flow_table \<Rightarrow> flow_table" where
  "update now p flows =
     (let (key, reversed) = normalizeKey (pk_srcIP p) (pk_dstIP p) (pk_srcPort p) (pk_dstPort p) (pk_protocol p);
          f0 = (case mget flows key of
                  Some f \<Rightarrow> f
                | None \<Rightarrow>
                    let f = \<lparr> fw_srcIP = pk_srcIP p, fw_dstIP = pk_dstIP p, fw_srcPort = pk_srcPort p, fw_dstPort = pk_dstPort p,
                              fw_protocol = pk_protocol p, fw_bytesOut = 0, fw_bytesIn = 0, fw_packetsOut = 0, fw_packetsIn = 0,
                              fw_tcpFlags = 0, fw_vlanID = pk_vlanID p, fw_startTime = now, fw_lastSeen = zero_time \<rparr>
                    in if reversed then f \<lparr> fw_srcIP := fw_dstIP f, fw_dstIP := fw_srcIP f,
                                           fw_srcPort := fw_dstPort f, fw_dstPort := fw_srcPort f \<rparr> else f);
          f1 = f0 \<lparr> fw_lastSeen := now, fw_tcpFlags := or (fw_tcpFlags f0) (pk_tcpFlags p) \<rparr>;
          f2 = (if \<not> reversed then f1 \<lparr> fw_bytesOut := fw_bytesOut f1 + pk_size p, fw_packetsOut := fw_packetsOut f1 + 1 \<rparr>
                else f1 \<lparr> fw_bytesIn := fw_bytesIn f1 + pk_size p, fw_packetsIn := fw_packetsIn f1 + 1 \<rparr>)
      in mput key f2 flows)"

text \<open>\<open>Duration.Milliseconds\<close> truncates towards zero; the conversion to \<open>uint32\<close> keeps the low bits.\<close>

definition milliseconds :: "duration \<Rightarrow> int" where
  "milliseconds d = (if d < 0 then - ((- d) div 1000000) else d div 1000000)"

definition flow_export :: "flow_entry \<Rightarrow> flow_record" where
  "flow_export f =
     \<lparr> fr_Timestamp = fw_startTime f, fr_SrcIP = ip_string (fw_srcIP f), fr_SrcPort = fw_srcPort f,
       fr_DstIP = ip_string (fw_dstIP f), fr_DstPort = fw_dstPort f, fr_Protocol = fw_protocol f,
       fr_BytesIn = fw_bytesIn f, fr_BytesOut = fw_bytesOut f, fr_PacketsIn = fw_packetsIn f, fr_PacketsOut = fw_packetsOut f,
       fr_DurationMs = word_of_int (milliseconds (time_sub (fw_lastSeen f) (fw_startTime f))),
       fr_TCPFlags = fw_tcpFlags f, fr_VlanID = fw_vlanID f \<rparr>"

definition expire :: "instant \<Rightarrow> duration \<Rightarrow> nat \<Rightarrow> flow_table \<Rightarrow> flow_record list \<times> flow_table" where
  "expire now idleTimeout free flows =
     (let idle = (\<lambda>(k, f). fw_lastSeen f < now - idleTimeout)
      in (take free (List.map (\<lambda>(k, f). flow_export f) (filter idle flows)), filter (\<lambda>kf. \<not> idle kf) flows))"

definition flushAll :: "nat \<Rightarrow> flow_table \<Rightarrow> flow_record list \<times> flow_table" where
  "flushAll free flows = (take free (List.map (\<lambda>(k, f). flow_export f) flows), [])"

subsection \<open>Enrichment\<close>

record device_info =
  dv_MAC :: string
  dv_IP :: string
  dv_Hostname :: string
  dv_Vendor :: string
  dv_OS :: string
  dv_DeviceType :: string

definition empty_device :: device_info where
  "empty_device = \<lparr> dv_MAC = [], dv_IP = [], dv_Hostname = [], dv_Vendor = [], dv_OS = [], dv_DeviceType = [] \<rparr>"

text \<open>A refresh of the device cache; \<open>None\<close> when the request, its status or its body is not good.\<close>

definition refresh :: "device_info list option \<Rightarrow> (string, device_info) gomap \<Rightarrow> (string, device_info) gomap" where
  "refresh answer byIP =
     (case answer of None \<Rightarrow> byIP
      | Some devices \<Rightarrow> foldl (\<lambda>m d. if dv_IP d \<noteq> [] then mput (dv_IP d) d m else m) [] devices)"

definition Lookup :: "(string, device_info) gomap \<Rightarrow> string \<Rightarrow> device_info" where
  "Lookup byIP ip = (case mget byIP ip of Some d \<Rightarrow> d | None \<Rightarrow> empty_device)"

record connection_record =
  cr_Timestamp :: instant
  cr_SrcMAC :: string
  cr_SrcHostname :: string
  cr_SrcVendor :: string
  cr_SrcOS :: string
  cr_SrcDeviceType :: string
  cr_SrcIP :: string
  cr_SrcPort :: "16 word"
  cr_DstIP :: string
  cr_DstDomain :: string
  cr_DstPort :: "16 word"
  cr_Protocol :: "8 word"
  cr_BytesIn :: "64 word"
  cr_BytesOut :: "64 word"
  cr_PacketsIn :: "32 word"
  cr_PacketsOut :: "32 word"
  cr_DurationMs :: "32 word"
  cr_TCPFlags :: "8 word"
  cr_VlanID :: "16 word"

text \<open>The timestamp's text is the formatting of the instant kept here.\<close>

definition correlator_handle :: "(string, device_info) gomap \<Rightarrow> (string \<Rightarrow> string) \<Rightarrow> flow_record \<Rightarrow> connection_record" where
  "correlator_handle byIP dns flow =
     (let dev = Lookup byIP (fr_SrcIP flow); domain = dns (fr_DstIP flow)
      in \<lparr> cr_Timestamp = fr_Timestamp flow, cr_SrcMAC = dv_MAC dev, cr_SrcHostname = dv_Hostname dev, cr_SrcVendor = dv_Vendor dev,
           cr_SrcOS = dv_OS dev, cr_SrcDeviceType = dv_DeviceType dev, cr_SrcIP = fr_SrcIP flow, cr_SrcPort = fr_SrcPort flow,
           cr_DstIP = fr_DstIP flow, cr_DstDomain = domain, cr_DstPort = fr_DstPort flow, cr_Protocol = fr_Protocol flow,
           cr_BytesIn = fr_BytesIn flow, cr_BytesOut = fr_BytesOut flow, cr_PacketsIn = fr_PacketsIn flow,
           cr_PacketsOut = fr_PacketsOut flow, cr_DurationMs = fr_DurationMs flow, cr_TCPFlags = fr_TCPFlags flow,
           cr_VlanID = fr_VlanID flow \<rparr>)"

subsection \<open>Both directions of a connection are one flow\<close>

definition swap :: "packet \<Rightarrow> packet" where
  "swap p = p \<lparr> pk_srcIP := pk_dstIP p, pk_dstIP := pk_srcIP p, pk_srcPort := pk_dstPort p, pk_dstPort := pk_srcPort p \<rparr>"

definition packet_key :: "packet \<Rightarrow> string" where
  "packet_key p = fst (normalizeKey (pk_srcIP p) (pk_dstIP p) (pk_srcPort p) (pk_dstPort p) (pk_protocol p))"

definition packet_reversed :: "packet \<Rightarrow> bool" where
  "packet_reversed p = snd (normalizeKey (pk_srcIP p) (pk_dstIP p) (pk_srcPort p) (pk_dstPort p) (pk_protocol p))"

lemma packet_reversed_iff: "packet_reversed p \<longleftrightarrow> endpoint (pk_srcIP p) (pk_srcPort p) > endpoint (pk_dstIP p) (pk_dstPort p)"
  by (simp add: packet_reversed_def normalizeKey_def Let_def)

lemma packet_key_swap: "packet_key (swap p) = packet_key p"
  by (auto simp: packet_key_def swap_def normalizeKey_def Let_def)

lemma packet_reversed_swap:
  "endpoint (pk_srcIP p) (pk_srcPort p) \<noteq> endpoint (pk_dstIP p) (pk_dstPort p) \<Longrightarrow> packet_reversed (swap p) \<longleftrightarrow> \<not> packet_reversed p"
  by (auto simp: packet_reversed_iff swap_def)

definition fresh_flow :: "instant \<Rightarrow> packet \<Rightarrow> flow_entry" where
  "fresh_flow now p =
     (let f = \<lparr> fw_srcIP = pk_srcIP p, fw_dstIP = pk_dstIP p, fw_srcPort = pk_srcPort p, fw_dstPort = pk_dstPort p,
                fw_protocol = pk_protocol p, fw_bytesOut = 0, fw_bytesIn = 0, fw_packetsOut = 0, fw_packetsIn = 0,
                fw_tcpFlags = 0, fw_vlanID = pk_vlanID p, fw_startTime = now, fw_lastSeen = zero_time \<rparr>
      in if packet_reversed p then f \<lparr> fw_srcIP := pk_dstIP p, fw_dstIP := pk_srcIP p, fw_srcPort := pk_dstPort p, fw_dstPort := pk_srcPort p \<rparr> else f)"

definition count_packet :: "instant \<Rightarrow> packet \<Rightarrow> flow_entry \<Rightarrow> flow_entry" where
  "count_packet now p f =
     (let f1 = f \<lparr> fw_lastSeen := now, fw_tcpFlags := or (fw_tcpFlags f) (pk_tcpFlags p) \<rparr>
      in if packet_reversed p then f1 \<lparr> fw_bytesIn := fw_bytesIn f + pk_size p, fw_packetsIn := fw_packetsIn f + 1 \<rparr>
         else f1 \<lparr> fw_bytesOut := fw_bytesOut f + pk_size p, fw_packetsOut := fw_packetsOut f + 1 \<rparr>)"

lemma update_eq:
  "update now p flows = mput (packet_key p) (count_packet now p (case mget flows (packet_key p) of Some f \<Rightarrow> f | None \<Rightarrow> fresh_flow now p)) flows"
proof -
  obtain k r where n: "normalizeKey (pk_srcIP p) (pk_dstIP p) (pk_srcPort p) (pk_dstPort p) (pk_protocol p) = (k, r)" by fastforce
  then have "packet_key p = k" "packet_reversed p = r" by (simp_all add: packet_key_def packet_reversed_def)
  then show ?thesis
    by (cases r; cases "mget flows k") (simp_all add: update_def n count_packet_def fresh_flow_def Let_def)
qed

text \<open>What the table must hold after a sequence of packets, per flow.\<close>

definition of_flow :: "string \<Rightarrow> packet list \<Rightarrow> packet list" where
  "of_flow k ps = filter (\<lambda>p. packet_key p = k) ps"

definition accounts :: "packet list \<Rightarrow> string \<Rightarrow> flow_entry \<Rightarrow> bool" where
  "accounts ps k f \<longleftrightarrow>
     fw_bytesOut f = sum_list (List.map pk_size (filter (\<lambda>p. \<not> packet_reversed p) (of_flow k ps)))
   \<and> fw_bytesIn f = sum_list (List.map pk_size (filter packet_reversed (of_flow k ps)))
   \<and> fw_packetsOut f = of_nat (length (filter (\<lambda>p. \<not> packet_reversed p) (of_flow k ps)))
   \<and> fw_packetsIn f = of_nat (length (filter packet_reversed (of_flow k ps)))
   \<and> fw_tcpFlags f = foldl (\<lambda>w p. or w (pk_tcpFlags p)) 0 (of_flow k ps)
   \<and> endpoint (fw_srcIP f) (fw_srcPort f) \<le> endpoint (fw_dstIP f) (fw_dstPort f)"

lemma of_flow_snoc: "of_flow k (ps @ [p]) = (if packet_key p = k then of_flow k ps @ [p] else of_flow k ps)"
  by (simp add: of_flow_def)

lemma fresh_flow_accounts: "of_flow k ps = [] \<Longrightarrow> accounts ps k (fresh_flow now p)"
  using packet_reversed_iff [of p] by (auto simp: accounts_def fresh_flow_def Let_def)

lemma count_packet_accounts: "accounts ps (packet_key p) f \<Longrightarrow> accounts (ps @ [p]) (packet_key p) (count_packet now p f)"
  by (auto simp: accounts_def of_flow_snoc count_packet_def Let_def add.commute)

lemma accounts_other: "packet_key p \<noteq> k \<Longrightarrow> accounts (ps @ [p]) k f = accounts ps k f"
  by (simp add: accounts_def of_flow_snoc)

definition flows_after :: "(instant \<times> packet) list \<Rightarrow> flow_table" where
  "flows_after ps = fold (\<lambda>(t, p) flows. update t p flows) ps []"

lemma flows_after_dom: "mget (flows_after ps) k = None \<longleftrightarrow> of_flow k (List.map snd ps) = []"
proof (induction ps rule: rev_induct)
  case (snoc tp ps)
  obtain t p where tp: "tp = (t, p)" by fastforce
  have "flows_after (ps @ [tp]) = update t p (flows_after ps)" by (simp add: flows_after_def tp)
  then show ?case using snoc by (simp add: update_eq mget_put of_flow_snoc tp)
qed (simp add: flows_after_def of_flow_def)

lemma flows_after_accounts: "mget (flows_after ps) k = Some f \<Longrightarrow> accounts (List.map snd ps) k f"
proof (induction ps arbitrary: k f rule: rev_induct)
  case (snoc tp ps)
  obtain t p where tp: "tp = (t, p)" by fastforce
  have up: "flows_after (ps @ [tp]) = update t p (flows_after ps)" by (simp add: flows_after_def tp)
  show ?case
  proof (cases "packet_key p = k")
    case True
    define g where "g = (case mget (flows_after ps) k of Some f \<Rightarrow> f | None \<Rightarrow> fresh_flow t p)"
    have f: "f = count_packet t p g" using snoc.prems by (simp add: up update_eq mget_put True g_def)
    have "accounts (List.map snd ps) k g"
      using snoc.IH [of k] flows_after_dom [of ps k] fresh_flow_accounts [of k "List.map snd ps" t p]
      by (cases "mget (flows_after ps) k") (simp_all add: g_def)
    then show ?thesis using count_packet_accounts [of "List.map snd ps" p g t] by (simp add: f True tp)
  next
    case False
    then have "mget (flows_after ps) k = Some f" using snoc.prems by (simp add: up update_eq mget_put)
    then show ?thesis using snoc.IH accounts_other [OF False] by (simp add: tp)
  qed
qed (simp add: flows_after_def)

text \<open>
  Property C32. A flow accounts for both directions of its connection. After any packets, a packet and its
  reply are in one flow; the flow's counters are the sums of the sizes and numbers of its packets of each
  direction, at the width of the counters; and the side called source is the one whose text
  "address:port" is smaller, whichever side spoke first.
\<close>

theorem flow_accounting:
  assumes "mget (flows_after ps) (packet_key p) = Some f"
  shows "accounts (List.map snd ps) (packet_key p) f \<and> packet_key (swap p) = packet_key p
    \<and> fw_bytesIn f + fw_bytesOut f = sum_list (List.map pk_size (of_flow (packet_key p) (List.map snd ps)))
    \<and> endpoint (fw_srcIP f) (fw_srcPort f) \<le> endpoint (fw_dstIP f) (fw_dstPort f)"
proof -
  have "sum_list (List.map pk_size (filter packet_reversed xs)) + sum_list (List.map pk_size (filter (\<lambda>p. \<not> packet_reversed p) xs))
      = sum_list (List.map pk_size xs)" for xs by (induction xs) (simp_all add: algebra_simps)
  then show ?thesis using flows_after_accounts [OF assms] packet_key_swap by (simp add: accounts_def)
qed

definition sample_packet :: "64 word \<Rightarrow> packet" where
  "sample_packet n = \<lparr> pk_srcIP = IP4 0xC0A8010A, pk_dstIP = IP4 0x01010101, pk_srcPort = 50000, pk_dstPort = 443,
     pk_protocol = 6, pk_size = n, pk_tcpFlags = 2, pk_vlanID = 0 \<rparr>"

theorem flow_accounting_witness:
  "\<exists>f. mget (flows_after [(0, sample_packet 60), (1, swap (sample_packet 1500))]) (packet_key (sample_packet 0)) = Some f
     \<and> fw_bytesIn f + fw_bytesOut f = 1560"
proof -
  let ?ps = "[(0, sample_packet 60), (1, swap (sample_packet 1500))]"
  have k: "packet_key (sample_packet n) = ''6|1.1.1.1:443|192.168.1.10:50000''" for n by code_simp
  have "map_option fw_protocol (mget (flows_after ?ps) (packet_key (sample_packet 0))) = Some 6" by code_simp
  then obtain f where f: "mget (flows_after ?ps) (packet_key (sample_packet 0)) = Some f" by auto
  from flow_accounting [OF f] f show ?thesis
    by (simp add: of_flow_def k packet_key_swap) (simp add: sample_packet_def swap_def)
qed

text \<open>
  Further fact. The source of a record need not be the client. A device of the inventory that opens a
  connection to 1.1.1.1 is recorded as its destination: the record's source is 1.1.1.1, its device columns
  are empty, and no domain is found, although the inventory and the DNS cache know both sides.
\<close>

theorem client_recorded_as_destination:
  "let dev = empty_device \<lparr> dv_MAC := ''aa:bb:cc:dd:ee:ff'', dv_IP := ''192.168.1.10'', dv_Hostname := ''laptop'' \<rparr>;
       byIP = refresh (Some [dev]) [];
       dns = (\<lambda>ip. cache_Get 5 ip (cache_Set 0 ''1.1.1.1'' ''one.one.one.one'' 300 NewDNSCache));
       recs = fst (flushAll 256 (flows_after [(0, sample_packet 60), (1, swap (sample_packet 1500))]));
       r = correlator_handle byIP dns (hd recs)
   in length recs = 1 \<and> cr_SrcIP r = ''1.1.1.1'' \<and> cr_DstIP r = ''192.168.1.10'' \<and> cr_SrcMAC r = [] \<and> cr_DstDomain r = []
      \<and> dv_Hostname (Lookup byIP ''192.168.1.10'') = ''laptop'' \<and> dns ''1.1.1.1'' = ''one.one.one.one''"
  by code_simp

end
