(* ===== verification/Capture.thy ===== *)
theory Capture
  imports Flows GoHttp
begin

text \<open>
  What the detection engine reads outside its main path: the capture loop in front of the flow tracker
  (\<open>detection-engine/internal/capture/capture.go\<close>), the replay of a recorded capture (\<open>internal/pcapreplay\<close>), the list of
  devices it fetches from the inventory (\<open>internal/correlator/devicecache.go\<close>), and the plain list of names
  (\<open>internal/threatlist\<close>). The library gopacket decodes packets; its result is a parameter or an argument.
\<close>

subsection \<open>The capture loop\<close>

datatype layer_type = LayerTypeEthernet | LayerTypeIPv4 | LayerTypeIPv6 | LayerTypeTCP | LayerTypeUDP | LayerTypeDot1Q

text \<open>The structures the parser decodes into. They outlive the packet: a layer that is not decoded keeps its old values.\<close>

record layers =
  ip4_SrcIP :: addr
  ip4_DstIP :: addr
  ip4_Protocol :: "8 word"
  ip6_SrcIP :: addr
  ip6_DstIP :: addr
  ip6_NextHeader :: "8 word"
  tcp_SrcPort :: "16 word"
  tcp_DstPort :: "16 word"
  tcp_SYN :: bool
  tcp_ACK :: bool
  tcp_FIN :: bool
  tcp_RST :: bool
  tcp_PSH :: bool
  udp_SrcPort :: "16 word"
  udp_DstPort :: "16 word"
  dot1q_VLAN :: "16 word"

definition tcp_flags :: "layers \<Rightarrow> 8 word" where
  "tcp_flags ly =
     or (if tcp_SYN ly then 0x02 else 0) (or (if tcp_ACK ly then 0x10 else 0) (or (if tcp_FIN ly then 0x01 else 0)
       (or (if tcp_RST ly then 0x04 else 0) (if tcp_PSH ly then 0x08 else 0))))"

text \<open>The variables of one turn of the loop: the arguments of \<open>update\<close> and \<open>hasIP\<close>.\<close>

definition no_packet :: packet where
  "no_packet = \<lparr> pk_srcIP = IP4 0, pk_dstIP = IP4 0, pk_srcPort = 0, pk_dstPort = 0, pk_protocol = 0, pk_size = 0,
     pk_tcpFlags = 0, pk_vlanID = 0 \<rparr>"

fun read_layer :: "layers \<Rightarrow> layer_type \<Rightarrow> packet \<times> bool \<Rightarrow> packet \<times> bool" where
  "read_layer ly LayerTypeIPv4 (p, hasIP) =
     (p \<lparr> pk_srcIP := ip4_SrcIP ly, pk_dstIP := ip4_DstIP ly, pk_protocol := ip4_Protocol ly \<rparr>, True)"
| "read_layer ly LayerTypeIPv6 (p, hasIP) =
     (p \<lparr> pk_srcIP := ip6_SrcIP ly, pk_dstIP := ip6_DstIP ly, pk_protocol := ip6_NextHeader ly \<rparr>, True)"
| "read_layer ly LayerTypeTCP (p, hasIP) =
     (p \<lparr> pk_srcPort := tcp_SrcPort ly, pk_dstPort := tcp_DstPort ly, pk_tcpFlags := or (pk_tcpFlags p) (tcp_flags ly) \<rparr>, hasIP)"
| "read_layer ly LayerTypeUDP (p, hasIP) = (p \<lparr> pk_srcPort := udp_SrcPort ly, pk_dstPort := udp_DstPort ly \<rparr>, hasIP)"
| "read_layer ly LayerTypeDot1Q (p, hasIP) = (p \<lparr> pk_vlanID := dot1q_VLAN ly \<rparr>, hasIP)"
| "read_layer ly LayerTypeEthernet (p, hasIP) = (p, hasIP)"

type_synonym decoder = "byte list \<Rightarrow> layers \<Rightarrow> layers \<times> layer_type list"

definition capture_frame :: "decoder \<Rightarrow> instant \<Rightarrow> byte list \<Rightarrow> layers \<times> flow_table \<Rightarrow> layers \<times> flow_table" where
  "capture_frame decode now data st =
     (let (ly, decoded) = decode data (fst st);
          (p, hasIP) = fold (read_layer ly) decoded (no_packet, False)
      in (ly, if hasIP then update now (p \<lparr> pk_size := of_nat (length data) \<rparr>) (snd st) else snd st))"

subsection \<open>Replay of a capture\<close>

text \<open>
  A packet as gopacket decodes it: the query flag and the questions of its DNS layer, with their names and the names of their
  types, and the source of its IPv4 or IPv6 layer.
\<close>

record replay_packet =
  rp_dns :: "(bool \<times> (string \<times> string) list) option"
  rp_ip4 :: "addr option"
  rp_ip6 :: "addr option"

record replay_alert =
  ra_Domain :: string
  ra_ClientIP :: string
  ra_MatchedIoC :: string
  ra_Severity :: string
  ra_Source :: string
  ra_QueryType :: string

record replay_result =
  rr_Packets :: nat
  rr_Queries :: nat
  rr_Alerts :: "replay_alert list"

definition replay_source :: "replay_packet \<Rightarrow> string" where
  "replay_source p = (case rp_ip4 p of Some a \<Rightarrow> ip_string a | None \<Rightarrow> (case rp_ip6 p of Some a \<Rightarrow> ip_string a | None \<Rightarrow> []))"

definition replay_question :: "matcher \<Rightarrow> string \<Rightarrow> string \<times> string \<Rightarrow> replay_result \<Rightarrow> replay_result" where
  "replay_question m srcIP q r =
     (let domain = to_lower (trim_suffix (fst q) ''.''); r = r \<lparr> rr_Queries := rr_Queries r + 1 \<rparr>
      in case MatchDomain m domain of
           None \<Rightarrow> r
         | Some i \<Rightarrow> r \<lparr> rr_Alerts := rr_Alerts r @ [\<lparr> ra_Domain = domain, ra_ClientIP = srcIP, ra_MatchedIoC = ioc_Value i,
             ra_Severity = DeriveSeverity i, ra_Source = ioc_Source i, ra_QueryType = snd q \<rparr>] \<rparr>)"

definition replay_one :: "matcher \<Rightarrow> replay_packet \<Rightarrow> replay_result \<Rightarrow> replay_result" where
  "replay_one m p r =
     (let r = r \<lparr> rr_Packets := rr_Packets r + 1 \<rparr>
      in case rp_dns p of
           None \<Rightarrow> r
         | Some (qr, qs) \<Rightarrow> if qr then r else fold (replay_question m (replay_source p)) qs r)"

definition Replay :: "matcher \<Rightarrow> replay_packet list \<Rightarrow> replay_result" where
  "Replay m ps = fold (replay_one m) ps \<lparr> rr_Packets = 0, rr_Queries = 0, rr_Alerts = [] \<rparr>"

subsection \<open>The devices of the inventory\<close>

text \<open>\<open>refresh\<close> of the device cache with its exchange; the decoder of the list is a parameter.\<close>

definition refresh_over_http :: "'w web \<Rightarrow> (string \<Rightarrow> device_info list option) \<Rightarrow> string \<Rightarrow> (string, device_info) gomap \<Rightarrow> 'w
    \<Rightarrow> (string, device_info) gomap \<times> 'w" where
  "refresh_over_http web decode url byIP w =
     (case web_parse web (url @ ''/devices'') of
        Some e \<Rightarrow> (byIP, w)
      | None \<Rightarrow>
          (let (r, w') = web_do web \<lparr> hr_method = ''GET'', hr_url = url @ ''/devices'', hr_headers = [], hr_auth = None, hr_body = [] \<rparr> w
           in (refresh (case r of Transport e \<Rightarrow> None | Response code body \<Rightarrow> if code \<noteq> 200 then None else decode body) byIP, w')))"

subsection \<open>The plain list\<close>

definition threat_domains :: "string list \<Rightarrow> (string, unit) gomap" where
  "threat_domains lines =
     fold (\<lambda>raw m. let line = trim_space raw in if line = [] \<or> has_prefix line ''#'' then m else mput (to_lower line) () m) lines []"

text \<open>\<open>LoadFromFile\<close> on the content of the file, \<open>None\<close> when it cannot be opened; a line that is too long is an error.\<close>

definition LoadFromFile :: "string option \<Rightarrow> (string, unit) gomap option" where
  "LoadFromFile content =
     (case content of None \<Rightarrow> None
      | Some c \<Rightarrow> (case scan_lines c of (ls, toolong) \<Rightarrow> if toolong then None else Some (threat_domains ls)))"

definition listed :: "(string, unit) gomap \<Rightarrow> string \<Rightarrow> bool" where
  "listed m c \<longleftrightarrow> mget m c \<noteq> None"

fun threat_parents :: "(string, unit) gomap \<Rightarrow> string list \<Rightarrow> string option" where
  "threat_parents m [] = None"
| "threat_parents m (p # ps) = (if listed m (join ''.'' (p # ps)) then Some (join ''.'' (p # ps)) else threat_parents m ps)"

definition Match :: "(string, unit) gomap \<Rightarrow> string \<Rightarrow> string option" where
  "Match m domain = threat_parents m (split_on (CHR ''.'') (to_lower (trim_suffix domain ''.'')))"

subsection \<open>The replay is the live engine\<close>

text \<open>The severity of a matched domain is the derived one, whatever a feed claims.\<close>

definition domains_derived :: "matcher \<Rightarrow> bool" where
  "domains_derived m \<longleftrightarrow> (\<forall>k i. mget (mt_domains m) k = Some i \<longrightarrow> ioc_Severity i = DeriveSeverity i)"

lemma domains_derived_add_one: "domains_derived m \<Longrightarrow> domains_derived (snd (add_one i m))"
proof -
  assume m: "domains_derived m"
  have "ioc_Severity v = DeriveSeverity v" if "domain_entry i = Some (k, v)" for k v
    using that by (auto simp: domain_entry_def DeriveSeverity_def split: if_splits sum.splits)
  then have "\<forall>k v. mget (put_entry ioc_Confidence (domain_entry i) (mt_domains m)) k = Some v \<longrightarrow> ioc_Severity v = DeriveSeverity v"
    using m by (intro put_entry_all) (auto simp: domains_derived_def)
  then show ?thesis by (simp add: domains_derived_def add_one_entries)
qed

interpretation dm: machine "\<lambda>i m. snd (add_one i m)" domains_derived
  by unfold_locales (rule domains_derived_add_one)

interpretation df: machine "\<lambda>f m. snd (Add f m)" domains_derived
  by unfold_locales (simp add: snd_Add dm.runs_ok)

lemma matched_derived: "MatchDomain (matcher_of feeds) d = Some i \<Longrightarrow> ioc_Severity i = DeriveSeverity i"
proof -
  have "domains_derived (matcher_of feeds)"
    unfolding matcher_of_def by (rule df.runs_ok) (simp add: domains_derived_def NewMatcher_def)
  then show "MatchDomain (matcher_of feeds) d = Some i \<Longrightarrow> ioc_Severity i = DeriveSeverity i"
    by (auto simp: MatchDomain_def domains_derived_def dest!: match_suffixes_Some)
qed

text \<open>The entries AdGuard would log for the queries of a capture, at an instant and without answers.\<close>

definition logged_question :: "instant \<Rightarrow> replay_packet \<Rightarrow> string \<times> string \<Rightarrow> query_log_entry" where
  "logged_question t p q = \<lparr> ql_Host = fst q, ql_QType = snd q, ql_Answer = [], ql_Client = replay_source p, ql_Time = t \<rparr>"

definition logged_packet :: "instant \<Rightarrow> replay_packet \<Rightarrow> query_log_entry list" where
  "logged_packet t p =
     (case rp_dns p of
        None \<Rightarrow> []
      | Some (qr, qs) \<Rightarrow> if qr then [] else List.map (logged_question t p) qs)"

definition live_view :: "alert \<Rightarrow> string \<times> string \<times> string \<times> string \<times> string \<times> string" where
  "live_view a = (al_Domain a, al_ClientIP a, al_MatchedIoC a, al_Severity a, al_Source a, al_QueryType a)"

definition replay_view :: "replay_alert \<Rightarrow> string \<times> string \<times> string \<times> string \<times> string \<times> string" where
  "replay_view a = (ra_Domain a, ra_ClientIP a, ra_MatchedIoC a, ra_Severity a,
     (if ra_Source a = [] then ''local'' else ra_Source a), ra_QueryType a)"

definition entry_view :: "matcher \<Rightarrow> query_log_entry \<Rightarrow> (string \<times> string \<times> string \<times> string \<times> string \<times> string) list" where
  "entry_view m en =
     (case MatchDomain m (entry_domain en) of
        None \<Rightarrow> []
      | Some i \<Rightarrow> [(entry_domain en, ql_Client en, ioc_Value i, DeriveSeverity i,
          (if ioc_Source i = [] then ''local'' else ioc_Source i), ql_QType en)])"

lemma replay_fold_view:
  "List.map replay_view (rr_Alerts (fold (replay_question m (replay_source p)) qs r))
     = List.map replay_view (rr_Alerts r) @ List.concat (List.map (\<lambda>q. entry_view m (logged_question t p q)) qs)"
  by (induction qs arbitrary: r)
    (auto simp: replay_question_def logged_question_def entry_view_def entry_domain_def replay_view_def Let_def split: option.split)

lemma replay_views:
  "List.map replay_view (rr_Alerts (fold (replay_one m) ps r))
     = List.map replay_view (rr_Alerts r) @ List.concat (List.map (entry_view m) (List.concat (List.map (logged_packet t) ps)))"
proof (induction ps arbitrary: r)
  case (Cons p ps)
  have "List.map replay_view (rr_Alerts (replay_one m p r))
      = List.map replay_view (rr_Alerts r) @ List.concat (List.map (entry_view m) (logged_packet t p))"
    using replay_fold_view [of m p _ "r \<lparr> rr_Packets := rr_Packets r + 1 \<rparr>" t]
    by (simp add: replay_one_def logged_packet_def Let_def comp_def split: option.split prod.split)
  with Cons show ?case by simp
qed simp

lemma live_entry_view:
  assumes "m = matcher_of feeds" and "ql_Answer en = []" and "poll_entry m en e = (o1, e1)"
  shows "List.map live_view (alerts_of o1) = entry_view m en"
proof (cases "MatchDomain m (entry_domain en)")
  case None
  then show ?thesis using assms(2,3) by (simp add: poll_entry_def entry_view_def Let_def)
next
  case (Some i)
  have "DeriveSeverity i \<noteq> []" by (simp add: DeriveSeverity_def)
  moreover have "ioc_Severity i = DeriveSeverity i" using matched_derived Some assms(1) by simp
  ultimately show ?thesis using assms(2,3) Some
    by (auto simp: poll_entry_def entry_view_def live_view_def emitAlert_def addAlert_def Let_def split: prod.splits)
qed

lemma live_views:
  assumes "m = matcher_of feeds"
  shows "engine_ok e \<Longrightarrow> \<forall>en \<in> set entries. ql_Answer en = [] \<and> ql_Time en > en_lastSeen e \<Longrightarrow>
     List.map live_view (alerts_of (fst (poll_loop m entries e))) = List.concat (List.map (entry_view m) entries)"
proof (induction entries arbitrary: e)
  case (Cons en entries)
  obtain o1 e1 where 1: "poll_entry m en e = (o1, e1)" by fastforce
  have "en_lastSeen e1 = en_lastSeen e \<and> engine_ok e1" using poll_entry_lastSeen [OF Cons.prems(1) 1] .
  moreover have "List.map live_view (alerts_of o1) = entry_view m en"
    using live_entry_view [OF assms _ 1] Cons.prems(2) by simp
  ultimately show ?case using Cons.IH [of e1] Cons.prems 1 by (simp split: prod.split) (metis fst_conv)
qed simp


definition sample_capture :: "replay_packet list" where
  "sample_capture = [\<lparr> rp_dns = Some (False, [(''X.evil.com'', ''A'')]), rp_ip4 = Some (IP4 0xC0A80107), rp_ip6 = None \<rparr>,
     \<lparr> rp_dns = Some (True, [(''evil.com'', ''A'')]), rp_ip4 = Some (IP4 0xC0A80101), rp_ip6 = None \<rparr>]"


subsection \<open>Frames and flows\<close>

text \<open>The packets of a run of frames: those with an IP layer, as the parser's structures stand after each frame.\<close>

fun frame_packets :: "decoder \<Rightarrow> layers \<Rightarrow> (instant \<times> byte list) list \<Rightarrow> (instant \<times> packet) list" where
  "frame_packets decode ly [] = []"
| "frame_packets decode ly ((now, data) # fs) =
     (let (ly', decoded) = decode data ly; (p, hasIP) = fold (read_layer ly') decoded (no_packet, False)
      in (if hasIP then [(now, p \<lparr> pk_size := of_nat (length data) \<rparr>)] else []) @ frame_packets decode ly' fs)"

text \<open>Further fact. The capture loop is the flow tracker on the packets of its frames; frames without an IP layer change nothing.\<close>

theorem capture_is_tracking:
  "snd (fold (\<lambda>(now, data). capture_frame decode now data) fs (ly, flows))
     = fold (\<lambda>(now, p). update now p) (frame_packets decode ly fs) flows"
  by (induction fs arbitrary: ly flows) (auto simp: capture_frame_def Let_def split: prod.splits)

lemma tcp_flags_bits:
  "bit (tcp_flags ly) 1 = tcp_SYN ly" "bit (tcp_flags ly) 4 = tcp_ACK ly" "bit (tcp_flags ly) 0 = tcp_FIN ly"
  "bit (tcp_flags ly) 2 = tcp_RST ly" "bit (tcp_flags ly) 3 = tcp_PSH ly"
  by (simp_all add: tcp_flags_def bit_simps)

subsection \<open>The plain list matches the longest listed parent\<close>

lemma threat_parents_Some:
  "threat_parents m ps = Some c \<Longrightarrow> \<exists>pre post. ps = pre @ post \<and> post \<noteq> [] \<and> c = join ''.'' post \<and> listed m c
     \<and> (\<forall>pre' post'. ps = pre' @ post' \<and> length pre' < length pre \<longrightarrow> \<not> listed m (join ''.'' post'))"
proof (induction ps)
  case (Cons p ps)
  show ?case
  proof (cases "\<not> listed m (join ''.'' (p # ps))")
    case True
    with Cons.prems have "threat_parents m ps = Some c" by simp
    from Cons.IH [OF this] obtain pre post where *: "ps = pre @ post" "post \<noteq> []" "c = join ''.'' post" "listed m c"
      "\<And>pre' post'. ps = pre' @ post' \<Longrightarrow> length pre' < length pre \<Longrightarrow> \<not> listed m (join ''.'' post')" by blast
    have "\<not> listed m (join ''.'' post')" if "p # ps = pre' @ post'" "length pre' < length (p # pre)" for pre' post'
      using that True *(5) by (cases pre') auto
    with * show ?thesis by (intro exI [of _ "p # pre"] exI [of _ post]) auto
  next
    case False
    with Cons.prems have "c = join ''.'' (p # ps)" by simp
    with False show ?thesis by (intro exI [of _ "[]"] exI [of _ "p # ps"]) simp
  qed
qed simp

lemma threat_parents_None:
  "threat_parents m ps = None \<Longrightarrow> ps = pre @ post \<Longrightarrow> post \<noteq> [] \<Longrightarrow> \<not> listed m (join ''.'' post)"
proof (induction ps arbitrary: pre)
  case (Cons p ps)
  then show ?case by (cases pre) (auto split: if_splits)
qed simp

text \<open>
  Further fact. A name is matched by the longest of itself and its parents that is a line of the list, up to case; and only
  if there is one.
\<close>

theorem threat_match_longest:
  "(case Match m domain of
      Some c \<Rightarrow> \<exists>pre post. split_on (CHR ''.'') (to_lower (trim_suffix domain ''.'')) = pre @ post \<and> post \<noteq> [] \<and> c = join ''.'' post
        \<and> listed m c \<and> (\<forall>pre' post'. split_on (CHR ''.'') (to_lower (trim_suffix domain ''.'')) = pre' @ post' \<and> length pre' < length pre
              \<longrightarrow> \<not> listed m (join ''.'' post'))
    | None \<Rightarrow> \<forall>pre post. split_on (CHR ''.'') (to_lower (trim_suffix domain ''.'')) = pre @ post \<and> post \<noteq> [] \<longrightarrow> \<not> listed m (join ''.'' post))"
proof (cases "Match m domain")
  case None
  then show ?thesis using threat_parents_None [of m "split_on (CHR ''.'') (to_lower (trim_suffix domain ''.''))"]
    unfolding Match_def by auto
next
  case (Some c)
  then show ?thesis using threat_parents_Some [of m _ c] unfolding Match_def by simp
qed

end
