(* ===== verification/GoDuration.thy ===== *)
theory GoDuration
  imports GoStrings GoFloat
begin

text \<open>
  \<open>time.ParseDuration\<close>: an optional sign and a sum of decimal numbers with units. Whole parts are read as unsigned 64-bit
  numbers; a fraction is scaled to its unit in \<open>float64\<close>. \<open>f64\<close> has 52 bits after the point of the numbers below 128, so
  the larger ones of this computation are brought there by a power of two, which \<open>float64\<close> carries exactly.
\<close>

definition f64_wide :: "rat \<Rightarrow> rat" where
  "f64_wide x = 2 ^ 112 * f64 (x / 2 ^ 112)"

fun leading_int :: "nat \<Rightarrow> string \<Rightarrow> (nat \<times> string) option" where
  "leading_int x [] = Some (x, [])"
| "leading_int x (c # cs) =
     (if is_digit c then
        if x > 2 ^ 63 div 10 then None
        else (let y = x * 10 + digit_val c in if y > 2 ^ 63 then None else leading_int y cs)
      else Some (x, c # cs))"

text \<open>Digits past the precision are read over.\<close>

fun leading_fraction :: "bool \<Rightarrow> nat \<Rightarrow> nat \<Rightarrow> string \<Rightarrow> nat \<times> nat \<times> string" where
  "leading_fraction ovf x scl [] = (x, scl, [])"
| "leading_fraction ovf x scl (c # cs) =
     (if is_digit c then
        let y = x * 10 + digit_val c
        in if ovf \<or> x > (2 ^ 63 - 1) div 10 \<or> y > 2 ^ 63 then leading_fraction True x scl cs
           else leading_fraction False y (scl * 10) cs
      else (x, scl, c # cs))"

definition unit_table :: "(string \<times> nat) list" where
  "unit_table = [(''ns'', 1), (''us'', 1000), ([CHR 0xC2, CHR 0xB5, CHR ''s''], 1000), ([CHR 0xCE, CHR 0xBC, CHR ''s''], 1000),
     (''ms'', 1000000), (''s'', 1000000000), (''m'', 60000000000), (''h'', 3600000000000)]"

definition numeric_char :: "char \<Rightarrow> bool" where
  "numeric_char c \<longleftrightarrow> c = CHR ''.'' \<or> is_digit c"

text \<open>One turn of the loop: a number with its unit, and the rest of the text.\<close>

definition duration_term :: "string \<Rightarrow> (nat \<times> string) option" where
  "duration_term s =
     (if s = [] \<or> \<not> numeric_char (hd s) then None
      else case leading_int 0 s of
          None \<Rightarrow> None
        | Some (v, s1) \<Rightarrow>
            (let pre = length s \<noteq> length s1;
                 (f, scl, s2) = (if s1 \<noteq> [] \<and> hd s1 = CHR ''.'' then leading_fraction False 0 1 (tl s1) else (0, 1, s1));
                 post = (s1 \<noteq> [] \<and> hd s1 = CHR ''.'' \<and> length (tl s1) \<noteq> length s2);
                 u = takeWhile (\<lambda>c. \<not> numeric_char c) s2; s3 = dropWhile (\<lambda>c. \<not> numeric_char c) s2
             in if \<not> pre \<and> \<not> post then None
                else if u = [] then None
                else case map_of unit_table u of
                    None \<Rightarrow> None
                  | Some unit \<Rightarrow>
                      if v > 2 ^ 63 div unit then None
                      else let w = (if f > 0
                             then (v * unit + nat \<lfloor>f64_wide (f64_wide (of_nat f) * f64_wide (of_nat unit / of_nat scl))\<rfloor>) mod 2 ^ 64
                             else v * unit)
                           in if f > 0 \<and> w > 2 ^ 63 then None else Some (w, s3)))"

lemma leading_int_length: "leading_int x s = Some (v, s') \<Longrightarrow> length s' \<le> length s"
  by (induction x s arbitrary: v s' rule: leading_int.induct) (fastforce simp: Let_def split: if_splits)+

lemma leading_fraction_length: "length (snd (snd (leading_fraction b x scl s))) \<le> length s"
  by (induction b x scl s rule: leading_fraction.induct) (auto simp: Let_def)

lemma duration_term_shorter: "duration_term s = Some (w, s') \<Longrightarrow> length s' < length s"
proof -
  assume a: "duration_term s = Some (w, s')"
  then obtain v s1 where i: "leading_int 0 s = Some (v, s1)" by (auto simp: duration_term_def split: if_splits option.splits)
  define r where "r = (if s1 \<noteq> [] \<and> hd s1 = CHR ''.'' then leading_fraction False 0 1 (tl s1) else (0, 1, s1))"
  have "length (snd (snd r)) \<le> length s1"
    using leading_fraction_length [of False 0 1 "tl s1"] by (auto simp: r_def)
  moreover have "length s1 \<le> length s" using leading_int_length [OF i] .
  moreover have "s' = dropWhile (\<lambda>c. \<not> numeric_char c) (snd (snd r)) \<and> takeWhile (\<lambda>c. \<not> numeric_char c) (snd (snd r)) \<noteq> []"
    using a i by (auto simp: duration_term_def r_def [symmetric] Let_def split: if_splits option.splits prod.splits)
  moreover have "length (dropWhile (\<lambda>c. \<not> numeric_char c) x) < length x" if "takeWhile (\<lambda>c. \<not> numeric_char c) x \<noteq> []" for x
    using that by (metis add_diff_cancel_left' length_append length_greater_0_conv less_add_same_cancel2 takeWhile_dropWhile_id)
  ultimately show ?thesis by (metis le_trans less_le_trans)
qed

function sum_terms :: "nat \<Rightarrow> string \<Rightarrow> nat option" where
  "sum_terms d s =
     (if s = [] then Some d
      else case duration_term s of
          None \<Rightarrow> None
        | Some (v, rest) \<Rightarrow> (let d' = (d + v) mod 2 ^ 64 in if d' > 2 ^ 63 then None else sum_terms d' rest))"
  by pat_completeness auto
termination by (relation "measure (\<lambda>(d, s). length s)") (auto dest: duration_term_shorter)

declare sum_terms.simps [simp del]

definition parse_duration :: "string \<Rightarrow> int option" where
  "parse_duration s =
     (let neg = (s \<noteq> [] \<and> hd s = CHR ''-''); s' = (if s \<noteq> [] \<and> (hd s = CHR ''-'' \<or> hd s = CHR ''+'') then tl s else s)
      in if s' = ''0'' then Some 0
         else if s' = [] then None
         else case sum_terms 0 s' of
             None \<Rightarrow> None
           | Some d \<Rightarrow> if neg then Some (- int d) else if d > 2 ^ 63 - 1 then None else Some (int d))"

subsection \<open>Whole seconds read back\<close>

lemma read_digits_ge: "x \<le> read_digits ds x"
proof (induction ds arbitrary: x)
  case (Cons c ds)
  have "x \<le> 10 * x + digit_val c" by simp
  then show ?case using Cons [of "10 * x + digit_val c"] by simp
qed simp

lemma leading_int_digits:
  "list_all is_digit ds \<Longrightarrow> s = [] \<or> \<not> is_digit (hd s) \<Longrightarrow> read_digits ds x \<le> 2 ^ 63 \<Longrightarrow>
     leading_int x (ds @ s) = Some (read_digits ds x, s)"
proof (induction ds arbitrary: x)
  case Nil
  then show ?case by (cases s) auto
next
  case (Cons c ds)
  have "10 * x + digit_val c \<le> 2 ^ 63" using read_digits_ge [of "10 * x + digit_val c" ds] Cons.prems(3) by simp
  then have "x \<le> 2 ^ 63 div 10" "x * 10 + digit_val c \<le> 2 ^ 63" by simp_all
  with Cons show ?case by (simp add: Let_def mult.commute)
qed

text \<open>A number of seconds printed with its unit is that duration, as long as it fits.\<close>

theorem parse_duration_seconds:
  "int n * 1000000000 < 2 ^ 63 \<Longrightarrow> parse_duration (show_nat n @ ''s'') = Some (int n * 1000000000)"
proof -
  assume b: "int n * 1000000000 < 2 ^ 63"
  define ds where "ds = show_nat n"
  have ds: "ds \<noteq> []" "list_all is_digit ds" unfolding ds_def by (simp, rule is_digit_show_nat)
  have small: "n * 1000000000 < 2 ^ 63" "n \<le> 9223372036" using b by simp_all
  have "read_digits ds 0 = n" unfolding ds_def by (rule read_show_nat)
  then have li: "leading_int 0 (ds @ ''s'') = Some (n, ''s'')"
    using leading_int_digits [OF ds(2), of "''s''" 0] small by (simp add: is_digit_def)
  have hd: "is_digit (hd ds)" using ds by (cases ds) auto
  then have num: "numeric_char (hd (ds @ ''s''))" using ds(1) by (simp add: numeric_char_def)
  have u: "map_of unit_table ''s'' = Some 1000000000" "\<not> numeric_char (CHR ''s'')"
    by (simp_all add: unit_table_def numeric_char_def is_digit_def)
  have t: "duration_term (ds @ ''s'') = Some (n * 1000000000, [])"
    using li num small u ds(1) by (simp add: duration_term_def Let_def)
  have "sum_terms 0 (ds @ ''s'') = Some (n * 1000000000)"
    using t small by (simp add: sum_terms.simps [of 0 "ds @ ''s''"] sum_terms.simps [of _ "[]"] Let_def)
  moreover have "hd ds \<noteq> CHR ''-''" "hd ds \<noteq> CHR ''+''" using hd by (auto simp: is_digit_def)
  moreover have "ds @ ''s'' \<noteq> ''0''" using ds(1) by (cases ds) auto
  ultimately have "parse_duration (ds @ ''s'') = Some (int (n * 1000000000))"
    using ds(1) small by (simp add: parse_duration_def Let_def)
  then show ?thesis by (simp add: ds_def)
qed

text \<open>The helper \<open>envOr\<close> the services share: a variable of the environment, or its default when it is empty.\<close>

definition env_or :: "(string \<Rightarrow> string) \<Rightarrow> string \<Rightarrow> string \<Rightarrow> string" where
  "env_or env key fallback = (if env key \<noteq> [] then env key else fallback)"

end
