(* ===== verification/EngineService.thy ===== *)
theory EngineService
  imports GoDuration Pipeline
begin

text \<open>
  The detection engine as a service (\<open>detection-engine/cmd/detection-engine/main.go\<close>): what its environment configures, the
  tickers its loops start, and the HTTP interface with its middleware around the pipeline of theory \<open>Pipeline\<close>. A file is
  its content, \<open>None\<close> when it cannot be read; a body is what the JSON decoder makes of it.
\<close>

subsection \<open>The environment\<close>

definition parseDuration :: "string \<Rightarrow> duration \<Rightarrow> duration" where
  "parseDuration s fallback = (case parse_duration s of None \<Rightarrow> fallback | Some d \<Rightarrow> d)"

definition minutes :: "int \<Rightarrow> duration" where [simp]: "minutes n = n * 60000000000"

definition engine_settings :: "environment \<Rightarrow> (string \<Rightarrow> string option) \<Rightarrow> settings" where
  "engine_settings env read_file =
     \<lparr> st_static = read_file (envOr env ''THREATLIST_PATH'' ''/etc/detection-engine/domains.txt''),
       st_ttl = parseDuration (envOr env ''FEEDBACK_SUPPRESSION_TTL'' ''720h'') DefaultSuppressionTTL,
       st_sink = (env ''CLICKHOUSE_URL'' \<noteq> []),
       st_window = parseDuration (envOr env ''COMPOSITE_WINDOW'' ''15m'') (minutes 15),
       st_localNets = split_on (CHR '','') (envOr env ''LOCAL_NETWORKS'' (join '','' DefaultLocalCIDRs)) \<rparr>"

text \<open>The intervals of the tickers the loops of a configured service start: polling, indicator feed, sensor streams.\<close>

definition engine_tickers :: "environment \<Rightarrow> duration list" where
  "engine_tickers env =
     [parseDuration (envOr env ''POLL_INTERVAL'' ''30s'') 30000000000]
     @ (if env ''THREAT_INTEL_URL'' \<noteq> [] then [parseDuration (envOr env ''IOC_SYNC_INTERVAL'' ''5m'') (minutes 5)] else [])
     @ (if env ''CLICKHOUSE_URL'' \<noteq> [] then replicate 5 (parseDuration (envOr env ''SENSOR_POLL_INTERVAL'' ''30s'') 30000000000) else [])"

text \<open>\<open>time.NewTicker\<close> panics for an interval that is not positive, and a panic of a goroutine ends the process.\<close>

definition engine_panics :: "environment \<Rightarrow> bool" where
  "engine_panics env \<longleftrightarrow> list_ex (\<lambda>d. d \<le> 0) (engine_tickers env)"

subsection \<open>HTTP\<close>

record de_request =
  dr_method :: string
  dr_path :: string
  dr_authorization :: string
  dr_actor :: string
  dr_verdict :: "verdict option"

datatype de_response = DeOK | DeAlerts "alert list" | DeVerdicts "verdict list" | DeStatus int

definition de_authorized :: "string \<Rightarrow> de_request \<Rightarrow> bool" where
  "de_authorized apiKey r \<longleftrightarrow>
     dr_method r = ''GET'' \<or> apiKey = [] \<or> has_prefix (dr_authorization r) ''Bearer '' \<and> drop (length ''Bearer '') (dr_authorization r) = apiKey"

definition de_mux :: "instant \<Rightarrow> de_request \<Rightarrow> pipeline \<Rightarrow> de_response \<times> pipeline" where
  "de_mux now r p =
     (let get = (dr_method r = ''GET'' \<or> dr_method r = ''HEAD'')
      in if get \<and> (dr_path r = ''/healthz'' \<or> dr_path r = ''/metrics'') then (DeOK, p)
         else if get \<and> dr_path r = ''/alerts'' then (DeAlerts (en_alerts (pl_engine p)), p)
         else if dr_method r = ''POST'' \<and> dr_path r = ''/feedback'' then
           (case HandleFeedback now (dr_verdict r) (dr_actor r) (pl_feedback p) of
              (status, _, fb) \<Rightarrow> (DeStatus status, p \<lparr> pl_feedback := fb \<rparr>))
         else if get \<and> dr_path r = ''/feedback'' then (DeVerdicts (Active now (pl_feedback p)), p)
         else (DeStatus 404, p))"

definition de_serve :: "string \<Rightarrow> instant \<Rightarrow> de_request \<Rightarrow> pipeline \<Rightarrow> de_response \<times> pipeline" where
  "de_serve apiKey now r p = (if de_authorized apiKey r then de_mux now r p else (DeStatus 401, p))"

text \<open>The service: a verdict comes in through a request only, everything else is an event of the pipeline.\<close>

datatype de_op = Inner pipe_op | Request instant de_request

fun de_step :: "string \<Rightarrow> de_op \<Rightarrow> pipeline \<Rightarrow> pipeline" where
  "de_step apiKey (Inner (FeedbackP now body actor)) p = p"
| "de_step apiKey (Inner op) p = pipe_step op p"
| "de_step apiKey (Request now r) p = snd (de_serve apiKey now r p)"

subsection \<open>Who can silence a detection\<close>

text \<open>The verdict a request records: the header names its analyst, and a missing time is the present.\<close>

definition recorded :: "instant \<Rightarrow> de_request \<Rightarrow> verdict \<Rightarrow> verdict" where
  "recorded now r v0 =
     (let v = (if dr_actor r \<noteq> [] then v0 \<lparr> vd_Analyst := dr_actor r \<rparr> else v0)
      in if vd_Timestamp v = zero_time then v \<lparr> vd_Timestamp := now \<rparr> else v)"

definition installs :: "string \<Rightarrow> verdict \<Rightarrow> de_op \<Rightarrow> bool" where
  "installs apiKey v op \<longleftrightarrow>
     (\<exists>now r v0. op = Request now r \<and> dr_method r = ''POST'' \<and> dr_path r = ''/feedback'' \<and> de_authorized apiKey r
        \<and> dr_verdict r = Some v0 \<and> v = recorded now r v0)
     \<or> (\<exists>now rows. op = Inner (ReplayP now rows) \<and> v \<in> set rows)"

lemma fb_from_mono: "fb_from H s \<Longrightarrow> H \<subseteq> H' \<Longrightarrow> fb_from H' s"
  by (auto simp: fb_from_def)

lemma fb_from_Suppressed: "fb_from H s \<Longrightarrow> fb_from H (snd (Suppressed now a s))"
  using fb_from_step [of H s "AskOp now a"] by simp

lemma fb_from_on_alert: "fb_from H (pl_feedback p) \<Longrightarrow> fb_from H (pl_feedback (on_alert now a p))"
proof -
  assume h: "fb_from H (pl_feedback p)"
  obtain b fb where s: "Suppressed now a (pl_feedback p) = (b, fb)" by fastforce
  then have fb: "fb_from H fb" using fb_from_Suppressed [OF h, of now a] by simp
  have "fb_from H (snd (Suppressed now c fb))" for c using fb by (rule fb_from_Suppressed)
  then have "fb_from H (pl_feedback (emit_composite now c q))" if "pl_feedback q = fb" for c q
    using that by (simp add: emit_composite_def forward_def split: prod.split bool.split) (metis snd_conv)
  with s fb show ?thesis
    by (auto simp: on_alert_def Let_def forward_def split: prod.splits bool.splits option.splits)
qed

lemma fb_from_engine: "fb_from H (pl_feedback p) \<Longrightarrow> fb_from H (pl_feedback (run_engine now r p))"
proof -
  have step: "fb_from H (pl_feedback q) \<Longrightarrow> fb_from H (pl_feedback (run_callback now c q))" for c q
    by (cases c) (simp_all add: fb_from_on_alert)
  have "fb_from H (pl_feedback q) \<Longrightarrow> fb_from H (pl_feedback (fold (run_callback now) cs q))" for cs q
    by (induction cs arbitrary: q) (simp_all add: step)
  then show "fb_from H (pl_feedback p) \<Longrightarrow> fb_from H (pl_feedback (run_engine now r p))"
    by (simp add: run_engine_def)
qed

lemma fb_from_HandleFeedback:
  assumes "fb_from H s" and "\<And>v0. dr_verdict r = Some v0 \<Longrightarrow> recorded now r v0 \<in> H"
  shows "fb_from H (snd (snd (HandleFeedback now (dr_verdict r) (dr_actor r) s)))"
proof (cases "dr_verdict r")
  case (Some v0)
  define v where "v = (if dr_actor r \<noteq> [] then v0 \<lparr> vd_Analyst := dr_actor r \<rparr> else v0)"
  have "recorded now r v0 \<in> H" using assms(2) Some by simp
  then have "fb_from H (snd (snd (Record now v s)))"
    using fb_from_step [of H s "RecordOp now v"] assms(1) by (simp add: recorded_def v_def [symmetric] Let_def)
  then show ?thesis by (auto simp: HandleFeedback_def Some v_def [symmetric] Let_def split: prod.splits option.splits)
qed (simp add: HandleFeedback_def assms(1))

lemma fb_from_pipe:
  assumes "fb_from H (pl_feedback p)" and "\<And>now body actor. op \<noteq> FeedbackP now body actor"
    and "\<And>now rows. op = ReplayP now rows \<Longrightarrow> set rows \<subseteq> H"
  shows "fb_from H (pl_feedback (pipe_step op p))"
proof (cases op)
  case (ReplayP now rows)
  then show ?thesis using assms(1,3) by (simp add: LoadInto_def fb_from_load)
qed (use assms fb_from_engine in \<open>auto split: prod.splits option.splits\<close>)

lemma fb_from_de_step:
  assumes "fb_from H (pl_feedback p)" and "\<And>v. installs apiKey v op \<Longrightarrow> v \<in> H"
  shows "fb_from H (pl_feedback (de_step apiKey op p))"
proof (cases op)
  case (Inner i)
  show ?thesis
  proof (cases "\<exists>now body actor. i = FeedbackP now body actor")
    case False
    then have "de_step apiKey op p = pipe_step i p" using Inner by (cases i) simp_all
    moreover have "set rows \<subseteq> H" if "i = ReplayP now rows" for now rows
      using that assms(2) Inner by (auto simp: installs_def)
    ultimately show ?thesis using fb_from_pipe [OF assms(1)] False by simp
  qed (use Inner assms(1) in auto)
next
  case (Request now r)
  have "fb_from H (snd (snd (HandleFeedback now (dr_verdict r) (dr_actor r) (pl_feedback p))))"
    if "dr_method r = ''POST''" "dr_path r = ''/feedback''" "de_authorized apiKey r"
    using that assms(2) Request by (intro fb_from_HandleFeedback [OF assms(1)]) (auto simp: installs_def)
  then show ?thesis using assms(1) Request by (auto simp: de_serve_def de_mux_def Let_def case_prod_beta)
qed


definition sample_feedback :: "string \<Rightarrow> de_request" where
  "sample_feedback auth = \<lparr> dr_method = ''POST'', dr_path = ''/feedback'', dr_authorization = auth, dr_actor = [],
     dr_verdict = Some (sample_verdict ''evil.com'' ''false_positive'' 5) \<rparr>"

definition sample_settings :: settings where
  "sample_settings = \<lparr> st_static = None, st_ttl = 0, st_sink = False, st_window = 0, st_localNets = [] \<rparr>"

definition sample_ops :: "de_op list" where
  "sample_ops = [Request 5 (sample_feedback ''Bearer wrong''), Request 6 (sample_feedback ''Bearer key'')]"

lemma sample_silenced:
  "mget (fb_suppressions (pl_feedback (fold (de_step ''key'') sample_ops (start_pipeline 0 sample_settings)))) ''evil.com|''
     = Some (sample_verdict ''evil.com'' ''false_positive'' 5)"
  by code_simp


subsection \<open>What the environment can break\<close>

lemma parseDuration_default: "parse_duration def \<noteq> None \<Longrightarrow>
    parseDuration (envOr env key def) fallback \<le> 0 \<longleftrightarrow>
      (if env key = [] then the (parse_duration def) \<le> 0
       else case parse_duration (env key) of None \<Rightarrow> fallback \<le> 0 | Some d \<Rightarrow> d \<le> 0)"
  by (auto simp: parseDuration_def envOr_def Let_def split: option.splits)

text \<open>Whether a variable holds a duration that is zero or negative.\<close>

definition not_positive :: "environment \<Rightarrow> string \<Rightarrow> bool" where
  "not_positive env key \<longleftrightarrow> env key \<noteq> [] \<and> (\<exists>d \<le> 0. parse_duration (env key) = Some d)"

lemma default_durations: "parse_duration ''30s'' = Some 30000000000" "parse_duration ''5m'' = Some 300000000000"
  "parse_duration ''15m'' = Some 900000000000" "parse_duration ''720h'' = Some 2592000000000000"
  by code_simp+

lemma list_ex_replicate: "list_ex P (replicate n x) \<longleftrightarrow> n \<noteq> 0 \<and> P x"
  by (induction n) auto


end
