(* ===== verification/TiStore.thy ===== *)
theory TiStore
  imports GoIP
begin

text \<open>
  The indicator store of the threat-intelligence service (\<open>threat-intel-sync/internal/ioc\<close>): the indicator and how
  two sightings merge (\<open>indicator.go\<close>), the validation at the trust boundary (\<open>validate.go\<close>), and the store with
  its expiry (\<open>store.go\<close>). The mutex makes every operation atomic. Log lines are not modelled; the order in
  which a Go map is ranged over is that of the association list.
\<close>

definition TypeDomain :: string where [simp]: "TypeDomain = ''domain''"
definition TypeIP :: string where [simp]: "TypeIP = ''ip''"
definition TypeURL :: string where [simp]: "TypeURL = ''url''"
definition TypeMD5 :: string where [simp]: "TypeMD5 = ''md5''"
definition TypeSHA256 :: string where [simp]: "TypeSHA256 = ''sha256''"
definition TypeJA3 :: string where [simp]: "TypeJA3 = ''ja3''"
definition TypeTLSFP :: string where [simp]: "TypeTLSFP = ''tlsfp''"
definition TypeCertSHA1 :: string where [simp]: "TypeCertSHA1 = ''cert-sha1''"
definition TypeCertSHA256 :: string where [simp]: "TypeCertSHA256 = ''cert-sha256''"

record indicator =
  in_Type :: string
  in_Value :: string
  in_Source :: string
  in_Threat :: string
  in_Confidence :: int
  in_FirstSeen :: instant
  in_LastSeen :: instant
  in_Tags :: "string list"
  in_Reference :: string

definition Key :: "indicator \<Rightarrow> string" where
  "Key i = in_Type i @ '':'' @ to_lower (in_Value i)"

text \<open>The tags of the first, then those of the second that are not among them.\<close>

definition mergeTags :: "string list \<Rightarrow> string list \<Rightarrow> string list" where
  "mergeTags a b = a @ filter (\<lambda>t. t \<notin> set a) b"

text \<open>Each field of the receiver is updated on its own; a zero \<open>Time\<close> is no date.\<close>

definition Merge :: "indicator \<Rightarrow> indicator \<Rightarrow> indicator" where
  "Merge i other = i \<lparr>
     in_Confidence := (if in_Confidence other > in_Confidence i then in_Confidence other else in_Confidence i),
     in_FirstSeen := (if in_FirstSeen other \<noteq> zero_time \<and> (in_FirstSeen i = zero_time \<or> in_FirstSeen other < in_FirstSeen i)
                      then in_FirstSeen other else in_FirstSeen i),
     in_LastSeen := (if in_LastSeen other > in_LastSeen i then in_LastSeen other else in_LastSeen i),
     in_Threat := (if in_Threat i = [] \<and> in_Threat other \<noteq> [] then in_Threat other else in_Threat i),
     in_Reference := (if in_Reference i = [] \<and> in_Reference other \<noteq> [] then in_Reference other else in_Reference i),
     in_Source := (if \<not> contains_sub (in_Source i) (in_Source other) then in_Source i @ '','' @ in_Source other else in_Source i),
     in_Tags := mergeTags (in_Tags i) (in_Tags other) \<rparr>"

subsection \<open>Validation\<close>

definition minDomainLabels :: nat where [simp]: "minDomainLabels = 2"

definition publicSuffixes_ti :: "string list" where
  "publicSuffixes_ti =
    [''com'', ''net'', ''org'', ''edu'', ''gov'', ''mil'',
     ''int'', ''info'', ''biz'', ''name'', ''pro'', ''app'',
     ''dev'', ''io'', ''co'', ''me'', ''tv'', ''cc'',
     ''xyz'', ''top'', ''online'', ''site'', ''shop'', ''cloud'',
     ''live'', ''icu'', ''vip'', ''pl'', ''de'', ''uk'',
     ''fr'', ''nl'', ''it'', ''es'', ''cz'', ''sk'',
     ''ru'', ''ua'', ''eu'', ''us'', ''ca'', ''cn'',
     ''jp'', ''br'', ''in'', ''au'', ''ch'', ''at'',
     ''be'', ''se'', ''no'', ''dk'', ''fi'', ''ie'',
     ''pt'', ''co.uk'', ''org.uk'', ''gov.uk'', ''ac.uk'', ''me.uk'',
     ''com.au'', ''net.au'', ''org.au'', ''com.br'', ''com.cn'', ''co.jp'',
     ''com.pl'', ''net.pl'', ''org.pl'', ''gov.pl'', ''co.nz'', ''co.za'',
     ''com.mx'', ''com.tr'', ''co.in'', ''duckdns.org'', ''no-ip.org'', ''ddns.net'',
     ''dyndns.org'', ''hopto.org'', ''zapto.org'', ''ngrok.io'', ''herokuapp.com'', ''azurewebsites.net'',
     ''cloudfront.net'', ''amazonaws.com'', ''firebaseapp.com'', ''web.app'', ''pages.dev'', ''workers.dev'',
     ''github.io'', ''netlify.app'', ''vercel.app'', ''glitch.me'']"

datatype reject = EmptyValue | EmptyDomain | DomainTooLong | IllegalCharacters string | TooBroad string nat
  | MalformedLabel string string | PublicSuffix string | InvalidCIDR string | CatchAll string | InvalidIP string
  | LocalAddress string | URLTooLong | FingerprintSpace | UnknownType string | BadConfidence int

definition illegal_domain_chars :: string where
  "illegal_domain_chars = [CHR '' '', CHR 0x09, CHR 0x0D, CHR 0x0A, CHR ''/'', CHR 0x5C, CHR ''?'', CHR ''#'', CHR ''@'', CHR '':'']"

definition bad_label :: "string \<Rightarrow> bool" where
  "bad_label l = (l = [] \<or> length l > 63 \<or> has_prefix l ''-'' \<or> has_suffix l ''-'')"

definition validateDomain_ti :: "string \<Rightarrow> reject + string" where
  "validateDomain_ti value =
     (let d = trim_prefix (trim_suffix (to_lower value) ''.'') ''*.'' in
      if d = [] then Inl EmptyDomain
      else if length d > 253 then Inl DomainTooLong
      else if contains_any d illegal_domain_chars then Inl (IllegalCharacters value)
      else let labels = split_on (CHR ''.'') d in
        if length labels < minDomainLabels then Inl (TooBroad d (length labels))
        else case List.find bad_label labels of
            Some l \<Rightarrow> Inl (MalformedLabel d l)
          | None \<Rightarrow> if d \<in> set publicSuffixes_ti then Inl (PublicSuffix d) else Inr d)"

definition validateIP :: "string \<Rightarrow> reject + string" where
  "validateIP value =
     (let v = trim_space value in
      if contains_char v (CHR ''/'') then
        (case parse_cidr v of
           None \<Rightarrow> Inl (InvalidCIDR value)
         | Some (ipnet, ones, bits) \<Rightarrow>
             if ones = 0 \<and> bits > 0 then Inl (CatchAll value) else Inr (ipnet_string ipnet))
      else
        let host = (case split_host_port v of Some (h, _) \<Rightarrow> h | None \<Rightarrow> v) in
        case parse_ip host of
          None \<Rightarrow> Inl (InvalidIP value)
        | Some a \<Rightarrow> if is_loopback a \<or> is_unspecified a then Inl (LocalAddress value) else Inr (addr_string a))"

definition checkConfidence :: "indicator \<Rightarrow> reject + indicator" where
  "checkConfidence i = (if in_Confidence i < 0 \<or> in_Confidence i > 100 then Inl (BadConfidence (in_Confidence i)) else Inr i)"

definition Validate :: "indicator \<Rightarrow> reject + indicator" where
  "Validate i0 =
     (let i = i0 \<lparr> in_Value := trim_space (in_Value i0) \<rparr> in
      if in_Value i = [] then Inl EmptyValue
      else if in_Type i = TypeDomain then
        (case validateDomain_ti (in_Value i) of Inl e \<Rightarrow> Inl e | Inr v \<Rightarrow> checkConfidence (i \<lparr> in_Value := v \<rparr>))
      else if in_Type i = TypeIP then
        (case validateIP (in_Value i) of Inl e \<Rightarrow> Inl e | Inr v \<Rightarrow> checkConfidence (i \<lparr> in_Value := v \<rparr>))
      else if in_Type i = TypeURL then
        (if length (in_Value i) > 2048 then Inl URLTooLong else checkConfidence i)
      else if in_Type i \<in> {TypeMD5, TypeSHA256, TypeJA3, TypeTLSFP, TypeCertSHA1, TypeCertSHA256} then
        (let i = i \<lparr> in_Value := to_lower (in_Value i) \<rparr> in
         if contains_any (in_Value i) [CHR '' '', CHR 0x09, CHR 0x0D, CHR 0x0A] then Inl FingerprintSpace else checkConfidence i)
      else Inl (UnknownType (in_Type i)))"

subsection \<open>The store\<close>

type_synonym ti_store = "(string, indicator) gomap"

definition NewStore_ti :: ti_store where
  "NewStore_ti = []"

definition Upsert_ti :: "indicator \<Rightarrow> ti_store \<Rightarrow> ti_store" where
  "Upsert_ti i s =
     (case mget s (Key i) of Some existing \<Rightarrow> mput (Key i) (Merge existing i) s | None \<Rightarrow> mput (Key i) i s)"

fun UpsertAll :: "indicator list \<Rightarrow> ti_store \<Rightarrow> (nat \<times> nat) \<times> ti_store" where
  "UpsertAll [] s = ((0, 0), s)"
| "UpsertAll (i # inds) s =
     (case Validate i of
        Inl e \<Rightarrow> (case UpsertAll inds s of ((a, r), s') \<Rightarrow> ((a, Suc r), s'))
      | Inr valid \<Rightarrow> (case UpsertAll inds (Upsert_ti valid s) of ((a, r), s') \<Rightarrow> ((Suc a, r), s')))"

definition stamp :: "indicator \<Rightarrow> instant" where
  "stamp i = (if in_LastSeen i = zero_time then in_FirstSeen i else in_LastSeen i)"

definition stale :: "instant \<Rightarrow> indicator \<Rightarrow> bool" where
  "stale cutoff i \<longleftrightarrow> stamp i \<noteq> zero_time \<and> stamp i < cutoff"

definition PruneBefore :: "instant \<Rightarrow> ti_store \<Rightarrow> nat \<times> ti_store" where
  "PruneBefore cutoff s = (length (filter (\<lambda>(k, i). stale cutoff i) s), filter (\<lambda>(k, i). \<not> stale cutoff i) s)"

definition All :: "ti_store \<Rightarrow> indicator list" where
  "All s = List.map snd s"

definition ByType :: "string \<Rightarrow> ti_store \<Rightarrow> indicator list" where
  "ByType t s = filter (\<lambda>i. in_Type i = t) (List.map snd s)"

definition Len_ti :: "ti_store \<Rightarrow> nat" where
  "Len_ti s = length s"

definition Clear :: "ti_store \<Rightarrow> ti_store" where
  "Clear s = []"

subsection \<open>What is stored is usable\<close>

definition usable_domain :: "string \<Rightarrow> bool" where
  "usable_domain d \<longleftrightarrow> length d \<le> 253 \<and> \<not> contains_any d illegal_domain_chars \<and> 2 \<le> length (split_on (CHR ''.'') d)
     \<and> list_all (\<lambda>l. \<not> bad_label l) (split_on (CHR ''.'') d) \<and> d \<notin> set publicSuffixes_ti"

definition usable_ip :: "string \<Rightarrow> bool" where
  "usable_ip v \<longleftrightarrow> (\<exists>a. v = addr_string a \<and> \<not> is_loopback a \<and> \<not> is_unspecified a) \<or> (\<exists>n. v = ipnet_string n)"

definition fingerprint_types :: "string set" where
  "fingerprint_types = {TypeMD5, TypeSHA256, TypeJA3, TypeTLSFP, TypeCertSHA1, TypeCertSHA256}"

definition usable_value :: "string \<Rightarrow> string \<Rightarrow> bool" where
  "usable_value t v \<longleftrightarrow> t = TypeDomain \<and> usable_domain v \<or> t = TypeIP \<and> usable_ip v \<or> t = TypeURL \<and> length v \<le> 2048
     \<or> t \<in> fingerprint_types \<and> \<not> contains_any v [CHR '' '', CHR 0x09, CHR 0x0D, CHR 0x0A]"

definition usable :: "indicator \<Rightarrow> bool" where
  "usable i \<longleftrightarrow> 0 \<le> in_Confidence i \<and> in_Confidence i \<le> 100 \<and> usable_value (in_Type i) (in_Value i)"

lemma validateDomain_ti_usable:
  assumes "validateDomain_ti v = Inr d"
  shows "usable_domain d"
proof -
  define e where "e = trim_prefix (trim_suffix (to_lower v) ''.'') ''*.''"
  note val = assms [unfolded validateDomain_ti_def Let_def, folded e_def]
  have 1: "e \<noteq> []" "\<not> 253 < length e" "\<not> contains_any e illegal_domain_chars" "\<not> length (split_on (CHR ''.'') e) < minDomainLabels"
    using val by (force split: if_splits)+
  note val = val [simplified 1 if_False]
  then have f: "List.find bad_label (split_on (CHR ''.'') e) = None" by (cases "List.find bad_label (split_on (CHR ''.'') e)") simp_all
  note val = val [unfolded f option.case]
  then have "e \<notin> set publicSuffixes_ti" "e = d" by (auto split: if_splits)
  with 1 f show ?thesis by (simp add: usable_domain_def find_None_iff list_all_iff)
qed

lemma validateIP_usable: "validateIP v = Inr w \<Longrightarrow> usable_ip w"
  by (auto simp: validateIP_def usable_ip_def Let_def split: if_splits option.splits prod.splits)

lemma checkConfidence_Inr: "checkConfidence i = Inr j \<longleftrightarrow> j = i \<and> 0 \<le> in_Confidence i \<and> in_Confidence i \<le> 100"
  by (auto simp: checkConfidence_def)

text \<open>Validation changes the value only.\<close>

lemma Validate_Inr:
  assumes "Validate i = Inr v"
  shows "usable v \<and> (\<exists>w. v = i \<lparr> in_Value := w \<rparr>)"
proof -
  let ?i = "i \<lparr> in_Value := trim_space (in_Value i) \<rparr>"
  consider "in_Type i = TypeDomain" | "in_Type i = TypeIP" | "in_Type i = TypeURL" | "in_Type i \<in> fingerprint_types"
    using assms by (auto simp: Validate_def Let_def fingerprint_types_def split: if_splits)
  then show ?thesis
  proof cases
    case 1
    with assms obtain d where d: "validateDomain_ti (trim_space (in_Value i)) = Inr d" "checkConfidence (?i \<lparr> in_Value := d \<rparr>) = Inr v"
      by (auto simp: Validate_def Let_def split: if_splits sum.splits)
    with 1 show ?thesis using validateDomain_ti_usable by (auto simp: checkConfidence_Inr usable_def usable_value_def)
  next
    case 2
    with assms obtain d where d: "validateIP (trim_space (in_Value i)) = Inr d" "checkConfidence (?i \<lparr> in_Value := d \<rparr>) = Inr v"
      by (auto simp: Validate_def Let_def split: if_splits sum.splits)
    with 2 show ?thesis using validateIP_usable by (auto simp: checkConfidence_Inr usable_def usable_value_def)
  next
    case 3
    with assms show ?thesis by (auto simp: Validate_def Let_def checkConfidence_Inr usable_def usable_value_def split: if_splits)
  next
    case 4
    with assms show ?thesis
      by (auto simp: Validate_def Let_def checkConfidence_Inr usable_def usable_value_def fingerprint_types_def split: if_splits)
  qed
qed

lemma Merge_fields [simp]:
  "in_Type (Merge i j) = in_Type i" "in_Value (Merge i j) = in_Value i"
  "in_Confidence (Merge i j) = max (in_Confidence i) (in_Confidence j)"
  "in_LastSeen (Merge i j) = max (in_LastSeen i) (in_LastSeen j)"
  "in_Tags (Merge i j) = mergeTags (in_Tags i) (in_Tags j)"
  "in_FirstSeen (Merge i j) = (if in_FirstSeen j \<noteq> zero_time \<and> (in_FirstSeen i = zero_time \<or> in_FirstSeen j < in_FirstSeen i)
     then in_FirstSeen j else in_FirstSeen i)"
  by (simp_all add: Merge_def)

lemma usable_Merge: "usable i \<Longrightarrow> usable j \<Longrightarrow> usable (Merge i j)"
  by (auto simp: usable_def le_max_iff_disj)

lemma Key_Merge [simp]: "Key (Merge i j) = Key i"
  by (simp add: Key_def)

definition ti_ok :: "ti_store \<Rightarrow> bool" where
  "ti_ok s \<longleftrightarrow> mwf s \<and> (\<forall>k i. mget s k = Some i \<longrightarrow> Key i = k \<and> usable i)"

lemma ti_ok_Upsert: "ti_ok s \<Longrightarrow> usable i \<Longrightarrow> ti_ok (Upsert_ti i s)"
  by (auto simp: Upsert_ti_def ti_ok_def mget_put usable_Merge split: option.splits if_splits)

text \<open>A batch is the upserts of the rows that validate, in order.\<close>

definition accepted :: "indicator list \<Rightarrow> indicator list" where
  "accepted inds = List.map_filter (\<lambda>i. case Validate i of Inl e \<Rightarrow> None | Inr v \<Rightarrow> Some v) inds"

lemma accepted_simps [simp]:
  "accepted [] = []"
  "accepted (i # inds) = (case Validate i of Inl e \<Rightarrow> accepted inds | Inr v \<Rightarrow> v # accepted inds)"
  by (simp_all add: accepted_def map_filter_simps split: sum.split)

lemma length_accepted: "length (accepted inds) \<le> length inds"
  by (induction inds) (auto split: sum.split)

lemma UpsertAll_eq:
  "UpsertAll inds s = ((length (accepted inds), length inds - length (accepted inds)), fold Upsert_ti (accepted inds) s)"
  using length_accepted by (induction inds arbitrary: s) (auto simp: Suc_diff_le split: sum.split prod.split)

lemma usable_accepted: "v \<in> set (accepted inds) \<Longrightarrow> usable v"
  by (induction inds) (auto dest: Validate_Inr split: sum.splits)

lemma ti_ok_upserts: "ti_ok s \<Longrightarrow> \<forall>v \<in> set vs. usable v \<Longrightarrow> ti_ok (fold Upsert_ti vs s)"
  by (induction vs arbitrary: s) (auto intro: ti_ok_Upsert)

lemma ti_ok_UpsertAll: "ti_ok s \<Longrightarrow> ti_ok (snd (UpsertAll inds s))"
  using ti_ok_upserts [of s "accepted inds"] usable_accepted UpsertAll_eq [of inds s] by simp

lemma mget_filter: "mwf m \<Longrightarrow> mget (filter (\<lambda>(k, v). P v) m) k = (case mget m k of Some v \<Rightarrow> if P v then Some v else None | None \<Rightarrow> None)"
proof (induction m)
  case (Cons p m)
  have "mget (filter (\<lambda>(k, v). P v) m) k = None" if "k \<notin> fst ` set m"
    using that by (auto simp: map_of_eq_None_iff)
  with Cons show ?case by (cases p) (auto simp: mwf_def map_of_eq_None_iff split: option.splits)
qed simp

lemma mget_Prune: "mwf s \<Longrightarrow> mget (snd (PruneBefore c s)) k
    = (case mget s k of Some i \<Rightarrow> if stale c i then None else Some i | None \<Rightarrow> None)"
  using mget_filter [of s "\<lambda>i. \<not> stale c i" k] by (simp add: PruneBefore_def split: option.splits)

lemma ti_ok_Prune: "ti_ok s \<Longrightarrow> ti_ok (snd (PruneBefore c s))"
  unfolding ti_ok_def using mget_Prune [of s c]
  by (auto simp: PruneBefore_def mwf_filter split: option.splits if_splits)

subsection \<open>What the sightings of one indicator add up to\<close>

definition sightings :: "string \<Rightarrow> indicator list \<Rightarrow> indicator list" where
  "sightings k inds = filter (\<lambda>v. Key v = k) (accepted inds)"

lemma mget_Upsert: "mget (Upsert_ti v s) k =
    (if Key v = k then Some (case mget s k of None \<Rightarrow> v | Some e \<Rightarrow> Merge e v) else mget s k)"
  by (auto simp: Upsert_ti_def mget_put split: option.split)

lemma mget_upserts: "mget (fold Upsert_ti vs s) k =
    fold (\<lambda>v o'. Some (case o' of None \<Rightarrow> v | Some e \<Rightarrow> Merge e v)) (filter (\<lambda>v. Key v = k) vs) (mget s k)"
  by (induction vs arbitrary: s) (auto simp: mget_Upsert)

lemma fold_merge: "fold (\<lambda>v o'. Some (case o' of None \<Rightarrow> v | Some e \<Rightarrow> Merge e v)) vs (Some e) = Some (fold (\<lambda>v e. Merge e v) vs e)"
  by (induction vs arbitrary: e) auto

lemma mget_sightings: "mget (snd (UpsertAll inds [])) k =
    (case sightings k inds of [] \<Rightarrow> None | v # vs \<Rightarrow> Some (fold (\<lambda>v e. Merge e v) vs v))"
  by (simp add: UpsertAll_eq mget_upserts sightings_def fold_merge split: list.split)

text \<open>The earliest of the dates that are set.\<close>

definition earliest :: "instant list \<Rightarrow> instant" where
  "earliest ts = (let ds = filter (\<lambda>t. t \<noteq> zero_time) ts in if ds = [] then zero_time else Min (set ds))"

definition sums_up :: "indicator list \<Rightarrow> indicator \<Rightarrow> bool" where
  "sums_up vs i \<longleftrightarrow> vs \<noteq> [] \<and> in_Confidence i = Max (in_Confidence ` set vs) \<and> in_LastSeen i = Max (in_LastSeen ` set vs)
     \<and> in_FirstSeen i = earliest (List.map in_FirstSeen vs) \<and> set (in_Tags i) = (\<Union>v \<in> set vs. set (in_Tags v))"

lemma earliest_snoc: "earliest (ts @ [t]) = (if t \<noteq> zero_time \<and> (earliest ts = zero_time \<or> t < earliest ts) then t else earliest ts)"
proof (cases "filter (\<lambda>t. t \<noteq> zero_time) ts = []")
  case True
  then show ?thesis by (simp add: earliest_def Let_def)
next
  case False
  have "earliest ts \<in> set (filter (\<lambda>t. t \<noteq> zero_time) ts)" unfolding earliest_def Let_def if_not_P [OF False]
    by (rule Min_in) (use False in \<open>simp_all del: set_filter\<close>)
  then have nz: "earliest ts \<noteq> zero_time" by simp
  have e: "earliest (ts @ [t]) = (if t = zero_time then earliest ts else min t (earliest ts))"
    using False Min_insert [of "set (filter (\<lambda>t. t \<noteq> zero_time) ts)" t] by (simp add: earliest_def Let_def del: set_filter)
  show ?thesis unfolding e using nz by (auto simp: min_def)
qed

lemma sums_up_one: "sums_up [v] v"
  by (simp add: sums_up_def earliest_def Let_def)

lemma sums_up_snoc: "sums_up vs i \<Longrightarrow> sums_up (vs @ [v]) (Merge i v)"
  by (auto simp: sums_up_def earliest_snoc Max_insert max.commute mergeTags_def)

lemma sums_up_fold: "sums_up us i \<Longrightarrow> sums_up (us @ vs) (fold (\<lambda>v e. Merge e v) vs i)"
proof (induction vs arbitrary: us i)
  case (Cons v vs)
  from Cons.IH [OF sums_up_snoc [OF Cons.prems, of v]] show ?case by simp
qed simp

text \<open>
  Further fact. A batch adds up to the same indicator in any order. After a batch on an empty store, an indicator is
  stored exactly when some row for its key validates, and it carries the greatest confidence, the earliest first
  and the latest last sighting, and the union of the tags of exactly those rows; the counts are the rows that
  validate and those that do not.
\<close>

theorem batch_adds_up:
  "fst (UpsertAll inds []) = (length (accepted inds), length inds - length (accepted inds))
   \<and> (case mget (snd (UpsertAll inds [])) k of None \<Rightarrow> sightings k inds = [] | Some i \<Rightarrow> sums_up (sightings k inds) i)"
proof -
  have "case mget (snd (UpsertAll inds [])) k of None \<Rightarrow> sightings k inds = [] | Some i \<Rightarrow> sums_up (sightings k inds) i"
  proof (cases "sightings k inds")
    case (Cons v vs)
    have "sums_up ([v] @ vs) (fold (\<lambda>v e. Merge e v) vs v)" by (rule sums_up_fold [OF sums_up_one])
    with Cons show ?thesis by (simp add: mget_sightings)
  qed (simp add: mget_sightings)
  then show ?thesis using UpsertAll_eq [of inds "[]"] by simp
qed

end
