(* ===== verification/TiExport.thy ===== *)
theory TiExport
  imports TiStore GoHash "HOL-Library.List_Lexorder" "HOL-Library.Char_ord" "HOL-Library.Multiset"
begin

text \<open>
  What the threat-intelligence service hands out (\<open>threat-intel-sync/internal/export\<close>): the AdGuard filter list, the
  Zeek intelligence file, the Suricata datasets and the CSV table of Vector, as the bytes that are written. \<open>sort.Slice\<close>
  is the stable sort; indicators of equal value and different type may come in either order in the code. The JSON text of
  the ndjson dataset and of \<open>/export/json\<close> is the JSON encoder's: the entries are modelled, not their text.
\<close>

definition nl :: string where [simp]: "nl = [CHR 0x0A]"
definition tab :: string where [simp]: "tab = [CHR 0x09]"

definition write_lines :: "string list \<Rightarrow> string" where
  "write_lines ls = List.concat (List.map (\<lambda>l. l @ nl) ls)"

subsection \<open>AdGuard\<close>

definition adguard_lines :: "indicator list \<Rightarrow> string list" where
  "adguard_lines inds =
     [''! Title: netSoldier Threat Intel'', ''! Entries: '' @ show_nat (length inds),
      ''! Homepage: https://github.com/migel9090/netSoldier'', ''!'']
     @ List.map (\<lambda>i. ''||'' @ in_Value i @ ''^'') (sort_key in_Value inds)"

definition WriteAdGuard :: "indicator list \<Rightarrow> string" where
  "WriteAdGuard inds = write_lines (adguard_lines inds)"

definition HandleAdGuard :: "ti_store \<Rightarrow> string" where
  "HandleAdGuard s = WriteAdGuard (ByType TypeDomain s)"

subsection \<open>Zeek\<close>

definition mapZeekType :: "indicator \<Rightarrow> string" where
  "mapZeekType i =
     (if in_Type i = TypeDomain then ''Intel::DOMAIN''
      else if in_Type i = TypeIP then (if contains_char (in_Value i) (CHR ''/'') then ''Intel::SUBNET'' else ''Intel::ADDR'')
      else if in_Type i = TypeURL then ''Intel::URL''
      else if in_Type i \<in> {TypeMD5, TypeSHA256} then ''Intel::FILE_HASH''
      else if in_Type i \<in> {TypeCertSHA1, TypeCertSHA256} then ''Intel::CERT_HASH''
      else if in_Type i = TypeJA3 then ''Intel::JA3''
      else if in_Type i = TypeTLSFP then ''Intel::TLSFP'' else [])"

definition or_else :: "string \<Rightarrow> string \<Rightarrow> string" where
  "or_else v d = (if v = [] then d else v)"

definition zeek_fields :: "indicator \<Rightarrow> string list" where
  "zeek_fields i = [in_Value i, mapZeekType i, or_else (in_Source i) ''netsoldier'', or_else (in_Threat i) ''-'', or_else (in_Reference i) ''-'']"

definition WriteZeekIntel :: "indicator list \<Rightarrow> string" where
  "WriteZeekIntel inds =
     write_lines (join tab [''#fields'', ''indicator'', ''indicator_type'', ''meta.source'', ''meta.desc'', ''meta.url'']
       # List.map (\<lambda>i. join tab (zeek_fields i)) (filter (\<lambda>i. mapZeekType i \<noteq> []) inds))"

definition HandleZeekIntel :: "ti_store \<Rightarrow> string" where
  "HandleZeekIntel s = WriteZeekIntel (All s)"

subsection \<open>Suricata\<close>

definition b64_alphabet :: string where
  "b64_alphabet = ''ABCDEFGHIJKLMNOPQRSTUVWXYZabcdefghijklmnopqrstuvwxyz0123456789+/''"

definition b64_digit :: "nat \<Rightarrow> nat \<Rightarrow> char" where
  "b64_digit n k = b64_alphabet ! (n div 64 ^ k mod 64)"

text \<open>\<open>base64.StdEncoding\<close>: three bytes are four digits, the last group is padded.\<close>

fun base64 :: "byte list \<Rightarrow> string" where
  "base64 [] = []"
| "base64 [a] = (let n = unat a * 65536 in [b64_digit n 3, b64_digit n 2, CHR ''='', CHR ''=''])"
| "base64 [a, b] = (let n = unat a * 65536 + unat b * 256 in [b64_digit n 3, b64_digit n 2, b64_digit n 1, CHR ''=''])"
| "base64 (a # b # c # rest) =
     (let n = unat a * 65536 + unat b * 256 + unat c
      in [b64_digit n 3, b64_digit n 2, b64_digit n 1, b64_digit n 0] @ base64 rest)"

definition WriteSuricataDataset :: "indicator list \<Rightarrow> bool \<Rightarrow> string" where
  "WriteSuricataDataset inds base64Encode =
     write_lines (List.map (\<lambda>i. if base64Encode then base64 (bytes_of (in_Value i)) else in_Value i) (sort_key in_Value inds))"

definition collectForSuricata :: "ti_store \<Rightarrow> string list \<Rightarrow> indicator list" where
  "collectForSuricata s types =
     List.concat (List.map (\<lambda>t. if t = TypeIP then filter (\<lambda>i. parse_ip (in_Value i) \<noteq> None) (ByType t s) else ByType t s) types)"

definition HandleSuricataDataset :: "ti_store \<Rightarrow> bool \<Rightarrow> string list \<Rightarrow> string" where
  "HandleSuricataDataset s base64Encode types = WriteSuricataDataset (collectForSuricata s types) base64Encode"

definition severityFromConfidence :: "int \<Rightarrow> string" where
  "severityFromConfidence c = (if c \<ge> 80 then ''high'' else if c \<ge> 50 then ''medium'' else if c > 0 then ''low'' else ''unknown'')"

record ndjson_entry =
  nj_key :: string
  nj_value :: string
  nj_source :: string
  nj_severity :: string
  nj_confidence :: int
  nj_threat :: "string option"
  nj_tags :: "string list option"

definition ndjson_entry_of :: "string \<Rightarrow> indicator \<Rightarrow> ndjson_entry" where
  "ndjson_entry_of valueKey i =
     \<lparr> nj_key = valueKey, nj_value = in_Value i, nj_source = in_Source i, nj_severity = severityFromConfidence (in_Confidence i),
       nj_confidence = in_Confidence i, nj_threat = (if in_Threat i \<noteq> [] then Some (in_Threat i) else None),
       nj_tags = (if in_Tags i \<noteq> [] then Some (in_Tags i) else None) \<rparr>"

definition suricataSeedEntries :: "string \<Rightarrow> indicator option" where
  "suricataSeedEntries k =
     (let seed = (\<lambda>v. \<lparr> in_Type = [], in_Value = v, in_Source = ''netsoldier-seed'', in_Threat = [], in_Confidence = 0,
            in_FirstSeen = zero_time, in_LastSeen = zero_time, in_Tags = [], in_Reference = [] \<rparr>)
      in if k = ''domain'' then Some (seed ''sentinel.netsoldier.invalid'') else if k = ''ip'' then Some (seed ''192.0.2.254'') else None)"

definition HandleSuricataJSONDataset :: "ti_store \<Rightarrow> string \<Rightarrow> string list \<Rightarrow> ndjson_entry list" where
  "HandleSuricataJSONDataset s valueKey types =
     List.map (ndjson_entry_of valueKey) (sort_key in_Value (collectForSuricata s types
       @ (case suricataSeedEntries valueKey of Some seed \<Rightarrow> [seed] | None \<Rightarrow> [])))"

subsection \<open>CSV\<close>

text \<open>\<open>encoding/csv\<close>: when a field is quoted, and how.\<close>

definition csv_needs_quotes :: "string \<Rightarrow> bool" where
  "csv_needs_quotes f \<longleftrightarrow> f \<noteq> [] \<and>
     (f = [CHR 0x5C, CHR ''.''] \<or> contains_any f [CHR 0x0A, CHR 0x0D, CHR 0x22, CHR '',''] \<or> is_space (hd f))"

definition csv_field :: "string \<Rightarrow> string" where
  "csv_field f =
     (if csv_needs_quotes f
      then [CHR 0x22] @ List.concat (List.map (\<lambda>c. if c = CHR 0x22 then [c, c] else [c]) f) @ [CHR 0x22] else f)"

definition csv_row :: "string list \<Rightarrow> string" where
  "csv_row fs = join '','' (List.map csv_field fs)"

definition csvHeader :: "string list" where
  "csvHeader = [''value'', ''type'', ''source'', ''threat'', ''confidence'']"

definition csv_kept :: "string list \<Rightarrow> indicator \<Rightarrow> bool" where
  "csv_kept types i \<longleftrightarrow> in_Type i \<in> set types \<and> \<not> (in_Type i = TypeIP \<and> parse_ip (in_Value i) = None)"

definition WriteCSV :: "indicator list \<Rightarrow> string list \<Rightarrow> string" where
  "WriteCSV inds types =
     write_lines (csv_row csvHeader # List.map (\<lambda>i. csv_row [in_Value i, in_Type i, in_Source i, in_Threat i, show_int (in_Confidence i)])
       (sort_key in_Value (filter (csv_kept types) inds)))"

subsection \<open>Base64 is read back\<close>

definition b64_index :: "char \<Rightarrow> nat" where
  "b64_index c = length (takeWhile (\<lambda>x. x \<noteq> c) b64_alphabet)"

text \<open>The decoder as a specification.\<close>

definition b64_value :: "char \<Rightarrow> char \<Rightarrow> char \<Rightarrow> char \<Rightarrow> nat" where
  "b64_value w x y z = b64_index w * 262144 + b64_index x * 4096 + (if y = CHR ''='' then 0 else b64_index y * 64)
     + (if z = CHR ''='' then 0 else b64_index z)"

fun unbase64 :: "string \<Rightarrow> byte list" where
  "unbase64 (w # x # y # z # rest) =
     (let n = b64_value w x y z
      in (if y = CHR ''='' then [of_nat (n div 65536)]
          else if z = CHR ''='' then [of_nat (n div 65536), of_nat (n div 256)]
          else [of_nat (n div 65536), of_nat (n div 256), of_nat n]) @ unbase64 rest)"
| "unbase64 _ = []"

lemma b64_table: "\<forall>d < 64. b64_index (b64_alphabet ! d) = d \<and> b64_alphabet ! d \<noteq> CHR ''=''"
proof -
  have "list_all (\<lambda>d. b64_index (b64_alphabet ! d) = d \<and> b64_alphabet ! d \<noteq> CHR ''='') [0..<64]" by code_simp
  then show ?thesis by (simp add: list_all_iff)
qed

lemma b64_digit_back [simp]: "b64_index (b64_digit n k) = n div 64 ^ k mod 64" "b64_digit n k \<noteq> CHR ''=''"
  using b64_table by (simp_all add: b64_digit_def)

lemma base_64_digits:
  assumes "n < (16777216 :: nat)"
  shows "n div 262144 mod 64 * 262144 + n div 4096 mod 64 * 4096 + n div 64 mod 64 * 64 + n mod 64 = n"
proof -
  define q r t where "q = n div 64" and "r = q div 64" and "t = r div 64"
  have e: "n div 4096 = r" "n div 262144 = t" by (simp_all add: q_def r_def t_def div_mult2_eq [symmetric])
  have "t < 64" using assms e by (simp add: less_mult_imp_div_less)
  moreover have "n = q * 64 + n mod 64" "q = r * 64 + q mod 64" "r = t * 64 + r mod 64" by (simp_all add: q_def r_def t_def)
  ultimately show ?thesis unfolding e q_def [symmetric] by simp
qed

lemma unbase64_groups:
  assumes n: "n < (16777216 :: nat)"
  shows "n div 64 mod 64 = 0 \<Longrightarrow> n mod 64 = 0 \<Longrightarrow>
      unbase64 (b64_digit n 3 # b64_digit n 2 # CHR ''='' # CHR ''='' # rest) = of_nat (n div 65536) # unbase64 rest"
    "n mod 64 = 0 \<Longrightarrow> unbase64 (b64_digit n 3 # b64_digit n 2 # b64_digit n 1 # CHR ''='' # rest)
      = of_nat (n div 65536) # of_nat (n div 256) # unbase64 rest"
    "unbase64 (b64_digit n 3 # b64_digit n 2 # b64_digit n 1 # b64_digit n 0 # rest)
      = of_nat (n div 65536) # of_nat (n div 256) # of_nat n # unbase64 rest"
proof -
  have p: "64 ^ 3 = (262144 :: nat)" "64 ^ 2 = (4096 :: nat)" "64 ^ 1 = (64 :: nat)" "64 ^ 0 = (1 :: nat)" by simp_all
  have v3: "b64_value (b64_digit n 3) (b64_digit n 2) (b64_digit n 1) (b64_digit n 0) = n"
    using base_64_digits [OF n] by (simp only: b64_value_def b64_digit_back p if_False div_by_1)
  have v2: "b64_value (b64_digit n 3) (b64_digit n 2) (b64_digit n 1) (CHR ''='') = n" if "n mod 64 = 0"
    using base_64_digits [OF n] that by (simp only: b64_value_def b64_digit_back p if_False if_True refl add_0_right)
  have v1: "b64_value (b64_digit n 3) (b64_digit n 2) (CHR ''='') (CHR ''='') = n" if "n div 64 mod 64 = 0" "n mod 64 = 0"
    using base_64_digits [OF n] that by (simp only: b64_value_def b64_digit_back p if_True refl mult_0 add_0_right)
  show "n div 64 mod 64 = 0 \<Longrightarrow> n mod 64 = 0 \<Longrightarrow>
      unbase64 (b64_digit n 3 # b64_digit n 2 # CHR ''='' # CHR ''='' # rest) = of_nat (n div 65536) # unbase64 rest" by (simp add: v1 [simplified] Let_def)
  show "n mod 64 = 0 \<Longrightarrow> unbase64 (b64_digit n 3 # b64_digit n 2 # b64_digit n 1 # CHR ''='' # rest)
      = of_nat (n div 65536) # of_nat (n div 256) # unbase64 rest" by (simp add: v2 [simplified] Let_def)
  show "unbase64 (b64_digit n 3 # b64_digit n 2 # b64_digit n 1 # b64_digit n 0 # rest)
      = of_nat (n div 65536) # of_nat (n div 256) # of_nat n # unbase64 rest" by (simp add: v3 [simplified] Let_def)
qed

lemma byte_256: "256 * (w :: byte) = 0" "65536 * w = 0" "w * 256 = 0" "w * 65536 = 0"
proof -
  have z: "(256 :: byte) = 0" "(65536 :: byte) = 0" by code_simp+
  show "256 * w = 0" "65536 * w = 0" "w * 256 = 0" "w * 65536 = 0" unfolding z by simp_all
qed

lemma unbase64_base64: "unbase64 (base64 bs) = bs"
proof (induction bs rule: base64.induct)
  case (2 a)
  let ?n = "unat a * 65536"
  have e: "?n = 64 * (64 * (unat a * 16))" by simp
  have d: "?n < 16777216" "?n div 64 mod 64 = 0" "?n mod 64 = 0"
    using unat_byte_less [of a]
    by (simp, simp_all only: e nonzero_mult_div_cancel_left mod_mult_self1_is_0 zero_neq_numeral not_False_eq_True)
  have "?n div 65536 = unat a" by simp
  then show ?case using unbase64_groups(1) [OF d, of "[]"] by (simp add: Let_def del: unbase64.simps(1))
next
  case (3 a b)
  let ?n = "unat a * 65536 + unat b * 256"
  have e: "?n = 64 * (unat a * 1024 + unat b * 4)" by simp
  have d1: "?n < 16777216" using unat_byte_less [of a] unat_byte_less [of b] by linarith
  have d: "?n < 16777216" "?n mod 64 = 0" using d1 by (simp, simp only: e mod_mult_self1_is_0)
  have "?n div 65536 = unat a" "?n div 256 = unat a * 256 + unat b" using unat_byte_less [of b] by simp_all
  moreover note byte_256 [of a]
  ultimately show ?case using unbase64_groups(2) [OF d, of "[]"] by (simp add: Let_def del: unbase64.simps(1))
next
  case (4 a b c rest)
  let ?n = "unat a * 65536 + unat b * 256 + unat c"
  have d: "?n < 16777216" using unat_byte_less [of a] unat_byte_less [of b] unat_byte_less [of c] by linarith
  have "?n div 65536 = unat a"
    by (rule div_nat_eqI; simp; insert unat_byte_less [of b] unat_byte_less [of c]; linarith)
  moreover have "?n div 256 = unat a * 256 + unat b"
    by (rule div_nat_eqI; simp)
  ultimately show ?case using unbase64_groups(3) [OF d, of "base64 rest"] byte_256 [of a] byte_256 [of b] 4 by (simp add: Let_def del: unbase64.simps(1))
qed simp

subsection \<open>A dataset and an intelligence file are read back\<close>

lemma split_write_lines:
  "\<forall>l \<in> set ls. CHR 0x0A \<notin> set l \<Longrightarrow> split_on (CHR 0x0A) (write_lines ls) = ls @ [[]]"
proof (induction ls)
  case (Cons l ls)
  have "write_lines (l # ls) = l @ CHR 0x0A # write_lines ls" by (simp add: write_lines_def)
  with Cons show ?case by (simp add: split_on_append_sep)
qed (simp add: write_lines_def)

lemma length_b64_alphabet: "length b64_alphabet = 64"
  by code_simp

lemma b64_digit_mem: "b64_digit n k \<in> set b64_alphabet"
  unfolding b64_digit_def by (rule nth_mem) (simp add: length_b64_alphabet)

lemma newline_not_digit: "CHR 0x0A \<notin> set b64_alphabet"
  by code_simp

lemma newline_not_base64: "CHR 0x0A \<notin> set (base64 bs)"
proof (induction bs rule: base64.induct)
  case (4 a b c rest)
  then show ?case using b64_digit_mem newline_not_digit by (auto simp: Let_def)
qed (use b64_digit_mem newline_not_digit in \<open>auto simp: Let_def\<close>)

lemma map_sort_key: "List.map f (sort_key f xs) = sort (List.map f xs)"
  by (rule properties_for_sort [symmetric]) simp_all

text \<open>
  Property C37. The Suricata datasets are read back. Whatever the stored values are, the lines of a base64 dataset decode
  to exactly the values of the selected indicators, in the order of their values.
\<close>

theorem suricata_dataset_roundtrip:
  "List.map unbase64 (butlast (split_on (CHR 0x0A) (HandleSuricataDataset s True types)))
     = List.map bytes_of (sort (List.map in_Value (collectForSuricata s types)))"
proof -
  let ?c = "collectForSuricata s types"
  have "split_on (CHR 0x0A) (HandleSuricataDataset s True types)
      = List.map (\<lambda>i. base64 (bytes_of (in_Value i))) (sort_key in_Value ?c) @ [[]]"
    unfolding HandleSuricataDataset_def WriteSuricataDataset_def if_True
    by (rule split_write_lines) (auto simp: newline_not_base64)
  then show ?thesis by (simp add: unbase64_base64 comp_def map_sort_key [symmetric])
qed

definition clean :: "string \<Rightarrow> bool" where
  "clean f \<longleftrightarrow> CHR 0x09 \<notin> set f \<and> CHR 0x0A \<notin> set f"

definition clean_indicator :: "indicator \<Rightarrow> bool" where
  "clean_indicator i \<longleftrightarrow> clean (in_Value i) \<and> clean (in_Source i) \<and> clean (in_Threat i) \<and> clean (in_Reference i)"

text \<open>The rows of an intelligence file, as Zeek reads them: the fields of each line after the header.\<close>

definition zeek_rows :: "string \<Rightarrow> string list list" where
  "zeek_rows text = List.map (split_on (CHR 0x09)) (tl (butlast (split_on (CHR 0x0A) text)))"

lemma clean_zeek_fields:
  assumes "clean_indicator i"
  shows "\<forall>f \<in> set (zeek_fields i). clean f"
proof -
  have "clean (mapZeekType i)" "clean ''netsoldier''" "clean ''-''" by (simp_all add: mapZeekType_def clean_def)
  with assms show ?thesis by (auto simp: zeek_fields_def clean_indicator_def or_else_def)
qed

lemma clean_join_tab:
  assumes "\<forall>f \<in> set fs. clean f"
  shows "CHR 0x0A \<notin> set (join [CHR 0x09] fs)"
  using set_mp [OF set_join [of "[CHR 0x09]" fs]] assms by (fastforce simp: clean_def)

text \<open>
  Further fact. The Zeek file says what the store says, if nothing in the store holds a tab or a line feed: its rows are,
  in order, the value, type, source, description and reference of the indicators that have a Zeek type.
\<close>

theorem zeek_roundtrip:
  assumes "\<forall>i \<in> set inds. clean_indicator i"
  shows "zeek_rows (WriteZeekIntel inds) = List.map zeek_fields (filter (\<lambda>i. mapZeekType i \<noteq> []) inds)"
proof -
  let ?is = "filter (\<lambda>i. mapZeekType i \<noteq> []) inds"
  let ?hd = "join tab [''#fields'', ''indicator'', ''indicator_type'', ''meta.source'', ''meta.desc'', ''meta.url'']"
  have ne: "zeek_fields i \<noteq> []" for i by (simp add: zeek_fields_def)
  have row: "CHR 0x0A \<notin> set (join [CHR 0x09] (zeek_fields i))" "split_on (CHR 0x09) (join [CHR 0x09] (zeek_fields i)) = zeek_fields i"
    if "i \<in> set inds" for i
  proof -
    have c: "\<forall>f \<in> set (zeek_fields i). clean f" using assms that by (intro clean_zeek_fields) blast
    then show "CHR 0x0A \<notin> set (join [CHR 0x09] (zeek_fields i))" by (rule clean_join_tab)
    from c show "split_on (CHR 0x09) (join [CHR 0x09] (zeek_fields i)) = zeek_fields i"
      by (intro split_on_join ne) (simp add: clean_def)
  qed
  have "CHR 0x0A \<notin> set ?hd" by simp
  then have "split_on (CHR 0x0A) (WriteZeekIntel inds) = (?hd # List.map (\<lambda>i. join tab (zeek_fields i)) ?is) @ [[]]"
    unfolding WriteZeekIntel_def using row(1) by (intro split_write_lines) auto
  then show ?thesis using row(2) by (simp add: zeek_rows_def)
qed

definition sample_indicator :: "string \<Rightarrow> string \<Rightarrow> string \<Rightarrow> indicator" where
  "sample_indicator t v threat = \<lparr> in_Type = t, in_Value = v, in_Source = ''threatfox'', in_Threat = threat, in_Confidence = 75,
     in_FirstSeen = zero_time, in_LastSeen = zero_time, in_Tags = [], in_Reference = [] \<rparr>"

theorem zeek_roundtrip_witness:
  "zeek_rows (WriteZeekIntel [sample_indicator ''domain'' ''evil.example.com'' ''emotet''])
     = [[''evil.example.com'', ''Intel::DOMAIN'', ''threatfox'', ''emotet'', ''-'']]"
proof -
  have "\<forall>i \<in> set [sample_indicator ''domain'' ''evil.example.com'' ''emotet'']. clean_indicator i"
    by (simp add: sample_indicator_def clean_indicator_def clean_def)
  from zeek_roundtrip [OF this] show ?thesis
    by (simp add: zeek_fields_def mapZeekType_def sample_indicator_def or_else_def)
qed

definition injecting :: indicator where
  "injecting = sample_indicator ''domain'' ''evil.example.com''
     (''x'' @ tab @ ''-'' @ nl @ ''com'' @ tab @ ''Intel::DOMAIN'' @ tab @ ''y'' @ tab @ ''z'')"

text \<open>
  Further fact. A feed can write rows of its own. Validation looks at the value only: an indicator for a harmless domain
  whose threat name holds a tab and a line feed is accepted, and the Zeek file then holds a row for com, a
  domain validation refuses.
\<close>

theorem feed_injects_row:
  "fst (UpsertAll [sample_indicator ''domain'' ''com'' ''x''] NewStore_ti) = (0, 1)
   \<and> fst (UpsertAll [injecting] NewStore_ti) = (1, 0)
   \<and> [''com'', ''Intel::DOMAIN'', ''y'', ''z'', ''-''] \<in> set (zeek_rows (HandleZeekIntel (snd (UpsertAll [injecting] NewStore_ti))))"
  by code_simp

end
