(* ===== verification/TiMirror.thy ===== *)
theory TiMirror
  imports TiExport IocMatch
begin

text \<open>
  The two services that judge an indicator: \<open>threat-intel-sync\<close> validates what a feed sends and exports it, and
  \<open>detection-engine\<close> validates what it reads back before it matches live names against it. This theory compares
  \<open>ioc/validate.go\<close> with the guard in \<open>iocmatch\<close> that it is said to mirror, and follows what one of them lets
  through into the files the other programs of the network load.
\<close>

subsection \<open>The two guards agree, but for three names\<close>

definition unmirrored :: "string list" where
  "unmirrored = [''serveo.net'', ''blob.core.windows.net'', ''repl.co'']"

lemma unmirrored_table: "set publicSuffixes = set publicSuffixes_ti \<union> set unmirrored"
  "set publicSuffixes_ti \<inter> set unmirrored = {}"
proof -
  have "list_all (\<lambda>d. d \<in> set publicSuffixes_ti \<or> d \<in> set unmirrored) publicSuffixes
     \<and> list_all (\<lambda>d. d \<in> set publicSuffixes) publicSuffixes_ti \<and> list_all (\<lambda>d. d \<in> set publicSuffixes) unmirrored
     \<and> list_all (\<lambda>d. d \<notin> set unmirrored) publicSuffixes_ti" by code_simp
  then show "set publicSuffixes = set publicSuffixes_ti \<union> set unmirrored" "set publicSuffixes_ti \<inter> set unmirrored = {}"
    by (auto simp: list_all_iff)
qed

lemma illegal_chars_same: "illegal_domain_chars = illegal_chars"
  by (simp add: illegal_domain_chars_def illegal_chars_def)

lemma bad_label_same: "check_labels d ls = None \<longleftrightarrow> list_all (\<lambda>l. \<not> bad_label l) ls"
  by (induction ls) (auto simp: bad_label_def)

lemma to_lower_trim: "to_lower s = s \<Longrightarrow> to_lower (trim_prefix s p) = trim_prefix s p"
  "to_lower s = s \<Longrightarrow> to_lower (trim_suffix s p) = trim_suffix s p"
  by (simp_all add: trim_prefix_def trim_suffix_def to_lower_def) (metis drop_map, metis take_map)

lemma validateDomain_ti_lower: "validateDomain_ti v = Inr d \<Longrightarrow> to_lower d = d"
  by (auto simp: validateDomain_ti_def Let_def to_lower_trim split: if_splits option.splits)

text \<open>A label is not empty, so a usable name does not end with a dot.\<close>

lemma split_on_last_sep: "split_on c (xs @ [c]) = split_on c xs @ [[]]"
  by (induction xs) (auto split: list.split)

lemma usable_domain_no_dot: "usable_domain d \<Longrightarrow> \<not> has_suffix d ''.''"
proof
  assume u: "usable_domain d" and "has_suffix d ''.''"
  then obtain e where "d = e @ ''.''" by (metis has_suffix_iff suffix_def)
  then have "[] \<in> set (split_on (CHR ''.'') d)" by (simp add: split_on_last_sep)
  with u show False by (auto simp: usable_domain_def list_all_iff bad_label_def)
qed

lemma sibling_ValidateDomainIndicator:
  assumes u: "usable_domain d" and l: "to_lower d = d" and t: "trim_space d = d" and w: "\<not> has_prefix d ''*.''"
  shows "ValidateDomainIndicator d = (if d \<in> set unmirrored then Inl (RejPublicSuffix d) else Inr d)"
proof -
  have s: "trim_suffix d ''.'' = d" using usable_domain_no_dot [OF u] by (simp add: trim_suffix_def)
  have p: "trim_prefix d ''*.'' = d" using w by (simp add: trim_prefix_def)
  have ne: "d \<noteq> []" using u by (auto simp: usable_domain_def)
  have c: "check_labels d (split_on (CHR ''.'') d) = None" using u by (simp add: usable_domain_def bad_label_same)
  have m: "d \<in> set publicSuffixes \<longleftrightarrow> d \<in> set unmirrored"
    using u unmirrored_table by (auto simp: usable_domain_def)
  show ?thesis using u ne
    by (simp add: ValidateDomainIndicator_def t l s p c m Let_def usable_domain_def illegal_chars_same)
qed

text \<open>
  Further fact. What one service accepts the other accepts. A domain the threat-intelligence service stores, free of
  outer white space and of a second wildcard, passes the detection engine's own guard unchanged, unless it is one of
  three shared-hosting suffixes the first service does not know; these the second refuses.
\<close>

theorem sibling_accepts:
  assumes "Validate i = Inr v" and "in_Type i = TypeDomain"
    and "trim_space (in_Value v) = in_Value v" and "\<not> has_prefix (in_Value v) ''*.''"
  shows "ValidateDomainIndicator (in_Value v) =
    (if in_Value v \<in> set [''serveo.net'', ''blob.core.windows.net'', ''repl.co''] then Inl (RejPublicSuffix (in_Value v)) else Inr (in_Value v))"
proof -
  from assms obtain d where d: "validateDomain_ti (trim_space (in_Value i)) = Inr d" "in_Value v = d"
    by (auto simp: Validate_def Let_def checkConfidence_Inr split: if_splits sum.splits)
  with sibling_ValidateDomainIndicator [of d] assms(3,4) validateDomain_ti_usable validateDomain_ti_lower
  show ?thesis unfolding unmirrored_def by metis
qed

theorem sibling_accepts_witness:
  "ValidateDomainIndicator ''evil.example.com'' = Inr ''evil.example.com''
   \<and> ValidateDomainIndicator ''serveo.net'' = Inl (RejPublicSuffix ''serveo.net'')"
proof -
  let ?a = "sample_indicator ''domain'' ''evil.example.com'' []" and ?b = "sample_indicator ''domain'' ''serveo.net'' []"
  have "Validate ?a = Inr ?a" "Validate ?b = Inr ?b" "in_Type ?a = TypeDomain" "in_Type ?b = TypeDomain"
    "trim_space (in_Value ?a) = in_Value ?a" "trim_space (in_Value ?b) = in_Value ?b"
    "\<not> has_prefix (in_Value ?a) ''*.''" "\<not> has_prefix (in_Value ?b) ''*.''" by code_simp+
  from sibling_accepts [OF this(1,3,5,7)] sibling_accepts [OF this(2,4,6,8)] show ?thesis
    by (simp add: sample_indicator_def)
qed

subsection \<open>What gets through\<close>

text \<open>
  Further fact. Validation strips one wildcard and looks at the rest, which may be a wildcard again. The suffix com is
  refused, and so is the wildcard over it, but the doubled wildcard is stored, and the AdGuard list then holds a rule
  for every name under com.
\<close>

theorem doubled_wildcard_exported:
  "fst (UpsertAll [sample_indicator ''domain'' ''com'' [], sample_indicator ''domain'' ''*.com'' []] NewStore_ti) = (0, 2)
   \<and> fst (UpsertAll [sample_indicator ''domain'' ''*.*.com'' []] NewStore_ti) = (1, 0)
   \<and> ''||*.com^'' \<in> set (split_on (CHR 0x0A) (HandleAdGuard (snd (UpsertAll [sample_indicator ''domain'' ''*.*.com'' []] NewStore_ti))))"
  by code_simp

lemma mapped_catch_all_stored:
  "Validate (sample_indicator ''ip'' ''::ffff:0.0.0.0/96'' []) = Inr (sample_indicator ''ip'' ''0.0.0.0/0'' [])"
  by (simp add: Validate_def validateIP_def sample_indicator_def Let_def checkConfidence_def mapped_catch_all_text mapped_catch_all_parsed
      del: ipnet_string.simps)

text \<open>
  Further fact. The catch-all range gets past the test of the prefix length in its mapped spelling, and the Zeek file
  then holds the whole IPv4 space as one subnet.
\<close>

theorem catch_all_reaches_zeek:
  "fst (UpsertAll [sample_indicator ''ip'' ''0.0.0.0/0'' []] NewStore_ti) = (0, 1)
   \<and> fst (UpsertAll [sample_indicator ''ip'' ''::ffff:0.0.0.0/96'' []] NewStore_ti) = (1, 0)
   \<and> [''0.0.0.0/0'', ''Intel::SUBNET'', ''threatfox'', ''-'', ''-'']
       \<in> set (zeek_rows (HandleZeekIntel (snd (UpsertAll [sample_indicator ''ip'' ''::ffff:0.0.0.0/96'' []] NewStore_ti))))"
proof -
  let ?c = "sample_indicator ''ip'' ''0.0.0.0/0'' []"
  have "Validate ?c = Inl (CatchAll ''0.0.0.0/0'')"
    by (simp add: Validate_def validateIP_def sample_indicator_def Let_def mapped_catch_all_text)
  moreover have "[''0.0.0.0/0'', ''Intel::SUBNET'', ''threatfox'', ''-'', ''-''] \<in> set (zeek_rows (HandleZeekIntel (Upsert_ti ?c NewStore_ti)))"
    by code_simp
  ultimately show ?thesis by (simp add: mapped_catch_all_stored)
qed

end
