(* ===== verification/TiSync.thy ===== *)
theory TiSync
  imports TiStore
begin

text \<open>
  The feeds of the threat-intelligence service and its synchronisation cycle: Feodo Tracker, ThreatFox and
  URLhaus (\<open>threat-intel-sync/internal/abusech\<close>), Spamhaus DROP (\<open>internal/spamhaus/drop.go\<close>), MISP
  (\<open>internal/misp\<close>) and \<open>cmd/threat-intel-sync/main.go\<close>. The HTTP exchanges and the decoding of JSON are
  parameters: a feed is its body, or its decoded entries. \<open>url.Parse\<close> is a parameter too, a function from the text of
  an address to the host it names, \<open>None\<close> when it does not parse.
\<close>

subsection \<open>Dates (\<open>abusech/time.go\<close>)\<close>

text \<open>\<open>time.Date\<close> in UTC: days since 1970 of a date of the Gregorian calendar, then nanoseconds.\<close>

definition days_from_civil :: "int \<Rightarrow> int \<Rightarrow> int \<Rightarrow> int" where
  "days_from_civil y m d =
     (let y' = (if m \<le> 2 then y - 1 else y); era = y' div 400; yoe = y' mod 400;
          doy = (153 * (if m > 2 then m - 3 else m + 9) + 2) div 5 + d - 1;
          doe = yoe * 365 + yoe div 4 - yoe div 100 + doy
      in era * 146097 + doe - 719468)"

definition utc :: "int \<Rightarrow> int \<Rightarrow> int \<Rightarrow> int \<Rightarrow> int \<Rightarrow> int \<Rightarrow> int \<Rightarrow> instant" where
  "utc y m d hour mi sec nsec = (days_from_civil y m d * 86400 + hour * 3600 + mi * 60 + sec) * 1000000000 + nsec"

definition days_in :: "int \<Rightarrow> int \<Rightarrow> int" where
  "days_in m y = (if m = 2 then (if y mod 4 = 0 \<and> (y mod 100 \<noteq> 0 \<or> y mod 400 = 0) then 29 else 28)
     else if m \<in> {4, 6, 9, 11} then 30 else 31)"

text \<open>\<open>getnum\<close>: two digits, or one when two are not required.\<close>

definition getnum :: "bool \<Rightarrow> string \<Rightarrow> (int \<times> string) option" where
  "getnum fixed s =
     (case s of [] \<Rightarrow> None
      | a # rest \<Rightarrow>
          if \<not> is_digit a then None
          else (case rest of
                  b # rest' \<Rightarrow> if is_digit b then Some (int (digit_val a * 10 + digit_val b), rest')
                              else if fixed then None else Some (int (digit_val a), rest)
                | [] \<Rightarrow> if fixed then None else Some (int (digit_val a), rest)))"

definition skip_char :: "char \<Rightarrow> string \<Rightarrow> string option" where
  "skip_char c s = (case s of x # xs \<Rightarrow> if x = c then Some xs else None | [] \<Rightarrow> None)"

text \<open>A blank of the layout stands for any number of blanks, but not for another character.\<close>

definition skip_blanks :: "string \<Rightarrow> string option" where
  "skip_blanks s = (if s \<noteq> [] \<and> hd s \<noteq> CHR '' '' then None else Some (dropWhile (\<lambda>c. c = CHR '' '') s))"

text \<open>The fraction that may follow the seconds although the layout has none.\<close>

definition fraction :: "string \<Rightarrow> int \<times> string" where
  "fraction s =
     (case s of
        p # d # _ \<Rightarrow>
          if p \<in> {CHR ''.'', CHR '',''} \<and> is_digit d then
            (let ds = takeWhile is_digit (tl s); used = take 9 ds
             in (int (read_digits used 0) * 10 ^ (9 - length used), drop (length ds) (tl s)))
          else (0, s)
      | _ \<Rightarrow> (0, s))"

text \<open>\<open>time.Parse\<close> with the layouts \<open>2006-01-02\<close> and \<open>2006-01-02 15:04:05\<close>.\<close>

definition parse_date :: "string \<Rightarrow> ((int \<times> int \<times> int) \<times> string) option" where
  "parse_date s =
     (if length s < 4 \<or> \<not> list_all is_digit (take 4 s) then None
      else Option.bind (skip_char (CHR ''-'') (drop 4 s)) (\<lambda>s1.
           Option.bind (getnum True s1) (\<lambda>(m, s2).
           if m < 1 \<or> m > 12 then None
           else Option.bind (skip_char (CHR ''-'') s2) (\<lambda>s3.
           Option.bind (getnum True s3) (\<lambda>(d, s4).
           Some ((int (read_digits (take 4 s) 0), m, d), s4))))))"

definition check_day :: "int \<times> int \<times> int \<Rightarrow> bool" where
  "check_day d = (case d of (y, m, day) \<Rightarrow> 1 \<le> day \<and> day \<le> days_in m y)"

definition parse_day :: "string \<Rightarrow> instant option" where
  "parse_day s =
     Option.bind (parse_date s) (\<lambda>((y, m, d), rest).
       if rest = [] \<and> check_day (y, m, d) then Some (utc y m d 0 0 0 0) else None)"

definition parse_stamp :: "string \<Rightarrow> instant option" where
  "parse_stamp s =
     Option.bind (parse_date s) (\<lambda>((y, m, d), s1).
     Option.bind (skip_blanks s1) (\<lambda>s2.
     Option.bind (getnum False s2) (\<lambda>(hour, s3).
     if hour \<ge> 24 then None
     else Option.bind (skip_char (CHR '':'') s3) (\<lambda>s4.
     Option.bind (getnum True s4) (\<lambda>(mi, s5).
     if mi \<ge> 60 then None
     else Option.bind (skip_char (CHR '':'') s5) (\<lambda>s6.
     Option.bind (getnum True s6) (\<lambda>(sec, s7).
     if sec \<ge> 60 then None
     else (case fraction s7 of (nsec, rest) \<Rightarrow>
       if rest = [] \<and> check_day (y, m, d) then Some (utc y m d hour mi sec nsec) else None))))))))"

definition parseAbusechTime :: "string \<Rightarrow> instant" where
  "parseAbusechTime s0 =
     (let s = trim_suffix (trim_space s0) '' UTC'' in
      case parse_stamp s of Some t \<Rightarrow> t
      | None \<Rightarrow> (case parse_day s of Some t \<Rightarrow> t | None \<Rightarrow> zero_time))"

lemma utc_zero: "utc 1 1 1 0 0 0 0 = zero_time"
  by (simp add: utc_def days_from_civil_def zero_time_def Let_def)

lemma abusech_time_examples:
  "parseAbusechTime ''2026-01-15 10:30:00 UTC'' = 1768473000 * 1000000000"
  "parseAbusechTime ''2026-01-15'' = 1768435200 * 1000000000"
  "parseAbusechTime ''2026-02-30'' = zero_time"
  by code_simp+

subsection \<open>Line-based feeds\<close>

definition feodo_line :: "string \<Rightarrow> indicator option" where
  "feodo_line raw =
     (let line = trim_space raw in
      if line = [] \<or> has_prefix line ''#'' then None
      else let fs = split_n (CHR '','') 5 line in
        if length fs < 5 then None
        else let firstSeen = parseAbusechTime (trim_space (fs ! 0)); ip = trim_space (fs ! 1); port = trim_space (fs ! 2);
                 lastOnline = parseAbusechTime (trim_space (fs ! 3)); malware = trim_space (fs ! 4)
             in Some \<lparr> in_Type = TypeIP, in_Value = (if port \<noteq> [] then ip @ '':'' @ port else ip), in_Source = ''feodo'',
                  in_Threat = malware, in_Confidence = 90, in_FirstSeen = firstSeen, in_LastSeen = lastOnline,
                  in_Tags = [''c2'', ''botnet''], in_Reference = [] \<rparr>)"

definition parseFeodoCSV :: "string \<Rightarrow> indicator list \<times> bool" where
  "parseFeodoCSV body = (case scan_lines body of (ls, err) \<Rightarrow> (List.map_filter feodo_line ls, err))"

definition drop_line :: "string \<Rightarrow> string \<Rightarrow> string \<Rightarrow> indicator option" where
  "drop_line source tag raw =
     (let line = trim_space raw in
      if line = [] \<or> has_prefix line '';'' then None
      else let parts = split_n (CHR '';'') 2 line; cidr = trim_space (parts ! 0) in
        if cidr = [] then None
        else let sbl = (if length parts > 1 then trim_space (parts ! 1) else []);
                 ref = (if sbl \<noteq> [] then ''https://www.spamhaus.org/sbl/query/'' @ sbl else [])
             in Some \<lparr> in_Type = TypeIP, in_Value = cidr, in_Source = source, in_Threat = ''hijacked-network'',
                  in_Confidence = 95, in_FirstSeen = zero_time, in_LastSeen = zero_time, in_Tags = [tag, ''spamhaus''],
                  in_Reference = ref \<rparr>)"

definition parseDROPList :: "string \<Rightarrow> string \<Rightarrow> string \<Rightarrow> indicator list \<times> bool" where
  "parseDROPList body source tag = (case scan_lines body of (ls, err) \<Rightarrow> (List.map_filter (drop_line source tag) ls, err))"

text \<open>A fetch: \<open>None\<close> when the request fails or is answered with another status than 200.\<close>

type_synonym fetch = "indicator list \<times> bool"

definition fetch_body :: "(string \<Rightarrow> indicator list \<times> bool) \<Rightarrow> string option \<Rightarrow> fetch" where
  "fetch_body parse answer = (case answer of None \<Rightarrow> ([], True) | Some body \<Rightarrow> parse body)"

definition FetchAll :: "string option \<Rightarrow> string option \<Rightarrow> fetch" where
  "FetchAll drop_answer edrop_answer =
     (let (drops, e1) = fetch_body (\<lambda>b. parseDROPList b ''spamhaus-drop'' ''drop'') drop_answer;
          (edrops, e2) = fetch_body (\<lambda>b. parseDROPList b ''spamhaus-edrop'' ''edrop'') edrop_answer
      in (drops @ edrops, e1 \<or> e2))"

subsection \<open>Feeds that answer JSON\<close>

record threatfox_entry =
  tf_IoC :: string
  tf_IoCType :: string
  tf_MalwarePrintable :: string
  tf_ConfidenceLevel :: int
  tf_FirstSeenUTC :: string
  tf_LastSeenUTC :: string
  tf_Reference :: string
  tf_Tags :: "string list"

definition mapThreatFoxType :: "string \<Rightarrow> string" where
  "mapThreatFoxType t =
     (if t = ''domain'' then TypeDomain else if t = ''ip:port'' then TypeIP else if t = ''url'' then TypeURL
      else if t = ''md5_hash'' then TypeMD5 else if t = ''sha256_hash'' then TypeSHA256 else [])"

definition threatfox_indicator :: "threatfox_entry \<Rightarrow> indicator option" where
  "threatfox_indicator e =
     (let t = mapThreatFoxType (tf_IoCType e) in
      if t = [] then None
      else Some \<lparr> in_Type = t, in_Value = tf_IoC e, in_Source = ''threatfox'', in_Threat = tf_MalwarePrintable e,
             in_Confidence = tf_ConfidenceLevel e, in_FirstSeen = parseAbusechTime (tf_FirstSeenUTC e),
             in_LastSeen = parseAbusechTime (tf_LastSeenUTC e), in_Tags = tf_Tags e, in_Reference = tf_Reference e \<rparr>)"

text \<open>The query status and the entries; \<open>None\<close> when there is no decodable answer.\<close>

definition threatfox_Fetch :: "(string \<times> threatfox_entry list) option \<Rightarrow> fetch" where
  "threatfox_Fetch answer =
     (case answer of None \<Rightarrow> ([], True)
      | Some (status, entries) \<Rightarrow> if status \<noteq> ''ok'' then ([], True) else (List.map_filter threatfox_indicator entries, False))"

record urlhaus_entry =
  uh_DateAdded :: string
  uh_URL :: string
  uh_Threat :: string
  uh_Tags :: "string list"
  uh_URLhausLink :: string

definition extractHost :: "(string \<Rightarrow> string option) \<Rightarrow> string \<Rightarrow> string" where
  "extractHost url_host rawURL = (case url_host rawURL of None \<Rightarrow> [] | Some h \<Rightarrow> to_lower h)"

definition isIPAddress :: "string \<Rightarrow> bool" where
  "isIPAddress s = (list_all (\<lambda>c. c = CHR ''.'' \<or> is_digit c \<or> c = CHR '':'') s \<and> s \<noteq> [])"

definition urlhaus_indicators :: "(string \<Rightarrow> string option) \<Rightarrow> urlhaus_entry \<Rightarrow> indicator list" where
  "urlhaus_indicators url_host e =
     (let host = extractHost url_host (uh_URL e);
          i = \<lparr> in_Type = TypeURL, in_Value = uh_URL e, in_Source = ''urlhaus'', in_Threat = uh_Threat e, in_Confidence = 0,
                in_FirstSeen = parseAbusechTime (uh_DateAdded e), in_LastSeen = zero_time, in_Tags = uh_Tags e,
                in_Reference = uh_URLhausLink e \<rparr>
      in i # (if host \<noteq> [] \<and> \<not> isIPAddress host
              then [i \<lparr> in_Type := TypeDomain, in_Value := host, in_Reference := [] \<rparr>] else []))"

definition urlhaus_Fetch :: "(string \<Rightarrow> string option) \<Rightarrow> (string \<times> urlhaus_entry list) option \<Rightarrow> fetch" where
  "urlhaus_Fetch url_host answer =
     (case answer of None \<Rightarrow> ([], True)
      | Some (status, urls) \<Rightarrow> if status \<noteq> ''ok'' then ([], True) else (List.concat (List.map (urlhaus_indicators url_host) urls), False))"

subsection \<open>MISP\<close>

record attribute =
  at_Type :: string
  at_Value :: string
  at_Timestamp :: string
  at_Comment :: string
  at_Tags :: "string list"

text \<open>\<open>Attribute.Time\<close>: the text of a Unix time.\<close>

definition attribute_Time :: "attribute \<Rightarrow> instant" where
  "attribute_Time a = (case atoi (at_Timestamp a) of None \<Rightarrow> zero_time | Some ts \<Rightarrow> ts * 1000000000)"

definition mapMISPType :: "string \<Rightarrow> string" where
  "mapMISPType t =
     (if t = ''domain'' \<or> t = ''hostname'' then TypeDomain
      else if t = ''ip-dst'' \<or> t = ''ip-src'' then TypeIP
      else if t = ''url'' then TypeURL else if t = ''md5'' then TypeMD5 else if t = ''sha256'' then TypeSHA256
      else if t = ''ja3-fingerprint-md5'' then TypeJA3
      else if t = ''x509-fingerprint-sha1'' then TypeCertSHA1
      else if t = ''x509-fingerprint-sha256'' then TypeCertSHA256 else [])"

definition misp_indicator :: "attribute \<Rightarrow> indicator option" where
  "misp_indicator a =
     (let t = mapMISPType (at_Type a) in
      if t = [] then None
      else Some \<lparr> in_Type = t, in_Value = at_Value a, in_Source = ''misp'', in_Threat = at_Comment a, in_Confidence = 0,
             in_FirstSeen = attribute_Time a, in_LastSeen = zero_time, in_Tags = at_Tags a, in_Reference = [] \<rparr>)"

definition mispToIndicators :: "attribute list \<Rightarrow> indicator list" where
  "mispToIndicators attrs = List.map_filter misp_indicator attrs"

text \<open>
  \<open>FetchAllAttributes\<close>: the server is a function from the page number and the limit to its attributes, \<open>None\<close>
  for an error. The result is what was read and the page that failed, if one did; the loop need not end.
\<close>

partial_function (option) fetch_pages ::
  "(int \<Rightarrow> int \<Rightarrow> attribute list option) \<Rightarrow> int \<Rightarrow> int \<Rightarrow> attribute list \<Rightarrow> (attribute list \<times> int option) option" where
  "fetch_pages server limit page all =
     (case server page limit of
        None \<Rightarrow> Some (all, Some page)
      | Some attrs \<Rightarrow>
          if int (length attrs) < limit then Some (all @ attrs, None)
          else fetch_pages server limit (page + 1) (all @ attrs))"

definition FetchAllAttributes :: "(int \<Rightarrow> int \<Rightarrow> attribute list option) \<Rightarrow> int \<Rightarrow> int \<Rightarrow> (attribute list \<times> int option) option" where
  "FetchAllAttributes server limit page =
     fetch_pages server (if limit \<le> 0 then 10000 else limit) (if page \<le> 0 then 1 else page) []"

text \<open>The fetch of the source \<open>misp\<close>, which sets neither limit nor page; \<open>None\<close> when it does not return.\<close>

definition misp_fetch :: "(int \<Rightarrow> int \<Rightarrow> attribute list option) \<Rightarrow> fetch option" where
  "misp_fetch server =
     map_option (\<lambda>(attrs, failed). if failed = None then (mispToIndicators attrs, False) else ([], True)) (FetchAllAttributes server 0 0)"

lemma fetch_pages_prefix:
  assumes "\<And>k. k < n \<Longrightarrow> \<exists>as. server (page + int k) limit = Some as \<and> \<not> int (length as) < limit"
  shows "fetch_pages server limit page all
     = fetch_pages server limit (page + int n) (all @ List.concat (List.map (\<lambda>k. the (server (page + int k) limit)) [0..<n]))"
  using assms
proof (induction n arbitrary: page all)
  case (Suc n)
  obtain as where as: "server page limit = Some as" "\<not> int (length as) < limit" using Suc.prems [of 0] by auto
  have shift: "page + 1 + int k = page + int (Suc k)" for k by simp
  have "fetch_pages server limit (page + 1) (all @ as)
      = fetch_pages server limit (page + 1 + int n) ((all @ as) @ List.concat (List.map (\<lambda>k. the (server (page + 1 + int k) limit)) [0..<n]))"
    by (rule Suc.IH) (use Suc.prems in \<open>simp add: shift del: of_nat_Suc\<close>)
  moreover have "[0..<Suc n] = 0 # List.map Suc [0..<n]" by (simp only: upt_conv_Cons map_Suc_upt zero_less_Suc)
  moreover have "fetch_pages server limit page all = fetch_pages server limit (page + 1) (all @ as)"
    using as by (subst fetch_pages.simps) simp
  ultimately show ?case using as by (simp add: comp_def shift del: upt_Suc of_nat_Suc)
qed simp

lemma fetch_pages_short:
  assumes "fetch_pages server limit page all = Some r"
  shows "\<exists>k. case server (page + int k) limit of None \<Rightarrow> True | Some as \<Rightarrow> int (length as) < limit"
proof (rule fetch_pages.raw_induct [where P = "\<lambda>server limit page all r.
    \<exists>k. case server (page + int k) limit of None \<Rightarrow> True | Some as \<Rightarrow> int (length as) < limit", OF _ assms])
  fix f :: "(int \<Rightarrow> int \<Rightarrow> attribute list option) \<Rightarrow> int \<Rightarrow> int \<Rightarrow> attribute list \<Rightarrow> (attribute list \<times> int option) option"
    and server limit page all r
  assume IH: "\<And>server limit page all r. f server limit page all = Some r \<Longrightarrow>
      \<exists>k. case server (page + int k) limit of None \<Rightarrow> True | Some as \<Rightarrow> int (length as) < limit"
    and step: "(case server page limit of None \<Rightarrow> Some (all, Some page)
      | Some attrs \<Rightarrow> if int (length attrs) < limit then Some (all @ attrs, None) else f server limit (page + 1) (all @ attrs)) = Some r"
  show "\<exists>k. case server (page + int k) limit of None \<Rightarrow> True | Some as \<Rightarrow> int (length as) < limit"
  proof (cases "case server page limit of None \<Rightarrow> True | Some as \<Rightarrow> int (length as) < limit")
    case True
    then show ?thesis by (intro exI [of _ 0]) simp
  next
    case False
    then obtain as where "server page limit = Some as" "\<not> int (length as) < limit" by (auto split: option.splits)
    with step have "f server limit (page + 1) (all @ as) = Some r" by simp
    from IH [OF this] obtain k where "case server (page + 1 + int k) limit of None \<Rightarrow> True | Some as \<Rightarrow> int (length as) < limit" by blast
    then show ?thesis by (intro exI [of _ "Suc k"]) (simp add: add.assoc)
  qed
qed

definition page_ends :: "(int \<Rightarrow> int \<Rightarrow> attribute list option) \<Rightarrow> nat \<Rightarrow> bool" where
  "page_ends server k = (case server (1 + int k) 10000 of None \<Rightarrow> True | Some as \<Rightarrow> length as < 10000)"

lemma FetchAll_least:
  assumes "\<And>k. k < n \<Longrightarrow> \<not> page_ends server k" "page_ends server n"
  shows "FetchAllAttributes server 0 0 = (case server (1 + int n) 10000 of
     None \<Rightarrow> Some (List.concat (List.map (\<lambda>k. the (server (1 + int k) 10000)) [0..<n]), Some (1 + int n))
   | Some as \<Rightarrow> Some (List.concat (List.map (\<lambda>k. the (server (1 + int k) 10000)) [0..<n]) @ as, None))"
proof -
  have "fetch_pages server 10000 1 [] = fetch_pages server 10000 (1 + int n) ([] @ List.concat (List.map (\<lambda>k. the (server (1 + int k) 10000)) [0..<n]))"
    by (rule fetch_pages_prefix) (use assms(1) in \<open>force simp: page_ends_def split: option.splits\<close>)
  moreover have "fetch_pages server 10000 (1 + int n) acc = (case server (1 + int n) 10000 of
     None \<Rightarrow> Some (acc, Some (1 + int n)) | Some as \<Rightarrow> Some (acc @ as, None))" for acc
    using assms(2) by (subst fetch_pages.simps) (simp add: page_ends_def split: option.splits)
  ultimately show ?thesis by (simp add: FetchAllAttributes_def)
qed


subsection \<open>The synchronisation cycle (\<open>main.go\<close>)\<close>

definition commercialModeEnabled :: "(string \<Rightarrow> string) \<Rightarrow> bool" where
  "commercialModeEnabled env = (to_lower (env ''COMMERCIAL_MODE'') \<in> {''1'', ''true'', ''yes''})"

text \<open>The names of the sources in their order; \<open>None\<close> when the process exits.\<close>

definition configureSources :: "(string \<Rightarrow> string) \<Rightarrow> string list option" where
  "configureSources env =
     (if env ''MISP_URL'' \<noteq> [] \<and> env ''MISP_API_KEY'' = [] then None
      else Some ((if env ''MISP_URL'' \<noteq> [] then [''misp''] else [])
             @ (if commercialModeEnabled env then [] else [''threatfox'', ''urlhaus'', ''feodo'']) @ [''spamhaus'']))"

text \<open>One source: what it fetched is used only if it reported no error.\<close>

definition sync_source :: "fetch \<Rightarrow> bool \<times> ti_store \<Rightarrow> bool \<times> ti_store" where
  "sync_source f st = (case f of (indicators, err) \<Rightarrow> if err then st else (True, snd (UpsertAll indicators (snd st))))"

definition syncOnce_ti :: "instant \<Rightarrow> duration \<Rightarrow> fetch list \<Rightarrow> ti_store \<Rightarrow> ti_store" where
  "syncOnce_ti now indicatorTTL fetches s =
     (case fold sync_source fetches (False, s) of (anySucceeded, s') \<Rightarrow>
        if anySucceeded \<and> indicatorTTL > 0 then snd (PruneBefore (now - indicatorTTL) s') else s')"

text \<open>A cycle at an instant with the answers of the sources.\<close>

type_synonym cycle = "instant \<times> fetch list"

definition sync_cycle :: "duration \<Rightarrow> cycle \<Rightarrow> ti_store \<Rightarrow> ti_store" where
  "sync_cycle ttl c s = syncOnce_ti (fst c) ttl (snd c) s"

definition run_syncs :: "duration \<Rightarrow> cycle list \<Rightarrow> ti_store \<Rightarrow> ti_store" where
  "run_syncs ttl cycles s = fold (sync_cycle ttl) cycles s"

lemma sync_sources_ok: "ti_ok (snd st) \<Longrightarrow> ti_ok (snd (fold sync_source fs st))"
proof (induction fs arbitrary: st)
  case (Cons f fs)
  have "ti_ok (snd (sync_source f st))" using Cons.prems ti_ok_UpsertAll [of "snd st"] by (simp add: sync_source_def split: prod.split)
  with Cons.IH show ?case by simp
qed simp

lemma ti_ok_syncOnce: "ti_ok s \<Longrightarrow> ti_ok (syncOnce_ti now ttl fs s)"
  using sync_sources_ok [of "(False, s)" fs] ti_ok_Prune
  by (cases "fold sync_source fs (False, s)") (auto simp: syncOnce_ti_def)

interpretation tm: machine "sync_cycle ttl" ti_ok for ttl
  by unfold_locales (simp add: sync_cycle_def ti_ok_syncOnce)

lemma ti_ok_empty: "ti_ok NewStore_ti"
  by (simp add: ti_ok_def NewStore_ti_def)

text \<open>
  Property C13. Nothing unusable is ever stored. Whatever the feeds answer, in whatever cycles, each stored indicator is
  filed under its own key and fits its type: a domain has at least two well-formed labels, is at most 253
  bytes long, holds no blank, slash or colon and is no public suffix of the table; an address is printed by
  \<open>net\<close> and neither loopback nor unspecified; a fingerprint holds no blank; confidences are within 0..100.
\<close>

theorem stored_indicators_usable:
  "ti_ok (run_syncs ttl cycles NewStore_ti)"
  unfolding run_syncs_def by (rule tm.runs_ok [OF ti_ok_empty])

subsection \<open>Expiry\<close>

definition answered :: "fetch list \<Rightarrow> bool" where
  "answered fs \<longleftrightarrow> (\<exists>f \<in> set fs. \<not> snd f)"

text \<open>The rows of the sources that reported no error, in order.\<close>

definition rows_of :: "fetch list \<Rightarrow> indicator list" where
  "rows_of fs = List.concat (List.map (\<lambda>f. if snd f then [] else fst f) fs)"

lemma accepted_append: "accepted (xs @ ys) = accepted xs @ accepted ys"
  by (induction xs) (simp_all split: sum.split)

lemma sync_sources_eq: "fold sync_source fs st = (fst st \<or> answered fs, fold Upsert_ti (accepted (rows_of fs)) (snd st))"
proof (induction fs arbitrary: st)
  case (Cons f fs)
  show ?case unfolding fold_Cons comp_def Cons.IH
    by (simp add: sync_source_def answered_def rows_of_def accepted_append UpsertAll_eq split: prod.split)
qed (simp add: answered_def rows_of_def)

lemma syncOnce_ti_eq: "syncOnce_ti now ttl fs s =
    (let s' = fold Upsert_ti (accepted (rows_of fs)) s in if answered fs \<and> ttl > 0 then snd (PruneBefore (now - ttl) s') else s')"
  by (simp add: syncOnce_ti_def sync_sources_eq Let_def)

text \<open>
  Further fact. Expiry goes by the dates of the feeds, not by their assertions. A cycle in which every source fails
  changes nothing; after any other cycle with a positive lifetime, exactly those indicators are gone that carry a date
  before the cutoff, including the ones a source has asserted in that very cycle.
\<close>

theorem expiry_by_feed_dates:
  assumes "ti_ok s"
  shows "(\<not> answered fs \<longrightarrow> syncOnce_ti now ttl fs s = s)
    \<and> (answered fs \<and> ttl > 0 \<longrightarrow> mget (syncOnce_ti now ttl fs s) k =
         (case mget (fold Upsert_ti (accepted (rows_of fs)) s) k of
            None \<Rightarrow> None | Some i \<Rightarrow> if stamp i \<noteq> zero_time \<and> stamp i < now - ttl then None else Some i))"
proof -
  have "mwf (fold Upsert_ti (accepted (rows_of fs)) s)"
    using ti_ok_upserts [OF assms] usable_accepted by (auto simp: ti_ok_def)
  moreover have "rows_of fs = []" if "\<not> answered fs" using that by (auto simp: answered_def rows_of_def)
  ultimately show ?thesis by (auto simp: syncOnce_ti_eq Let_def mget_Prune stale_def split: option.split)
qed

definition feodo_feed :: string where
  "feodo_feed = ''# recommended'' @ [CHR 0x0A] @ ''2025-01-01 00:00:00,203.0.113.9,443,2025-12-01 00:00:00,Emotet''"

theorem expiry_by_feed_dates_witness:
  "parseFeodoCSV feodo_feed \<noteq> ([], False) \<and>
   mget (syncOnce_ti (utc 2026 1 15 0 0 0 0) (30 * 86400 * 1000000000) [parseFeodoCSV feodo_feed] NewStore_ti) ''ip:203.0.113.9'' = None"
proof -
  let ?now = "utc 2026 1 15 0 0 0 0" and ?ttl = "30 * 86400 * 1000000000 :: int" and ?fs = "[parseFeodoCSV feodo_feed]"
  have e: "answered ?fs" "parseFeodoCSV feodo_feed \<noteq> ([], False)" by code_simp+
  have m: "map_option stamp (mget (fold Upsert_ti (accepted (rows_of ?fs)) NewStore_ti) ''ip:203.0.113.9'') = Some (utc 2025 12 1 0 0 0 0)"
    by code_simp
  have d: "utc 2025 12 1 0 0 0 0 \<noteq> zero_time \<and> utc 2025 12 1 0 0 0 0 < ?now - ?ttl" by code_simp
  have "mget (syncOnce_ti ?now ?ttl ?fs NewStore_ti) ''ip:203.0.113.9'' = None"
    using expiry_by_feed_dates [OF ti_ok_empty, of ?fs ?now ?ttl "''ip:203.0.113.9''"] e(1) m d by (auto split: option.splits)
  with e(2) show ?thesis by blast
qed

definition undated :: "indicator \<Rightarrow> bool" where
  "undated i \<longleftrightarrow> in_FirstSeen i = zero_time \<and> in_LastSeen i = zero_time"

lemma undated_Merge: "undated i \<Longrightarrow> undated v \<Longrightarrow> undated (Merge i v)"
  by (simp add: undated_def)

lemma undated_upserts:
  "\<exists>i. mget s k = Some i \<and> undated i \<Longrightarrow> \<forall>v \<in> set vs. Key v = k \<longrightarrow> undated v \<Longrightarrow> \<exists>i. mget (fold Upsert_ti vs s) k = Some i \<and> undated i"
proof (induction vs arbitrary: s)
  case (Cons v vs)
  then have "\<exists>i. mget (Upsert_ti v s) k = Some i \<and> undated i" by (auto simp: mget_Upsert undated_Merge)
  with Cons show ?case by simp
qed simp

lemma undated_cycle:
  assumes "ti_ok s" "\<exists>i. mget s k = Some i \<and> undated i" "\<forall>v \<in> set (accepted (rows_of (snd c))). Key v = k \<longrightarrow> undated v"
  shows "\<exists>i. mget (sync_cycle ttl c s) k = Some i \<and> undated i"
proof -
  obtain i where i: "mget (fold Upsert_ti (accepted (rows_of (snd c))) s) k = Some i" "undated i"
    using undated_upserts [OF assms(2,3)] by blast
  have "mwf (fold Upsert_ti (accepted (rows_of (snd c))) s)" using ti_ok_upserts [OF assms(1)] usable_accepted by (auto simp: ti_ok_def)
  with i show ?thesis by (auto simp: sync_cycle_def syncOnce_ti_eq Let_def mget_Prune stale_def stamp_def undated_def)
qed

text \<open>
  Further fact. What a feed does not date is kept for ever. An indicator without dates, as every Spamhaus network is,
  stays through any number of later cycles, at any later time and although no source asserts it any more, as long as
  no row gives it a date.
\<close>

theorem undated_never_expires:
  assumes "ti_ok s" "mget s k = Some i" "undated i"
    and "\<forall>c \<in> set cycles. \<forall>v \<in> set (accepted (rows_of (snd c))). Key v = k \<longrightarrow> undated v"
  shows "mget (run_syncs ttl cycles s) k \<noteq> None"
proof -
  have "ti_ok (run_syncs ttl cycles s) \<and> (\<exists>i. mget (run_syncs ttl cycles s) k = Some i \<and> undated i)"
    using assms(4)
  proof (induction cycles rule: rev_induct)
    case (snoc c cycles)
    then have IH: "ti_ok (run_syncs ttl cycles s)" "\<exists>i. mget (run_syncs ttl cycles s) k = Some i \<and> undated i" by simp_all
    have "run_syncs ttl (cycles @ [c]) s = sync_cycle ttl c (run_syncs ttl cycles s)" by (simp add: run_syncs_def)
    then show ?case using undated_cycle [OF IH, of c ttl] tm.run_ok [OF IH(1)] snoc.prems by simp
  qed (use assms(1-3) in \<open>simp add: run_syncs_def\<close>)
  then show ?thesis by auto
qed

definition drop_feed :: string where
  "drop_feed = ''; Spamhaus DROP List'' @ [CHR 0x0A] @ ''1.10.16.0/20 ; SBL256894''"

text \<open>The network is withdrawn by 2027 and still there in 2036.\<close>

theorem undated_never_expires_witness:
  "mget (run_syncs (30 * 86400 * 1000000000) [(utc 2027 1 1 0 0 0 0, [FetchAll (Some []) (Some [])]), (utc 2036 1 1 0 0 0 0, [FetchAll (Some []) (Some [])])]
     (sync_cycle (30 * 86400 * 1000000000) (utc 2026 1 1 0 0 0 0, [FetchAll (Some drop_feed) (Some [])]) NewStore_ti)) ''ip:1.10.16.0/20'' \<noteq> None"
proof -
  let ?ttl = "30 * 86400 * 1000000000 :: int"
  let ?s = "sync_cycle ?ttl (utc 2026 1 1 0 0 0 0, [FetchAll (Some drop_feed) (Some [])]) NewStore_ti"
  have "map_option undated (mget ?s ''ip:1.10.16.0/20'') = Some True" by code_simp
  then obtain i where i: "mget ?s ''ip:1.10.16.0/20'' = Some i" "undated i" by auto
  have none: "accepted (rows_of [FetchAll (Some []) (Some [])]) = []" by code_simp
  show ?thesis by (rule undated_never_expires [OF tm.run_ok [OF ti_ok_empty] i]) (simp add: none)
qed

end
