(* ===== verification/TiService.thy ===== *)
theory TiService
  imports TiSync TiExport GoHttp GoDuration
begin

text \<open>
  The threat-intelligence service as it runs: the HTTP requests of its five feeds (\<open>threat-intel-sync/internal/abusech\<close>,
  \<open>internal/spamhaus\<close>, \<open>internal/misp\<close>), what its environment configures, and a whole cycle over the network
  (\<open>cmd/threat-intel-sync/main.go\<close>). The exchange, the JSON codecs and \<open>url.Parse\<close> are parameters. A result has the
  indicators and the error, which may come together. The pages of MISP are asked for until one is short, so a cycle is an
  option, \<open>None\<close> when it does not return.
\<close>

subsection \<open>One request\<close>

text \<open>The exchange all feeds share: a good status and its body, or the error.\<close>

definition fetch_ok :: "'w web \<Rightarrow> string \<Rightarrow> http_request \<Rightarrow> 'w \<Rightarrow> (string + string) \<times> 'w" where
  "fetch_ok web feed req w =
     (case web_parse web (hr_url req) of
        Some e \<Rightarrow> (Inl (''create request: '' @ e), w)
      | None \<Rightarrow>
          (let (r, w') = web_do web req w
           in case r of
                Transport e \<Rightarrow> (Inl (''request: '' @ e), w')
              | Response code body \<Rightarrow>
                  if code \<noteq> 200 then (Inl (feed @ '' '' @ show_int code @ '': '' @ take 1024 body), w') else (Inr body, w')))"

definition get_request :: "string \<Rightarrow> http_request" where
  "get_request u = \<lparr> hr_method = ''GET'', hr_url = u, hr_headers = [], hr_auth = None, hr_body = [] \<rparr>"

type_synonym fetched = "indicator list \<times> string option"

definition scanned :: "string \<Rightarrow> indicator list \<times> bool \<Rightarrow> fetched" where
  "scanned label r = (fst r, if snd r then Some (label @ ''bufio.Scanner: token too long'') else None)"

subsection \<open>The feeds\<close>

definition feodo_http :: "'w web \<Rightarrow> 'w \<Rightarrow> fetched \<times> 'w" where
  "feodo_http web w =
     (case fetch_ok web ''Feodo'' (get_request ''https://feodotracker.abuse.ch/downloads/ipblocklist_recommended.csv'') w of
        (Inl e, w') \<Rightarrow> (([], Some e), w')
      | (Inr body, w') \<Rightarrow> (scanned ''read CSV: '' (parseFeodoCSV body), w'))"

definition fetchList :: "'w web \<Rightarrow> string \<Rightarrow> string \<Rightarrow> string \<Rightarrow> 'w \<Rightarrow> fetched \<times> 'w" where
  "fetchList web u source tag w =
     (case fetch_ok web ''Spamhaus'' (get_request u) w of
        (Inl e, w') \<Rightarrow> (([], Some e), w')
      | (Inr body, w') \<Rightarrow> (scanned ''read list: '' (parseDROPList body source tag), w'))"

definition FetchDROP :: "'w web \<Rightarrow> 'w \<Rightarrow> fetched \<times> 'w" where
  "FetchDROP web = fetchList web ''https://www.spamhaus.org/drop/drop.txt'' ''spamhaus-drop'' ''drop''"

definition FetchEDROP :: "'w web \<Rightarrow> 'w \<Rightarrow> fetched \<times> 'w" where
  "FetchEDROP web = fetchList web ''https://www.spamhaus.org/drop/edrop.txt'' ''spamhaus-edrop'' ''edrop''"

definition spamhaus_http :: "'w web \<Rightarrow> 'w \<Rightarrow> fetched \<times> 'w" where
  "spamhaus_http web w =
     (let ((drops, e1), w1) = FetchDROP web w; ((edrops, e2), w2) = FetchEDROP web w1
      in ((drops @ edrops, (case e1 of Some e \<Rightarrow> Some (''DROP: '' @ e)
            | None \<Rightarrow> (case e2 of Some e \<Rightarrow> Some (''EDROP: '' @ e) | None \<Rightarrow> None))), w2))"

text \<open>\<open>json.Marshal\<close> of the map, whose keys it sorts.\<close>

definition threatfox_payload :: "int \<Rightarrow> string" where
  "threatfox_payload days = ''{'' @ [CHR 0x22] @ ''days'' @ [CHR 0x22] @ '':'' @ show_int days @ '','' @ [CHR 0x22] @ ''query'' @ [CHR 0x22]
     @ '':'' @ [CHR 0x22] @ ''get_iocs'' @ [CHR 0x22] @ ''}''"

definition threatfox_http :: "'w web \<Rightarrow> (string \<Rightarrow> string + string \<times> threatfox_entry list) \<Rightarrow> int \<Rightarrow> 'w \<Rightarrow> fetched \<times> 'w" where
  "threatfox_http web decode days w =
     (let days = (if days \<le> 0 then 7 else days)
      in case fetch_ok web ''ThreatFox'' \<lparr> hr_method = ''POST'', hr_url = ''https://threatfox-api.abuse.ch/api/v1/'',
             hr_headers = [(''Content-Type'', ''application/json'')], hr_auth = None, hr_body = threatfox_payload days \<rparr> w of
           (Inl e, w') \<Rightarrow> (([], Some e), w')
         | (Inr body, w') \<Rightarrow>
             (case decode body of
                Inl e \<Rightarrow> (([], Some (''decode: '' @ e)), w')
              | Inr (status, entries) \<Rightarrow>
                  if status \<noteq> ''ok'' then (([], Some (''ThreatFox query_status: '' @ status)), w')
                  else ((List.map_filter threatfox_indicator entries, None), w')))"

definition urlhaus_http :: "'w web \<Rightarrow> (string \<Rightarrow> string option) \<Rightarrow> (string \<Rightarrow> string + string \<times> urlhaus_entry list) \<Rightarrow> int \<Rightarrow> 'w
    \<Rightarrow> fetched \<times> 'w" where
  "urlhaus_http web url_host decode limit w =
     (let limit = (if limit \<le> 0 then 1000 else limit)
      in case fetch_ok web ''URLhaus'' \<lparr> hr_method = ''POST'', hr_url = ''https://urlhaus-api.abuse.ch/v1/urls/recent/'',
             hr_headers = [(''Content-Type'', ''application/x-www-form-urlencoded'')], hr_auth = None,
             hr_body = escaped_pair (''limit'', show_int limit) \<rparr> w of
           (Inl e, w') \<Rightarrow> (([], Some e), w')
         | (Inr body, w') \<Rightarrow>
             (case decode body of
                Inl e \<Rightarrow> (([], Some (''decode: '' @ e)), w')
              | Inr (status, urls) \<Rightarrow>
                  if status \<noteq> ''ok'' then (([], Some (''URLhaus query_status: '' @ status)), w')
                  else ((List.concat (List.map (urlhaus_indicators url_host) urls), None), w')))"

subsection \<open>MISP\<close>

record search_request =
  sr_Types :: "string list"
  sr_Published :: bool
  sr_Timestamp :: string
  sr_Limit :: int
  sr_Page :: int
  sr_ToIDs :: bool
  sr_EnforceWarninglist :: bool

definition search_body :: "search_request \<Rightarrow> (string \<times> json_value) list" where
  "search_body r =
     [(''returnFormat'', JString ''json'')]
     @ (if sr_Types r \<noteq> [] then [(''type'', JStrings (sr_Types r))] else [])
     @ (if sr_Published r then [(''published'', JInt 1)] else [])
     @ (if sr_Timestamp r \<noteq> [] then [(''timestamp'', JString (sr_Timestamp r))] else [])
     @ (if sr_Limit r > 0 then [(''limit'', JInt (sr_Limit r))] else [])
     @ (if sr_Page r > 0 then [(''page'', JInt (sr_Page r))] else [])
     @ (if sr_ToIDs r then [(''to_ids'', JInt 1)] else [])
     @ (if sr_EnforceWarninglist r then [(''enforceWarninglist'', JBool True)] else [])"

record misp_client =
  mc_baseURL :: string
  mc_apiKey :: string

definition NewMispClient :: "string \<Rightarrow> string \<Rightarrow> misp_client" where
  "NewMispClient baseURL apiKey = \<lparr> mc_baseURL = trim_right_char baseURL (CHR ''/''), mc_apiKey = apiKey \<rparr>"

text \<open>The codecs of the JSON messages.\<close>

record codecs =
  cd_search :: "(string \<times> json_value) list \<Rightarrow> string + string"
  cd_misp :: "string \<Rightarrow> string + attribute list"
  cd_threatfox :: "string \<Rightarrow> string + string \<times> threatfox_entry list"
  cd_urlhaus :: "string \<Rightarrow> string + string \<times> urlhaus_entry list"
  cd_url_host :: "string \<Rightarrow> string option"

definition FetchAttributes :: "'w web \<Rightarrow> codecs \<Rightarrow> misp_client \<Rightarrow> search_request \<Rightarrow> 'w \<Rightarrow> (string + attribute list) \<times> 'w" where
  "FetchAttributes web cd c r w =
     (case cd_search cd (search_body r) of
        Inl e \<Rightarrow> (Inl (''marshal search body: '' @ e), w)
      | Inr payload \<Rightarrow>
          (case fetch_ok web ''MISP'' \<lparr> hr_method = ''POST'', hr_url = mc_baseURL c @ ''/attributes/restSearch'',
                 hr_headers = [(''Authorization'', mc_apiKey c), (''Content-Type'', ''application/json''), (''Accept'', ''application/json'')],
                 hr_auth = None, hr_body = payload \<rparr> w of
             (Inl e, w') \<Rightarrow> (Inl e, w')
           | (Inr body, w') \<Rightarrow>
               (case cd_misp cd body of Inl e \<Rightarrow> (Inl (''decode: '' @ e), w') | Inr attrs \<Rightarrow> (Inr attrs, w'))))"

partial_function (option) fetch_all ::
  "'w web \<Rightarrow> codecs \<Rightarrow> misp_client \<Rightarrow> search_request \<Rightarrow> attribute list \<Rightarrow> 'w \<Rightarrow> ((attribute list \<times> string option) \<times> 'w) option" where
  "fetch_all web cd c r acc w =
     (case FetchAttributes web cd c r w of
        (Inl e, w') \<Rightarrow> Some ((acc, Some (''page '' @ show_int (sr_Page r) @ '': '' @ e)), w')
      | (Inr attrs, w') \<Rightarrow>
          if int (length attrs) < sr_Limit r then Some ((acc @ attrs, None), w')
          else fetch_all web cd c (r \<lparr> sr_Page := sr_Page r + 1 \<rparr>) (acc @ attrs) w')"

text \<open>\<open>FetchAllAttributes\<close>, with its defaults; \<open>fetch_all\<close> is its loop.\<close>

definition FetchAll_over_http ::
  "'w web \<Rightarrow> codecs \<Rightarrow> misp_client \<Rightarrow> search_request \<Rightarrow> 'w \<Rightarrow> ((attribute list \<times> string option) \<times> 'w) option" where
  "FetchAll_over_http web cd c r w =
     (let r = (if sr_Limit r \<le> 0 then r \<lparr> sr_Limit := 10000 \<rparr> else r); r = (if sr_Page r \<le> 0 then r \<lparr> sr_Page := 1 \<rparr> else r)
      in fetch_all web cd c r [] w)"

text \<open>The pages of a network that keeps its state, as theory \<open>TiSync\<close> has them.\<close>

definition page_server :: "'w web \<Rightarrow> codecs \<Rightarrow> misp_client \<Rightarrow> search_request \<Rightarrow> 'w \<Rightarrow> int \<Rightarrow> int \<Rightarrow> attribute list option" where
  "page_server web cd c r w page limit =
     (case fst (FetchAttributes web cd c (r \<lparr> sr_Page := page, sr_Limit := limit \<rparr>) w) of Inl e \<Rightarrow> None | Inr attrs \<Rightarrow> Some attrs)"

definition settled :: "(attribute list \<times> 'e option) \<Rightarrow> attribute list \<times> bool" where
  "settled r = (fst r, snd r \<noteq> None)"

lemma FetchAttributes_world:
  assumes "\<And>req. snd (web_do web req w) = w"
  shows "snd (FetchAttributes web cd c r w) = w"
  using assms by (auto simp: FetchAttributes_def fetch_ok_def Let_def split: sum.split option.split prod.split http_result.split)
    (metis snd_conv)+

lemma page_server_page [simp]: "page_server web cd c (r \<lparr> sr_Page := p \<rparr>) w = page_server web cd c r w"
  by (simp add: page_server_def fun_eq_iff)

lemma page_server_own:
  "page_server web cd c r w (sr_Page r) (sr_Limit r)
     = (case fst (FetchAttributes web cd c r w) of Inl e \<Rightarrow> None | Inr attrs \<Rightarrow> Some attrs)"
  by (simp add: page_server_def)

text \<open>One page: the loop over the network and the pagination take the same turn.\<close>

lemma network_turn:
  assumes "\<And>req. snd (web_do web req w) = w"
  shows "FetchAttributes web cd c r w = (fst (FetchAttributes web cd c r w), w)"
  using FetchAttributes_world [OF assms, of cd c r] by (simp add: prod_eq_iff)

lemma fetch_all_pages:
  assumes "fetch_all web cd c r acc w = Some res" and "\<And>req. snd (web_do web req w) = w"
  shows "fetch_pages (page_server web cd c r w) (sr_Limit r) (sr_Page r) acc \<noteq> None"
proof -
  have "(\<forall>req. snd (web_do web req w) = w) \<longrightarrow> fetch_pages (page_server web cd c r w) (sr_Limit r) (sr_Page r) acc \<noteq> None"
  proof (rule fetch_all.raw_induct [OF _ assms(1), where P = "\<lambda>web cd c r acc w res. (\<forall>req. snd (web_do web req w) = w) \<longrightarrow>
        fetch_pages (page_server web cd c r w) (sr_Limit r) (sr_Page r) acc \<noteq> None"], intro impI)
    fix f :: "'a web \<Rightarrow> codecs \<Rightarrow> misp_client \<Rightarrow> search_request \<Rightarrow> attribute list \<Rightarrow> 'a \<Rightarrow> ((attribute list \<times> string option) \<times> 'a) option"
      and web :: "'a web" and cd c r acc w res
    assume IH: "\<And>web cd c r acc w res. f web cd c r acc w = Some res \<Longrightarrow> (\<forall>req. snd (web_do web req w) = w) \<longrightarrow>
        fetch_pages (page_server web cd c r w) (sr_Limit r) (sr_Page r) acc \<noteq> None"
      and step: "(case FetchAttributes web cd c r w of
        (Inl e, w') \<Rightarrow> Some ((acc, Some (''page '' @ show_int (sr_Page r) @ '': '' @ e)), w')
      | (Inr attrs, w') \<Rightarrow>
          if int (length attrs) < sr_Limit r then Some ((acc @ attrs, None), w')
          else f web cd c (r \<lparr> sr_Page := sr_Page r + 1 \<rparr>) (acc @ attrs) w') = Some res"
      and w: "\<forall>req. snd (web_do web req w) = w"
    note turn = network_turn [of web w cd c r] w
    show "fetch_pages (page_server web cd c r w) (sr_Limit r) (sr_Page r) acc \<noteq> None"
    proof (cases "fst (FetchAttributes web cd c r w)")
      case (Inl e)
      then show ?thesis by (subst fetch_pages.simps) (simp add: page_server_own)
    next
      case (Inr attrs)
      with turn have F: "FetchAttributes web cd c r w = (Inr attrs, w)" by simp
      show ?thesis
      proof (cases "int (length attrs) < sr_Limit r")
        case False
        with step F have "f web cd c (r \<lparr> sr_Page := sr_Page r + 1 \<rparr>) (acc @ attrs) w = Some res" by simp
        from IH [OF this] w have "fetch_pages (page_server web cd c r w) (sr_Limit r) (sr_Page r + 1) (acc @ attrs) \<noteq> None" by simp
        then show ?thesis using Inr False by (subst fetch_pages.simps) (simp add: page_server_own)
      qed (subst fetch_pages.simps, simp add: page_server_own Inr)
    qed
  qed
  with assms(2) show ?thesis by blast
qed

lemma fetch_pages_all:
  assumes "fetch_pages (page_server web cd c r w) (sr_Limit r) (sr_Page r) acc = Some res" and w: "\<And>req. snd (web_do web req w) = w"
  shows "\<exists>x. fetch_all web cd c r acc w = Some (x, w) \<and> settled x = settled res"
proof -
  have "\<forall>r. server = page_server web cd c r w \<and> limit = sr_Limit r \<and> page = sr_Page r \<longrightarrow>
      (\<exists>x. fetch_all web cd c r acc w = Some (x, w) \<and> settled x = settled res)"
    if "fetch_pages server limit page acc = Some res" for server limit page
  proof (rule fetch_pages.raw_induct [OF _ that, where P = "\<lambda>server limit page acc res. \<forall>r. server = page_server web cd c r w
        \<and> limit = sr_Limit r \<and> page = sr_Page r \<longrightarrow> (\<exists>x. fetch_all web cd c r acc w = Some (x, w) \<and> settled x = settled res)"], intro allI impI)
    fix f :: "(int \<Rightarrow> int \<Rightarrow> attribute list option) \<Rightarrow> int \<Rightarrow> int \<Rightarrow> attribute list \<Rightarrow> (attribute list \<times> int option) option"
      and server limit page acc res r
    assume IH: "\<And>server limit page acc res. f server limit page acc = Some res \<Longrightarrow> \<forall>r. server = page_server web cd c r w
        \<and> limit = sr_Limit r \<and> page = sr_Page r \<longrightarrow> (\<exists>x. fetch_all web cd c r acc w = Some (x, w) \<and> settled x = settled res)"
      and step: "(case server page limit of None \<Rightarrow> Some (acc, Some page)
        | Some attrs \<Rightarrow> if int (length attrs) < limit then Some (acc @ attrs, None) else f server limit (page + 1) (acc @ attrs)) = Some res"
      and eq: "server = page_server web cd c r w \<and> limit = sr_Limit r \<and> page = sr_Page r"
    note turn = network_turn [OF w, of cd c r]
    show "\<exists>x. fetch_all web cd c r acc w = Some (x, w) \<and> settled x = settled res"
    proof (cases "fst (FetchAttributes web cd c r w)")
      case (Inl e)
      with turn have F: "FetchAttributes web cd c r w = (Inl e, w)" by simp
      from step eq Inl have "res = (acc, Some page)" by (simp add: page_server_own)
      then show ?thesis by (subst fetch_all.simps) (simp add: F settled_def)
    next
      case (Inr attrs)
      with turn have F: "FetchAttributes web cd c r w = (Inr attrs, w)" by simp
      have own: "server page limit = Some attrs" using eq Inr by (simp add: page_server_own)
      show ?thesis
      proof (cases "int (length attrs) < sr_Limit r")
        case True
        then have "res = (acc @ attrs, None)" using step own eq by simp
        then show ?thesis using True by (subst fetch_all.simps) (simp add: F settled_def)
      next
        case False
        with step own eq have "f server limit (page + 1) (acc @ attrs) = Some res" by simp
        from IH [OF this, THEN spec, of "r \<lparr> sr_Page := sr_Page r + 1 \<rparr>"] eq
        obtain x where "fetch_all web cd c (r \<lparr> sr_Page := sr_Page r + 1 \<rparr>) (acc @ attrs) w = Some (x, w)" "settled x = settled res" by auto
        then show ?thesis using False by (subst fetch_all.simps) (simp add: F)
      qed
    qed
  qed
  from this [OF assms(1)] show ?thesis by blast
qed

text \<open>
  Further fact. Over a network that keeps its state the loop is the pagination of theory \<open>TiSync\<close> on the pages such a network
  answers with: it returns when that one does, with the same attributes, and with an error when that one names a page.
\<close>

theorem pagination_over_network:
  assumes "\<And>req. snd (web_do web req w) = w"
  shows "map_option (settled \<circ> fst) (fetch_all web cd c r acc w)
    = map_option settled (fetch_pages (page_server web cd c r w) (sr_Limit r) (sr_Page r) acc)"
proof (cases "fetch_pages (page_server web cd c r w) (sr_Limit r) (sr_Page r) acc")
  case None
  then have "fetch_all web cd c r acc w = None"
    using fetch_all_pages [OF _ assms, where cd = cd and c = c and r = r and acc = acc] by (cases "fetch_all web cd c r acc w") auto
  with None show ?thesis by simp
next
  case (Some res)
  from fetch_pages_all [OF this assms] Some show ?thesis by auto
qed

definition misp_search :: "(string \<Rightarrow> string) \<Rightarrow> search_request" where
  "misp_search env =
     \<lparr> sr_Types = [''domain'', ''hostname'', ''ip-dst'', ''ip-src'', ''url'', ''md5'', ''sha256'', ''ja3-fingerprint-md5'',
         ''x509-fingerprint-sha1'', ''x509-fingerprint-sha256''],
       sr_Published = True, sr_Timestamp = (let v = env ''MISP_LOOKBACK'' in if v \<noteq> [] then v else ''7d''), sr_Limit = 0, sr_Page = 0,
       sr_ToIDs = True, sr_EnforceWarninglist = False \<rparr>"

definition misp_http :: "'w web \<Rightarrow> codecs \<Rightarrow> (string \<Rightarrow> string) \<Rightarrow> 'w \<Rightarrow> (fetched \<times> 'w) option" where
  "misp_http web cd env w =
     map_option (\<lambda>((attrs, err), w'). (case err of Some e \<Rightarrow> ([], Some e) | None \<Rightarrow> (mispToIndicators attrs, None), w'))
       (FetchAll_over_http web cd (NewMispClient (env ''MISP_URL'') (env ''MISP_API_KEY'')) (misp_search env) w)"

subsection \<open>The environment and the cycle\<close>

definition parseIntOr :: "string \<Rightarrow> int \<Rightarrow> int" where
  "parseIntOr s fallback = (case atoi s of None \<Rightarrow> fallback | Some n \<Rightarrow> n)"

definition parseDuration_ti :: "string \<Rightarrow> duration \<Rightarrow> duration" where
  "parseDuration_ti s fallback = (case parse_duration s of None \<Rightarrow> fallback | Some d \<Rightarrow> d)"

definition sync_interval :: "(string \<Rightarrow> string) \<Rightarrow> duration" where
  "sync_interval env = parseDuration_ti (env_or env ''SYNC_INTERVAL'' ''6h'') (6 * 3600000000000)"

definition indicator_ttl :: "(string \<Rightarrow> string) \<Rightarrow> duration" where
  "indicator_ttl env = parseDuration_ti (env_or env ''INDICATOR_TTL'' ''720h'') (720 * 3600000000000)"

text \<open>The fetch behind a source's name.\<close>

definition source_fetch :: "'w web \<Rightarrow> codecs \<Rightarrow> (string \<Rightarrow> string) \<Rightarrow> string \<Rightarrow> 'w \<Rightarrow> (fetched \<times> 'w) option" where
  "source_fetch web cd env name w =
     (if name = ''misp'' then misp_http web cd env w
      else if name = ''threatfox'' then Some (threatfox_http web (cd_threatfox cd) (parseIntOr (env_or env ''THREATFOX_DAYS'' ''7'') 7) w)
      else if name = ''urlhaus'' then
        Some (urlhaus_http web (cd_url_host cd) (cd_urlhaus cd) (parseIntOr (env_or env ''URLHAUS_LIMIT'' ''1000'') 1000) w)
      else if name = ''feodo'' then Some (feodo_http web w)
      else Some (spamhaus_http web w))"

definition as_fetch :: "fetched \<Rightarrow> fetch" where
  "as_fetch r = (fst r, snd r \<noteq> None)"

fun fetch_sources :: "'w web \<Rightarrow> codecs \<Rightarrow> (string \<Rightarrow> string) \<Rightarrow> string list \<Rightarrow> 'w \<Rightarrow> (fetch list \<times> 'w) option" where
  "fetch_sources web cd env [] w = Some ([], w)"
| "fetch_sources web cd env (n # ns) w =
     (case source_fetch web cd env n w of
        None \<Rightarrow> None
      | Some (r, w1) \<Rightarrow> map_option (\<lambda>(rs, w2). (as_fetch r # rs, w2)) (fetch_sources web cd env ns w1))"

text \<open>
  A cycle of the running service at an instant: every source is asked and its answer stored in turn, then the store is
  pruned. Storing does not touch the network, so the answers may be collected first. \<open>None\<close>: the process has exited, or the
  cycle does not return.
\<close>

definition service_cycle :: "'w web \<Rightarrow> codecs \<Rightarrow> (string \<Rightarrow> string) \<Rightarrow> instant \<Rightarrow> ti_store \<Rightarrow> 'w \<Rightarrow> (ti_store \<times> 'w) option" where
  "service_cycle web cd env now s w =
     (case configureSources env of
        None \<Rightarrow> None
      | Some names \<Rightarrow> map_option (\<lambda>(fs, w'). (sync_cycle (indicator_ttl env) (now, fs) s, w')) (fetch_sources web cd env names w))"

text \<open>
  The loop: one cycle at once, then one for each tick. \<open>time.NewTicker\<close> panics on an interval that is not positive, which
  ends the process.
\<close>

fun tick_cycles :: "'w web \<Rightarrow> codecs \<Rightarrow> (string \<Rightarrow> string) \<Rightarrow> instant list \<Rightarrow> ti_store \<Rightarrow> 'w \<Rightarrow> (ti_store \<times> 'w) option" where
  "tick_cycles web cd env [] s w = Some (s, w)"
| "tick_cycles web cd env (t # ts) s w =
     (case service_cycle web cd env t s w of None \<Rightarrow> None | Some (s1, w1) \<Rightarrow> tick_cycles web cd env ts s1 w1)"

definition runSyncLoop :: "'w web \<Rightarrow> codecs \<Rightarrow> (string \<Rightarrow> string) \<Rightarrow> instant \<Rightarrow> instant list \<Rightarrow> ti_store \<Rightarrow> 'w \<Rightarrow> (ti_store \<times> 'w) option" where
  "runSyncLoop web cd env start ticks s w =
     (case service_cycle web cd env start s w of
        None \<Rightarrow> None
      | Some (s1, w1) \<Rightarrow> if sync_interval env \<le> 0 then None else tick_cycles web cd env ticks s1 w1)"

subsection \<open>The exports over HTTP\<close>

text \<open>A response: its status, its content type and its body. The JSON encoders are parameters.\<close>

type_synonym ti_response = "int \<times> string \<times> string"

definition HandleJSON :: "(indicator list \<Rightarrow> string) \<Rightarrow> ti_store \<Rightarrow> ti_response" where
  "HandleJSON encode s = (200, ''application/json'', encode (All s))"

definition HandleCSV :: "ti_store \<Rightarrow> string list \<Rightarrow> ti_response" where
  "HandleCSV s types = (200, ''text/csv; charset=utf-8'', WriteCSV (All s) types)"

definition ti_mux :: "(indicator list \<Rightarrow> string) \<Rightarrow> (ndjson_entry \<Rightarrow> string) \<Rightarrow> string \<Rightarrow> string \<Rightarrow> ti_store \<Rightarrow> ti_response option" where
  "ti_mux encode encode_entry verb path s =
     (let plain = (\<lambda>body. Some (200, ''text/plain; charset=utf-8'', body));
          dataset = (\<lambda>key t. Some (200, ''application/x-ndjson'', write_lines (List.map encode_entry (HandleSuricataJSONDataset s key [t]))))
      in if \<not> (verb = ''GET'' \<or> verb = ''HEAD'') then None
         else if path = ''/export/adguard'' then plain (HandleAdGuard s)
         else if path = ''/export/suricata/domains'' then plain (HandleSuricataDataset s True [TypeDomain])
         else if path = ''/export/suricata/ips'' then plain (HandleSuricataDataset s False [TypeIP])
         else if path = ''/export/suricata/domains.json'' then dataset ''domain'' TypeDomain
         else if path = ''/export/suricata/ips.json'' then dataset ''ip'' TypeIP
         else if path = ''/export/suricata/md5'' then plain (HandleSuricataDataset s False [TypeMD5])
         else if path = ''/export/suricata/sha256'' then plain (HandleSuricataDataset s False [TypeSHA256])
         else if path = ''/export/zeek/intel.dat'' then plain (HandleZeekIntel s)
         else if path = ''/export/json'' then Some (HandleJSON encode s)
         else if path = ''/export/csv'' then Some (HandleCSV s [TypeDomain, TypeIP])
         else None)"

subsection \<open>An outage\<close>

definition refused :: "http_result \<Rightarrow> bool" where
  "refused r = (case r of Transport _ \<Rightarrow> True | Response code _ \<Rightarrow> code \<noteq> 200)"

definition outage :: "'w web \<Rightarrow> bool" where
  "outage web \<longleftrightarrow> (\<forall>req w. refused (fst (web_do web req w)))"

lemma fetch_ok_outage:
  assumes "outage web"
  shows "\<exists>e w'. fetch_ok web feed req w = (Inl e, w')"
proof (cases "web_parse web (hr_url req)")
  case None
  obtain r w' where r: "web_do web req w = (r, w')" by fastforce
  have "refused r" using assms r unfolding outage_def by (metis fst_conv)
  then show ?thesis using None r by (cases r) (simp_all add: fetch_ok_def refused_def)
qed (simp add: fetch_ok_def)

lemma misp_outage:
  assumes "outage web"
  shows "\<exists>e w'. misp_http web cd env w = Some (([], Some e), w')"
proof -
  have page: "\<exists>e w'. FetchAttributes web cd c r w = (Inl e, w')" for c r
  proof (cases "cd_search cd (search_body r)")
    case (Inr payload)
    define req where "req = \<lparr> hr_method = ''POST'', hr_url = mc_baseURL c @ ''/attributes/restSearch'',
      hr_headers = [(''Authorization'', mc_apiKey c), (''Content-Type'', ''application/json''), (''Accept'', ''application/json'')],
      hr_auth = None, hr_body = payload \<rparr>"
    obtain e w' where "fetch_ok web ''MISP'' req w = (Inl e, w')" using fetch_ok_outage [OF assms, of "''MISP''" req w] by blast
    then show ?thesis using Inr by (simp add: FetchAttributes_def req_def)
  qed (simp add: FetchAttributes_def)
  have "\<exists>e w'. fetch_all web cd c r acc w = Some ((acc, Some e), w')" for c r acc
    using page [of c r] by (subst fetch_all.simps) auto
  then show ?thesis unfolding misp_http_def FetchAll_over_http_def Let_def by fastforce
qed

lemma after_outage:
  assumes "outage web"
  shows "\<exists>e w'. (case fetch_ok web feed req w of (Inl e, w') \<Rightarrow> (([], Some e), w') | (Inr body, w') \<Rightarrow> f body w') = (([], Some e), w')"
  using fetch_ok_outage [OF assms, of feed req w] by (elim exE) simp

lemma spamhaus_outage:
  assumes "outage web"
  shows "\<exists>e w'. spamhaus_http web w = (([], Some e), w')"
proof -
  have one: "\<exists>e w'. fetchList web u src tag w = (([], Some e), w')" for u src tag w
    unfolding fetchList_def by (rule after_outage [OF assms])
  obtain e1 w1 where 1: "FetchDROP web w = (([], Some e1), w1)" unfolding FetchDROP_def using one by blast
  obtain e2 w2 where 2: "FetchEDROP web w1 = (([], Some e2), w2)" unfolding FetchEDROP_def using one by blast
  show ?thesis by (simp add: spamhaus_http_def 1 2)
qed

lemma source_outage:
  assumes "outage web"
  shows "\<exists>e w'. source_fetch web cd env n w = Some (([], Some e), w')"
proof -
  have feodo: "\<exists>e w'. feodo_http web w = (([], Some e), w')" unfolding feodo_http_def by (rule after_outage [OF assms])
  have tf: "\<exists>e w'. threatfox_http web dec d w = (([], Some e), w')" for dec d
    unfolding threatfox_http_def Let_def by (rule after_outage [OF assms])
  have uh: "\<exists>e w'. urlhaus_http web h dec d w = (([], Some e), w')" for h dec d
    unfolding urlhaus_http_def Let_def by (rule after_outage [OF assms])
  show ?thesis
    using feodo tf uh misp_outage [OF assms, of cd env w] spamhaus_outage [OF assms, of w]
    by (simp add: source_fetch_def del: mispToIndicators_def split: if_split)
qed

lemma fetch_sources_outage:
  assumes "outage web"
  shows "\<exists>fs w'. fetch_sources web cd env ns w = Some (fs, w') \<and> \<not> answered fs"
proof (induction ns arbitrary: w)
  case (Cons n ns)
  obtain e w1 where 1: "source_fetch web cd env n w = Some (([], Some e), w1)" using source_outage [OF assms] by blast
  obtain fs w2 where "fetch_sources web cd env ns w1 = Some (fs, w2)" "\<not> answered fs" using Cons.IH by blast
  then show ?case by (simp add: 1 answered_def as_fetch_def)
qed (simp add: answered_def)

lemma cycle_outage:
  assumes "outage web" "configureSources env = Some names"
  shows "\<exists>w'. service_cycle web cd env now s w = Some (s, w')"
proof -
  obtain fs w' where fs: "fetch_sources web cd env names w = Some (fs, w')" "\<not> answered fs"
    using fetch_sources_outage [OF assms(1)] by blast
  then have "rows_of fs = []" by (auto simp: answered_def rows_of_def)
  with fs show ?thesis using assms(2) by (simp add: service_cycle_def sync_cycle_def syncOnce_ti_eq Let_def)
qed

lemma ticks_outage:
  assumes "outage web" "configureSources env = Some names"
  shows "\<exists>w'. tick_cycles web cd env ts s w = Some (s, w')"
proof (induction ts arbitrary: w)
  case (Cons t ts)
  obtain w1 where "service_cycle web cd env t s w = Some (s, w1)" using cycle_outage [OF assms] by blast
  with Cons.IH show ?case by simp
qed simp

text \<open>
  Property C40. An outage costs no indicator. While no request is answered with status 200, every cycle of the service ends,
  however many there are, and leaves the store as it was. The only exits are the configuration of MISP without its key,
  and a \<open>SYNC_INTERVAL\<close> that reads as zero or less: the service then panics after its first cycle.
\<close>

theorem outage_keeps_store:
  assumes "outage web"
  shows "case runSyncLoop web cd env start ticks s w of
     Some (s', w') \<Rightarrow> s' = s
   | None \<Rightarrow> configureSources env = None \<or> sync_interval env \<le> 0"
proof (cases "configureSources env")
  case (Some names)
  obtain w1 where 1: "service_cycle web cd env start s w = Some (s, w1)" using cycle_outage [OF assms Some] by blast
  obtain w2 where 2: "tick_cycles web cd env ticks s w1 = Some (s, w2)" using ticks_outage [OF assms Some] by blast
  show ?thesis by (simp add: runSyncLoop_def 1 2)
qed (simp add: runSyncLoop_def service_cycle_def)

definition dead_web :: "nat web" where
  "dead_web = \<lparr> web_parse = (\<lambda>_. None), web_do = (\<lambda>_ n. (Response 503 ''down'', Suc n)) \<rparr>"

definition sample_codecs :: codecs where
  "sample_codecs = \<lparr> cd_search = (\<lambda>_. Inr []), cd_misp = (\<lambda>_. Inl ''no JSON''), cd_threatfox = (\<lambda>_. Inl ''no JSON''),
     cd_urlhaus = (\<lambda>_. Inl ''no JSON''), cd_url_host = (\<lambda>_. None) \<rparr>"

text \<open>Three cycles with the default sources: fifteen requests, and the store is the same.\<close>

theorem outage_keeps_store_witness:
  "map_option fst (runSyncLoop dead_web sample_codecs (\<lambda>_. []) 0 [1, 2] NewStore_ti 0) = Some NewStore_ti"
proof -
  have "outage dead_web" by (simp add: outage_def dead_web_def refused_def)
  moreover have "configureSources (\<lambda>_. []) \<noteq> None" by (simp add: configureSources_def)
  moreover have "sync_interval (\<lambda>_. []) = 21600000000000" by code_simp
  ultimately show ?thesis
    using outage_keeps_store [where web = dead_web and cd = sample_codecs and env = "\<lambda>_. []" and start = 0 and ticks = "[1, 2]"
      and s = NewStore_ti and w = 0] by (auto split: option.splits)
qed

subsection \<open>Over the network, too, only usable indicators are stored\<close>

lemma cycle_ok: "service_cycle web cd env now s w = Some (s', w') \<Longrightarrow> ti_ok s \<Longrightarrow> ti_ok s'"
  by (auto simp: service_cycle_def sync_cycle_def ti_ok_syncOnce split: option.splits)

lemma loop_ok:
  assumes "tick_cycles web cd env ts s w = Some (s', w')" "ti_ok s"
  shows "ti_ok s'"
  using assms by (induction ts arbitrary: s w) (auto split: option.splits dest: cycle_ok)

text \<open>
  Further fact. What the stored indicators satisfy after any answers holds for the running service: after its loop has run
  for any time, the store is well formed and every indicator is filed under its key and usable.
\<close>

theorem network_stores_usable:
  assumes "runSyncLoop web cd env start ticks NewStore_ti w = Some (s', w')"
  shows "ti_ok s'"
proof -
  from assms obtain s1 w1 where "service_cycle web cd env start NewStore_ti w = Some (s1, w1)"
      "tick_cycles web cd env ticks s1 w1 = Some (s', w')"
    by (auto simp: runSyncLoop_def split: option.splits if_splits)
  then show ?thesis by (intro loop_ok [OF _ cycle_ok [OF _ ti_ok_empty]])
qed

end
