(* ===== verification/Clients.thy ===== *)
theory Clients
  imports GoHttp DetectEngine Ingest Feedback
begin

text \<open>
  The HTTP clients of the services: ClickHouse for the inventory (\<open>device-inventory/internal/clickhouse\<close>), for the audit log of
  the killswitch (\<open>killswitch-controller/internal/actions/audit.go\<close>) and for the detection engine
  (\<open>internal/ingest/clickhouse.go\<close>, \<open>internal/correlator/writer.go\<close>, \<open>internal/feedback/clickhouse.go\<close>), and AdGuard's query log
  (\<open>internal/adguard/client.go\<close>). What they send is modelled to the byte, and so is every branch on the answer. The exchange and
  the JSON codecs are parameters; a response is its whole body. Timeouts are transport errors.
\<close>

subsection \<open>The client of the inventory\<close>

definition lf :: string where [simp]: "lf = [CHR 0x0A]"

record ch_client =
  cc_baseURL :: string
  cc_database :: string
  cc_user :: string
  cc_password :: string

definition ch_auth :: "ch_client \<Rightarrow> (string \<times> string) list" where
  "ch_auth c =
     (if cc_user c \<noteq> [] then [(''X-ClickHouse-User'', cc_user c), (''X-ClickHouse-Key'', cc_password c)] else [])"

definition ch_status :: "int \<Rightarrow> string \<Rightarrow> string" where
  "ch_status code body = ''clickhouse '' @ show_int code @ '': '' @ take 512 body"

text \<open>What every client makes of the answer to a write.\<close>

definition send_checked :: "'w web \<Rightarrow> string \<Rightarrow> http_request \<Rightarrow> 'w \<Rightarrow> string option \<times> 'w" where
  "send_checked web label req w =
     (let (r, w') = web_do web req w
      in case r of
           Transport e \<Rightarrow> (Some (label @ e), w')
         | Response code body \<Rightarrow> if code \<noteq> 200 then (Some (ch_status code body), w') else (None, w'))"

definition ch_do :: "'w web \<Rightarrow> http_request \<Rightarrow> 'w \<Rightarrow> string option \<times> 'w" where
  "ch_do web = send_checked web ''request: ''"

definition ch_Exec :: "'w web \<Rightarrow> ch_client \<Rightarrow> string \<Rightarrow> 'w \<Rightarrow> string option \<times> 'w" where
  "ch_Exec web c query w =
     (let u = cc_baseURL c @ ''/?database='' @ query_escape (cc_database c)
      in case web_parse web u of
           Some e \<Rightarrow> (Some (''create request: '' @ e), w)
         | None \<Rightarrow> ch_do web \<lparr> hr_method = ''POST'', hr_url = u, hr_headers = ch_auth c, hr_auth = None, hr_body = query \<rparr> w)"

fun marshal_rows :: "('e \<Rightarrow> string + string) \<Rightarrow> 'e list \<Rightarrow> string + string" where
  "marshal_rows marshal [] = Inr []"
| "marshal_rows marshal (r # rs) =
     (case marshal r of
        Inl e \<Rightarrow> Inl (''marshal: '' @ e)
      | Inr b \<Rightarrow> (case marshal_rows marshal rs of Inl e \<Rightarrow> Inl e | Inr bs \<Rightarrow> Inr (b @ lf @ bs)))"

definition insert_url :: "string \<Rightarrow> string \<Rightarrow> string \<Rightarrow> string" where
  "insert_url baseURL database query =
     baseURL @ ''/?database='' @ query_escape database @ ''&query='' @ query_escape query"

definition insert_query :: "string \<Rightarrow> string" where
  "insert_query tbl = ''INSERT INTO '' @ tbl @ '' FORMAT JSONEachRow''"

definition ch_Insert :: "'w web \<Rightarrow> ('e \<Rightarrow> string + string) \<Rightarrow> ch_client \<Rightarrow> string \<Rightarrow> 'e list \<Rightarrow> 'w \<Rightarrow> string option \<times> 'w" where
  "ch_Insert web marshal c tbl records w =
     (if records = [] then (None, w)
      else case marshal_rows marshal records of
          Inl e \<Rightarrow> (Some e, w)
        | Inr buf \<Rightarrow>
            (let u = insert_url (cc_baseURL c) (cc_database c) (insert_query tbl)
             in case web_parse web u of
                  Some e \<Rightarrow> (Some (''create request: '' @ e), w)
                | None \<Rightarrow> ch_do web \<lparr> hr_method = ''POST'', hr_url = u, hr_headers = ch_auth c, hr_auth = None, hr_body = buf \<rparr> w))"

text \<open>
  \<open>Query\<close>: only the first of the optional maps counts; its entries follow in the order of the range. The envelope and its
  \<open>data\<close> are decoded in two steps, the second error being passed on as it is.
\<close>

definition query_url :: "ch_client \<Rightarrow> string \<Rightarrow> (string, string) gomap list \<Rightarrow> string" where
  "query_url c query params =
     cc_baseURL c @ ''/?database='' @ query_escape (cc_database c) @ ''&query='' @ query_escape (query @ '' FORMAT JSON'')
     @ (case params of
          [] \<Rightarrow> []
        | m # _ \<Rightarrow> List.concat (List.map (\<lambda>(k, v). ''&param_'' @ query_escape k @ ''='' @ query_escape v) m))"

definition query_request :: "ch_client \<Rightarrow> string \<Rightarrow> (string, string) gomap list \<Rightarrow> http_request" where
  "query_request c query params =
     \<lparr> hr_method = ''GET'', hr_url = query_url c query params, hr_headers = ch_auth c, hr_auth = None, hr_body = [] \<rparr>"

definition ch_Query :: "'w web \<Rightarrow> (string \<Rightarrow> string + string) \<Rightarrow> (string \<Rightarrow> string + 'r list) \<Rightarrow> ch_client \<Rightarrow> string
    \<Rightarrow> (string, string) gomap list \<Rightarrow> 'w \<Rightarrow> (string + 'r list) \<times> 'w" where
  "ch_Query web envelope unmarshal c query params w =
     (case web_parse web (query_url c query params) of
        Some e \<Rightarrow> (Inl (''create request: '' @ e), w)
      | None \<Rightarrow>
          (let (r, w') = web_do web (query_request c query params) w
           in case r of
                Transport e \<Rightarrow> (Inl (''request: '' @ e), w')
              | Response code body \<Rightarrow>
                  if code \<noteq> 200 then (Inl (ch_status code body), w')
                  else (case envelope body of
                          Inl e \<Rightarrow> (Inl (''decode: '' @ e), w')
                        | Inr rows \<Rightarrow> (unmarshal rows, w'))))"

definition schemaDDL :: "string list" where
  "schemaDDL =
     [join lf [''CREATE TABLE IF NOT EXISTS devices ('',
        [CHR 0x09, CHR 0x09] @ ''mac          String,'',
        [CHR 0x09, CHR 0x09] @ ''ip           String,'',
        [CHR 0x09, CHR 0x09] @ ''hostname     String,'',
        [CHR 0x09, CHR 0x09] @ ''fingerprint  String,'',
        [CHR 0x09, CHR 0x09] @ ''vendor_class String,'',
        [CHR 0x09, CHR 0x09] @ ''vendor       String,'',
        [CHR 0x09, CHR 0x09] @ ''os           String,'',
        [CHR 0x09, CHR 0x09] @ ''device_type  String,'',
        [CHR 0x09, CHR 0x09] @ ''stable_id    String,'',
        [CHR 0x09, CHR 0x09] @ ''labels       Array(String),'',
        [CHR 0x09, CHR 0x09] @ ''first_seen   DateTime,'',
        [CHR 0x09, CHR 0x09] @ ''last_seen    DateTime,'',
        [CHR 0x09, CHR 0x09] @ ''updated_at   DateTime DEFAULT now()'',
        [CHR 0x09] @ '') ENGINE = ReplacingMergeTree(updated_at)'',
        [CHR 0x09] @ ''ORDER BY mac''],
      join lf [''CREATE TABLE IF NOT EXISTS device_events ('',
        [CHR 0x09, CHR 0x09] @ ''timestamp    DateTime,'',
        [CHR 0x09, CHR 0x09] @ ''mac          String,'',
        [CHR 0x09, CHR 0x09] @ ''ip           String,'',
        [CHR 0x09, CHR 0x09] @ ''hostname     String,'',
        [CHR 0x09, CHR 0x09] @ ''vendor       String,'',
        [CHR 0x09, CHR 0x09] @ ''protocol     LowCardinality(String),'',
        [CHR 0x09, CHR 0x09] @ ''event_type   LowCardinality(String)'',
        [CHR 0x09] @ '') ENGINE = MergeTree()'',
        [CHR 0x09] @ ''ORDER BY (timestamp, mac)'',
        [CHR 0x09] @ ''TTL timestamp + INTERVAL 30 DAY'']]"

definition create_database :: "ch_client \<Rightarrow> string" where
  "create_database c = ''CREATE DATABASE IF NOT EXISTS '' @ cc_database c"

text \<open>A failed statement is logged and the next one sent.\<close>

fun exec_all :: "'w web \<Rightarrow> ch_client \<Rightarrow> string list \<Rightarrow> 'w \<Rightarrow> 'w" where
  "exec_all web c [] w = w"
| "exec_all web c (ddl # ddls) w = exec_all web c ddls (snd (ch_Exec web c ddl w))"

definition ch_InitSchema :: "'w web \<Rightarrow> ch_client \<Rightarrow> 'w \<Rightarrow> string option \<times> 'w" where
  "ch_InitSchema web c w =
     (let u = cc_baseURL c @ ''/''
      in case web_parse web u of
           Some e \<Rightarrow> (Some (''create database: '' @ e), w)
         | None \<Rightarrow>
             (case ch_do web \<lparr> hr_method = ''POST'', hr_url = u, hr_headers = [], hr_auth = None, hr_body = create_database c \<rparr> w of
                (Some e, w') \<Rightarrow> (Some (''create database: '' @ e), w')
              | (None, w') \<Rightarrow> (None, exec_all web c schemaDDL w')))"

subsection \<open>The audit log of the killswitch\<close>

text \<open>Its client has the fields of the inventory's, and sends its credentials the same way.\<close>

definition audit_Write :: "'w web \<Rightarrow> ('e \<Rightarrow> string + string) \<Rightarrow> ch_client \<Rightarrow> 'e \<Rightarrow> 'w \<Rightarrow> string option \<times> 'w" where
  "audit_Write web marshal c entry w =
     (case marshal entry of
        Inl e \<Rightarrow> (Some (''marshal: '' @ e), w)
      | Inr body \<Rightarrow>
          (let u = insert_url (cc_baseURL c) (cc_database c) ''INSERT INTO audit_log FORMAT JSONEachRow''
           in case web_parse web u of
                Some e \<Rightarrow> (Some (''request: '' @ e), w)
              | None \<Rightarrow> send_checked web ''send: ''
                  \<lparr> hr_method = ''POST'', hr_url = u,
                    hr_headers = (if cc_user c \<noteq> [] then [(''X-ClickHouse-User'', cc_user c), (''X-ClickHouse-Key'', cc_password c)] else []),
                    hr_auth = None, hr_body = body @ lf \<rparr> w))"

subsection \<open>The clients of the detection engine\<close>

text \<open>\<open>CHClient\<close>, \<open>CHWriter\<close> and \<open>CHSink\<close> have the same two fields.\<close>

record ch_conn =
  cn_baseURL :: string
  cn_database :: string

text \<open>The rows of the response, with the callback: blank lines are left out, an error of the callback ends the loop.\<close>

fun feed_rows :: "(string \<Rightarrow> 's \<Rightarrow> string option \<times> 's) \<Rightarrow> string list \<Rightarrow> 's \<Rightarrow> string option \<times> 's" where
  "feed_rows fn [] s = (None, s)"
| "feed_rows fn (l # ls) s =
     (let line = trim_space l in
      if line = [] then feed_rows fn ls s
      else case fn line s of (Some e, s') \<Rightarrow> (Some e, s') | (None, s') \<Rightarrow> feed_rows fn ls s')"

definition QueryJSONEachRow :: "'w web \<Rightarrow> ch_conn \<Rightarrow> string \<Rightarrow> (string \<Rightarrow> 's \<Rightarrow> string option \<times> 's) \<Rightarrow> 's \<Rightarrow> 'w
    \<Rightarrow> string option \<times> 's \<times> 'w" where
  "QueryJSONEachRow web c query fn s w =
     (let u = cn_baseURL c @ ''/?database='' @ query_escape (cn_database c)
      in case web_parse web u of
           Some e \<Rightarrow> (Some (''create request: '' @ e), s, w)
         | None \<Rightarrow>
             (let (r, w') = web_do web \<lparr> hr_method = ''POST'', hr_url = u, hr_headers = [], hr_auth = None, hr_body = query \<rparr> w
              in case r of
                   Transport e \<Rightarrow> (Some (''request: '' @ e), s, w')
                 | Response code body \<Rightarrow>
                     if code \<noteq> 200 then (Some (ch_status code body), s, w')
                     else (case scan_lines_upto (1024 * 1024) body of
                             (ls, toolong) \<Rightarrow>
                               (case feed_rows fn ls s of
                                  (Some e, s') \<Rightarrow> (Some e, s', w')
                                | (None, s') \<Rightarrow> (if toolong then Some ''bufio.Scanner: token too long'' else None, s', w')))))"

definition writer_Insert :: "'w web \<Rightarrow> ('e \<Rightarrow> string + string) \<Rightarrow> ch_conn \<Rightarrow> string \<Rightarrow> 'e \<Rightarrow> 'w \<Rightarrow> string option \<times> 'w" where
  "writer_Insert web marshal c tbl rec w =
     (case marshal rec of
        Inl e \<Rightarrow> (Some (''marshal: '' @ e), w)
      | Inr body \<Rightarrow>
          (let u = insert_url (cn_baseURL c) (cn_database c) (insert_query tbl)
           in case web_parse web u of
                Some e \<Rightarrow> (Some (''create request: '' @ e), w)
              | None \<Rightarrow> send_checked web ''request: ''
                  \<lparr> hr_method = ''POST'', hr_url = u, hr_headers = [], hr_auth = None, hr_body = body @ lf \<rparr> w))"

definition verdict_row :: "verdict \<Rightarrow> (string \<times> json_value) list" where
  "verdict_row v =
     [(''timestamp'', JInt (vd_Timestamp v div 1000000000)), (''alert_id'', JString (vd_AlertID v)),
      (''matched_ioc'', JString (vd_MatchedIoC v)), (''client_ip'', JString (vd_ClientIP v)), (''verdict'', JString (vd_Verdict v)),
      (''reason'', JString (vd_Reason v)), (''analyst'', JString (vd_Analyst v))]"

definition sink_Write :: "'w web \<Rightarrow> ((string \<times> json_value) list \<Rightarrow> string + string) \<Rightarrow> ch_conn \<Rightarrow> verdict \<Rightarrow> 'w \<Rightarrow> string option \<times> 'w" where
  "sink_Write web marshal c v w =
     (case marshal (verdict_row v) of
        Inl e \<Rightarrow> (Some (''marshal verdict: '' @ e), w)
      | Inr row \<Rightarrow>
          (let u = insert_url (cn_baseURL c) (cn_database c) ''INSERT INTO detection_feedback FORMAT JSONEachRow''
           in case web_parse web u of
                Some e \<Rightarrow> (Some (''insert feedback: '' @ e), w)
              | None \<Rightarrow> send_checked web ''insert feedback: ''
                  \<lparr> hr_method = ''POST'', hr_url = u, hr_headers = [(''Content-Type'', ''application/json'')], hr_auth = None,
                    hr_body = row \<rparr> w))"

text \<open>
  \<open>LoadInto\<close> over HTTP. A row is decoded by \<open>json.Unmarshal\<close>, a parameter; one that does not decode is skipped and not
  counted. The result has the count, the error and the store.
\<close>

definition feedback_query :: string where
  "feedback_query = join lf [''SELECT matched_ioc, client_ip,'', ''  argMax(verdict, timestamp) AS verdict,'',
     ''  argMax(reason, timestamp) AS reason,'', ''  argMax(analyst, timestamp) AS analyst,'',
     ''  toUnixTimestamp(max(timestamp)) AS ts'', ''FROM detection_feedback'',
     ''GROUP BY matched_ioc, client_ip FORMAT JSONEachRow'']"

record loaded_row =
  fl_MatchedIoC :: string
  fl_ClientIP :: string
  fl_Verdict :: string
  fl_Reason :: string
  fl_Analyst :: string
  fl_TS :: string

text \<open>\<open>json.Number.Int64\<close> without its error: 0 for what is no integer, the nearest value for one out of range.\<close>

definition json_int64 :: "string \<Rightarrow> int" where
  "json_int64 s =
     (let neg = (s \<noteq> [] \<and> hd s = CHR ''-'');
          ds = (if s \<noteq> [] \<and> (hd s = CHR ''-'' \<or> hd s = CHR ''+'') then tl s else s); n = int (read_digits ds 0)
      in if ds = [] \<or> \<not> list_all is_digit ds then 0
         else if neg then max (- (2 ^ 63)) (- n) else min (2 ^ 63 - 1) n)"

definition loaded_verdict :: "loaded_row \<Rightarrow> verdict" where
  "loaded_verdict r = \<lparr> vd_AlertID = [], vd_MatchedIoC = fl_MatchedIoC r, vd_ClientIP = fl_ClientIP r, vd_Verdict = fl_Verdict r,
     vd_Reason = fl_Reason r, vd_Analyst = fl_Analyst r, vd_Timestamp = json_int64 (fl_TS r) * 1000000000 \<rparr>"

definition load_row :: "(string \<Rightarrow> loaded_row option) \<Rightarrow> instant \<Rightarrow> string \<Rightarrow> nat \<times> fb_store \<Rightarrow> string option \<times> (nat \<times> fb_store)" where
  "load_row decode now raw = (\<lambda>(n, s).
     (None, case decode raw of None \<Rightarrow> (n, s) | Some r \<Rightarrow> (n + 1, applyLoaded now (loaded_verdict r) s)))"

definition load_over_http :: "'w web \<Rightarrow> (string \<Rightarrow> loaded_row option) \<Rightarrow> ch_conn \<Rightarrow> instant \<Rightarrow> fb_store \<Rightarrow> 'w
    \<Rightarrow> string option \<times> (nat \<times> fb_store) \<times> 'w" where
  "load_over_http web decode c now s w = QueryJSONEachRow web c feedback_query (load_row decode now) (0, s) w"

text \<open>A poll of a sensor stream over HTTP: the callback of \<open>poll\<close> handles every row it is given.\<close>

definition sensor_rows :: "'w web \<Rightarrow> ch_conn \<Rightarrow> string \<Rightarrow> 'w \<Rightarrow> (string list \<times> bool) \<times> 'w" where
  "sensor_rows web c query w =
     (case QueryJSONEachRow web c query (\<lambda>row rows. (None, rows @ [row])) [] w of (err, rows, w') \<Rightarrow> ((rows, err = None), w'))"

definition poll_over_http :: "'w web \<Rightarrow> ch_conn \<Rightarrow> (instant \<Rightarrow> nat \<Rightarrow> string) \<Rightarrow> (string \<Rightarrow> (sensor_event \<times> string) option) \<Rightarrow> poller \<Rightarrow> 'w
    \<Rightarrow> (sensor_event list \<times> poller) \<times> 'w" where
  "poll_over_http web c query parse p w =
     (case sensor_rows web c (query (po_cursor p) pollBatchLimit) w of (answer, w') \<Rightarrow> (poll_source parse answer p, w'))"

subsection \<open>AdGuard's query log\<close>

record adguard_client =
  ac_baseURL :: string
  ac_user :: string
  ac_password :: string

definition QueryLog :: "'w web \<Rightarrow> (string \<Rightarrow> string + query_log_entry list) \<Rightarrow> adguard_client \<Rightarrow> int \<Rightarrow> 'w
    \<Rightarrow> (string + query_log_entry list) \<times> 'w" where
  "QueryLog web decode c limit w =
     (let u = ac_baseURL c @ ''/control/querylog?limit='' @ show_int limit
      in case web_parse web u of
           Some e \<Rightarrow> (Inl (''create request: '' @ e), w)
         | None \<Rightarrow>
             (let (r, w') = web_do web \<lparr> hr_method = ''GET'', hr_url = u, hr_headers = [],
                    hr_auth = Some (ac_user c, ac_password c), hr_body = [] \<rparr> w
              in case r of
                   Transport e \<Rightarrow> (Inl (''request: '' @ e), w')
                 | Response code body \<Rightarrow>
                     if code \<noteq> 200 then (Inl (''unexpected status: '' @ show_int code), w')
                     else (case decode body of
                             Inl e \<Rightarrow> (Inl (''decode: '' @ e), w')
                           | Inr entries \<Rightarrow> (Inr entries, w'))))"

definition queryLogBatch :: int where "queryLogBatch = 300"

definition poll_adguard :: "'w web \<Rightarrow> (string \<Rightarrow> string + query_log_entry list) \<Rightarrow> adguard_client \<Rightarrow> matcher \<Rightarrow> engine \<Rightarrow> 'w
    \<Rightarrow> (callback list \<times> engine) \<times> 'w" where
  "poll_adguard web decode c m e w =
     (case QueryLog web decode c queryLogBatch w of
        (Inl err, w') \<Rightarrow> (poll m None e, w')
      | (Inr entries, w') \<Rightarrow> (poll m (Some entries) e, w'))"

subsection \<open>What a query carries\<close>

lemma escaped_names:
  "query_escape ''database'' = ''database''" "query_escape ''query'' = ''query''" "query_escape ''param_'' = ''param_''"
  by code_simp+

lemma join_Cons_concat: "join sep (x # xs) = x @ List.concat (List.map (\<lambda>y. sep @ y) xs)"
  by (induction xs arbitrary: x) auto

lemma param_escape: "query_escape (''param_'' @ k) = ''param_'' @ query_escape k"
  by (simp add: query_escape_def query_escape_char_def unreserved_def)

definition query_params :: "ch_client \<Rightarrow> string \<Rightarrow> (string, string) gomap list \<Rightarrow> (string \<times> string) list" where
  "query_params c query params =
     [(''database'', cc_database c), (''query'', query @ '' FORMAT JSON'')]
     @ (case params of [] \<Rightarrow> [] | m # _ \<Rightarrow> List.map (\<lambda>(k, v). (''param_'' @ k, v)) m)"

lemma query_url_joined:
  "query_url c query params = (cc_baseURL c @ ''/'') @ CHR ''?'' # join ''&'' (List.map escaped_pair (query_params c query params))"
proof -
  have "(\<lambda>(k, v). ''&param_'' @ query_escape k @ ''='' @ query_escape v) = (\<lambda>kv. ''&'' @ escaped_pair (case kv of (k, v) \<Rightarrow> (''param_'' @ k, v)))"
    by (rule ext) (clarsimp simp: escaped_pair_def param_escape [simplified])
  then show ?thesis
    by (cases params)
      (simp_all add: query_url_def query_params_def join_Cons_concat escaped_pair_def escaped_names query_escape_append comp_def)
qed

lemma query_url_read_back:
  assumes "\<forall>x \<in> set (cc_baseURL c). x \<noteq> CHR ''?'' \<and> x \<noteq> CHR ''#''"
  shows "parse_query (url_query (query_url c query params)) = query_params c query params"
proof -
  let ?q = "join ''&'' (List.map escaped_pair (query_params c query params))"
  have "CHR ''#'' \<notin> set ?q"
    by (auto simp: query_params_def join_Cons_concat escaped_pair_chars)
  then have "url_query (query_url c query params) = ?q"
    unfolding query_url_joined using assms by (intro url_query_append) auto
  moreover have "query_params c query params \<noteq> []" by (simp add: query_params_def)
  ultimately show ?thesis by (simp add: parse_query_join)
qed

subsection \<open>Rows\<close>

text \<open>With a callback that never fails, the rows are the trimmed lines that are not blank, in order.\<close>

definition body_rows :: "string \<Rightarrow> string list" where
  "body_rows body = filter (\<lambda>l. l \<noteq> []) (List.map trim_space (fst (scan_lines_upto (1024 * 1024) body)))"

lemma feed_rows_total:
  "feed_rows (\<lambda>row s. (None, f row s)) ls s = (None, fold f (filter (\<lambda>l. l \<noteq> []) (List.map trim_space ls)) s)"
  by (induction ls arbitrary: s) (simp_all add: Let_def)

lemma sensor_rows_ok:
  assumes "web_parse web (cn_baseURL c @ ''/?database='' @ query_escape (cn_database c)) = None"
    and "web_do web \<lparr> hr_method = ''POST'', hr_url = cn_baseURL c @ ''/?database='' @ query_escape (cn_database c), hr_headers = [],
           hr_auth = None, hr_body = query \<rparr> w = (Response 200 body, w')"
  shows "sensor_rows web c query w = ((body_rows body, \<not> snd (scan_lines_upto (1024 * 1024) body)), w')"
proof -
  have "fold (\<lambda>row rows. rows @ [row]) ls acc = acc @ ls" for ls acc :: "string list" by (induction ls arbitrary: acc) auto
  then show ?thesis using assms
    by (simp add: sensor_rows_def QueryJSONEachRow_def Let_def feed_rows_total body_rows_def split: prod.split)
qed

text \<open>A reload over HTTP is \<open>LoadInto\<close> on the rows that decode.\<close>

lemma load_over_http_ok:
  assumes "web_parse web (cn_baseURL c @ ''/?database='' @ query_escape (cn_database c)) = None"
    and "web_do web \<lparr> hr_method = ''POST'', hr_url = cn_baseURL c @ ''/?database='' @ query_escape (cn_database c), hr_headers = [],
           hr_auth = None, hr_body = feedback_query \<rparr> w = (Response 200 body, w')"
  shows "fst (snd (load_over_http web decode c now s w))
    = LoadInto now (List.map loaded_verdict (List.map_filter decode (body_rows body))) s"
proof -
  let ?f = "\<lambda>raw (n, s). case decode raw of None \<Rightarrow> (n, s) | Some r \<Rightarrow> (n + 1, applyLoaded now (loaded_verdict r) s)"
  have row: "load_row decode now = (\<lambda>raw s. (None, ?f raw s))" by (auto simp: load_row_def fun_eq_iff)
  have "fold ?f rows (n, s) = (n + length (List.map_filter decode rows),
      fold (applyLoaded now) (List.map loaded_verdict (List.map_filter decode rows)) s)" for rows n s
    by (induction rows arbitrary: n s) (simp_all add: map_filter_simps split: option.split)
  then show ?thesis using assms
    by (simp add: load_over_http_def QueryJSONEachRow_def Let_def row feed_rows_total body_rows_def LoadInto_def split: prod.split)
qed

text \<open>A verdict that was written comes back to the second, without the identifier of its alert.\<close>

lemma json_int64_show:
  assumes "- (2 ^ 63) \<le> n" "n < 2 ^ 63"
  shows "json_int64 (show_int n) = n"
proof -
  have "hd (show_nat k) \<noteq> CHR ''-''" "hd (show_nat k) \<noteq> CHR ''+''" for k
  proof -
    have "is_digit (hd (show_nat k))" using is_digit_show_nat [of k] by (simp add: list_all_iff)
    then show "hd (show_nat k) \<noteq> CHR ''-''" "hd (show_nat k) \<noteq> CHR ''+''" by (auto simp: is_digit_def)
  qed
  with assms is_digit_show_nat show ?thesis by (simp add: json_int64_def show_int_def Let_def read_show_nat)
qed

lemma written_verdict_loaded:
  assumes "- (2 ^ 63) \<le> vd_Timestamp v div 1000000000" "vd_Timestamp v div 1000000000 < 2 ^ 63"
  shows "loaded_verdict \<lparr> fl_MatchedIoC = vd_MatchedIoC v, fl_ClientIP = vd_ClientIP v, fl_Verdict = vd_Verdict v, fl_Reason = vd_Reason v,
      fl_Analyst = vd_Analyst v, fl_TS = show_int (vd_Timestamp v div 1000000000) \<rparr>
    = v \<lparr> vd_AlertID := [], vd_Timestamp := vd_Timestamp v - vd_Timestamp v mod 1000000000 \<rparr>"
  using json_int64_show [OF assms] by (simp add: loaded_verdict_def minus_mod_eq_div_mult)

subsection \<open>A database that asks for credentials\<close>

text \<open>
  What ClickHouse does with users that have passwords, as its documentation says of the two headers: a request that does
  not name the user is refused and changes nothing, one with the user and its key is carried out. \<open>run\<close> is what carrying
  out a body does.
\<close>

definition asks_credentials :: "'w web \<Rightarrow> string \<Rightarrow> string \<Rightarrow> (string \<Rightarrow> 'w \<Rightarrow> 'w) \<Rightarrow> bool" where
  "asks_credentials web user key run \<longleftrightarrow> (\<forall>u. web_parse web u = None) \<and>
     (\<forall>req w. (''X-ClickHouse-User'', user) \<notin> set (hr_headers req) \<longrightarrow> (\<exists>code body. code \<noteq> 200 \<and> web_do web req w = (Response code body, w))) \<and>
     (\<forall>req w. (''X-ClickHouse-User'', user) \<in> set (hr_headers req) \<and> (''X-ClickHouse-Key'', key) \<in> set (hr_headers req) \<longrightarrow>
        (\<exists>body. web_do web req w = (Response 200 body, run (hr_body req) w)))"

lemma refused:
  assumes "asks_credentials web user key run" and "(''X-ClickHouse-User'', user) \<notin> set (hr_headers req)"
  obtains code body where "code \<noteq> 200" "web_do web req w = (Response code body, w)"
  using assms unfolding asks_credentials_def by blast

lemma granted:
  assumes "asks_credentials web user key run" and "(''X-ClickHouse-User'', user) \<in> set (hr_headers req)"
    and "(''X-ClickHouse-Key'', key) \<in> set (hr_headers req)"
  obtains body where "web_do web req w = (Response 200 body, run (hr_body req) w)"
  using assms unfolding asks_credentials_def by blast

lemma send_refused:
  "asks_credentials web user key run \<Longrightarrow> (''X-ClickHouse-User'', user) \<notin> set (hr_headers req) \<Longrightarrow>
     \<exists>e. send_checked web label req w = (Some e, w)"
  by (erule (1) refused [where w = w]) (simp add: send_checked_def)

lemma send_granted:
  "asks_credentials web user key run \<Longrightarrow> (''X-ClickHouse-User'', user) \<in> set (hr_headers req) \<Longrightarrow>
     (''X-ClickHouse-Key'', key) \<in> set (hr_headers req) \<Longrightarrow> send_checked web label req w = (None, run (hr_body req) w)"
  by (erule (2) granted [where w = w]) (simp add: send_checked_def)

lemma url_parses: "asks_credentials web user key run \<Longrightarrow> web_parse web u = None"
  by (simp add: asks_credentials_def)

lemma query_refused:
  assumes "asks_credentials web user key run"
  shows "\<exists>e. QueryJSONEachRow web conn query fn s w = (Some e, s, w)"
proof -
  let ?req = "\<lparr> hr_method = ''POST'', hr_url = cn_baseURL conn @ ''/?database='' @ query_escape (cn_database conn),
      hr_headers = [], hr_auth = None, hr_body = query \<rparr>"
  obtain code body where "code \<noteq> 200" "web_do web ?req w = (Response code body, w)"
    using refused [OF assms, of ?req w] by auto
  then show ?thesis by (simp add: QueryJSONEachRow_def Let_def url_parses [OF assms])
qed


text \<open>A database with one account that notes the bodies it carries out.\<close>

definition locked_do :: "string \<Rightarrow> string \<Rightarrow> string list http" where
  "locked_do user key req log =
     (if (''X-ClickHouse-User'', user) \<in> set (hr_headers req) \<and> (''X-ClickHouse-Key'', key) \<in> set (hr_headers req)
      then (Response 200 [], log @ [hr_body req]) else (Response 401 ''Authentication failed'', log))"

definition locked_web :: "string \<Rightarrow> string \<Rightarrow> string list web" where
  "locked_web user key = \<lparr> web_parse = (\<lambda>u. None), web_do = locked_do user key \<rparr>"

lemma locked_asks: "asks_credentials (locked_web user key) user key (\<lambda>body log. log @ [body])"
  by (auto simp: asks_credentials_def locked_web_def locked_do_def)


text \<open>
  Further fact. The inventory forgets its credentials once. With a database that asks for them, the first statement of
  \<open>InitSchema\<close> is sent without and refused, so no table is created and the start reports an error, although every
  statement sent by \<open>Exec\<close> and every row sent by \<open>Insert\<close> carries them and is carried out.
\<close>

theorem schema_never_created:
  assumes "asks_credentials web (cc_user c) (cc_password c) run" and "cc_user c \<noteq> []"
  shows "(\<exists>e. ch_InitSchema web c w = (Some (''create database: '' @ e), w))
    \<and> ch_Exec web c (create_database c) w = (None, run (create_database c) w)
    \<and> exec_all web c schemaDDL w = fold run schemaDDL w
    \<and> (marshal_rows marshal rows = Inr body \<and> rows \<noteq> [] \<longrightarrow> ch_Insert web marshal c tbl rows w = (None, run body w))"
proof (intro conjI impI)
  note refuse = send_refused [OF assms(1)] and grant = send_granted [OF assms(1)] and parses = url_parses [OF assms(1)]
  obtain e where "send_checked web ''request: '' \<lparr> hr_method = ''POST'', hr_url = cc_baseURL c @ ''/'', hr_headers = [], hr_auth = None,
      hr_body = create_database c \<rparr> w = (Some e, w)"
    using refuse by force
  then show "\<exists>e. ch_InitSchema web c w = (Some (''create database: '' @ e), w)"
    by (simp add: ch_InitSchema_def ch_do_def Let_def parses)
  have exec: "ch_Exec web c q w = (None, run q w)" for q w
    using assms(2) grant by (simp add: ch_Exec_def ch_do_def ch_auth_def Let_def parses)
  then show "ch_Exec web c (create_database c) w = (None, run (create_database c) w)" .
  have "exec_all web c ds w = fold run ds w" for ds
    using exec by (induction ds arbitrary: w) simp_all
  then show "exec_all web c schemaDDL w = fold run schemaDDL w" .
  assume "marshal_rows marshal rows = Inr body \<and> rows \<noteq> []"
  then show "ch_Insert web marshal c tbl rows w = (None, run body w)"
    using assms(2) grant by (simp add: ch_Insert_def ch_do_def ch_auth_def Let_def parses)
qed

lemma schema_never_created_witness:
  "(\<exists>e. ch_InitSchema (locked_web ''writer'' ''secret'') \<lparr> cc_baseURL = ''http://clickhouse:8123'', cc_database = ''netsoldier'',
     cc_user = ''writer'', cc_password = ''secret'' \<rparr> [] = (Some (''create database: '' @ e), []))
   \<and> ch_Insert (locked_web ''writer'' ''secret'') Inr \<lparr> cc_baseURL = ''http://clickhouse:8123'', cc_database = ''netsoldier'',
     cc_user = ''writer'', cc_password = ''secret'' \<rparr> ''device_events'' [''{}''] [] = (None, [''{}'' @ lf])"
  using schema_never_created [where c = "\<lparr> cc_baseURL = ''http://clickhouse:8123'', cc_database = ''netsoldier'',
      cc_user = ''writer'', cc_password = ''secret'' \<rparr>" and web = "locked_web ''writer'' ''secret''" and w = "[]"
      and marshal = Inr and rows = "[''{}'']" and body = "''{}'' @ lf" and tbl = "''device_events''"
      and run = "\<lambda>body log. log @ [body]"] locked_asks [of "''writer''" "''secret''"]
  by fastforce

end
