(* ===== verification/FeedChain.thy ===== *)
theory FeedChain
  imports TiMirror TiService Clients
begin

text \<open>
  From a feed to the detection engine. \<open>threat-intel-sync\<close> serves its store as JSON (\<open>internal/export/json.go\<close>), the engine
  fetches it (\<open>detection-engine/internal/iocmatch/sync.go\<close>) and matches live names against it. The two services meet at the
  export's path and its rows; the JSON codec between them is a parameter.
\<close>

subsection \<open>The fetch\<close>

text \<open>The exchange in front of \<open>syncOnce\<close>; a body is decoded only after a good status.\<close>

definition sync_over_http :: "'w web \<Rightarrow> (string \<Rightarrow> feed_row list option) \<Rightarrow> string \<Rightarrow> matcher \<Rightarrow> 'w
    \<Rightarrow> ((string \<times> nat) option \<times> matcher) \<times> 'w" where
  "sync_over_http web decode url m w =
     (let target = exportURL url
      in case web_parse web target of
           Some e \<Rightarrow> ((Some (''request'', 1), m), w)
         | None \<Rightarrow>
             (let (r, w') = web_do web (get_request target) w
              in (syncOnce (\<lambda>_. case r of Transport e \<Rightarrow> None | Response code body \<Rightarrow> Some (code, decode body)) url m, w')))"

text \<open>A row of the export as the engine reads it: the fields both structures have.\<close>

definition exported_row :: "indicator \<Rightarrow> feed_row" where
  "exported_row i = \<lparr> fr_Type = in_Type i, fr_Value = in_Value i, fr_Source = in_Source i, fr_Threat = in_Threat i,
     fr_Confidence = in_Confidence i, fr_Tags = in_Tags i \<rparr>"

text \<open>The body of the export's answer.\<close>

definition export_body :: "(indicator list \<Rightarrow> string) \<Rightarrow> ti_store \<Rightarrow> string" where
  "export_body encode s = (case ti_mux encode (\<lambda>_. []) ''GET'' ''/export/json'' s of Some (_, _, body) \<Rightarrow> body | None \<Rightarrow> [])"

lemma export_body_All: "export_body encode s = encode (All s)"
  by (simp add: export_body_def ti_mux_def HandleJSON_def Let_def)

subsection \<open>Stored names are lower case\<close>

definition lower_domain :: "indicator \<Rightarrow> bool" where
  "lower_domain i \<longleftrightarrow> (in_Type i = TypeDomain \<longrightarrow> to_lower (in_Value i) = in_Value i)"

definition lower_store :: "ti_store \<Rightarrow> bool" where
  "lower_store s \<longleftrightarrow> (\<forall>k i. mget s k = Some i \<longrightarrow> lower_domain i)"

lemma lower_accepted: "v \<in> set (accepted rows) \<Longrightarrow> lower_domain v"
proof (induction rows)
  case (Cons i rows)
  have "lower_domain v" if "Validate i = Inr v" for v
    using that validateDomain_ti_lower
    by (auto simp: lower_domain_def Validate_def Let_def checkConfidence_Inr split: if_splits sum.splits)
  with Cons show ?case by (auto split: sum.splits)
qed simp

lemma lower_Upsert: "lower_store s \<Longrightarrow> lower_domain v \<Longrightarrow> lower_store (Upsert_ti v s)"
  by (auto simp: lower_store_def lower_domain_def Upsert_ti_def mget_put split: option.splits if_splits)

lemma lower_upserts: "lower_store s \<Longrightarrow> \<forall>v \<in> set vs. lower_domain v \<Longrightarrow> lower_store (fold Upsert_ti vs s)"
  by (induction vs arbitrary: s) (auto intro: lower_Upsert)

lemma lower_cycle:
  assumes "ti_ok s" "lower_store s"
  shows "lower_store (sync_cycle ttl c s)"
proof -
  let ?s = "fold Upsert_ti (accepted (rows_of (snd c))) s"
  have "lower_store ?s" using lower_upserts [OF assms(2)] lower_accepted by blast
  moreover have "mwf ?s" using ti_ok_upserts [OF assms(1)] usable_accepted by (auto simp: ti_ok_def)
  ultimately show ?thesis
    by (auto simp: sync_cycle_def syncOnce_ti_eq Let_def lower_store_def mget_Prune split: option.splits if_splits)
qed

interpretation lc: machine "sync_cycle ttl" "\<lambda>s. ti_ok s \<and> lower_store s" for ttl
  by unfold_locales (simp add: lower_cycle tm.run_ok)

lemma synced_store: "ti_ok (run_syncs ttl cycles NewStore_ti) \<and> lower_store (run_syncs ttl cycles NewStore_ti)"
  unfolding run_syncs_def by (rule lc.runs_ok) (simp add: ti_ok_empty, simp add: lower_store_def NewStore_ti_def)

subsection \<open>What is loaded is matched\<close>

lemma stronger_kept: "foldl (stronger conf) (Some u) vs \<noteq> None"
  by (induction vs arbitrary: u) (auto simp: stronger_def)

lemma loaded_domain:
  assumes "i \<in> set is" "domain_entry i = Some (k, v)"
  shows "mget (mt_domains (snd (Add is m))) k \<noteq> None"
proof -
  let ?vs = "map (\<lambda>i. snd (the (domain_entry i))) (filter (\<lambda>i. \<exists>v. domain_entry i = Some (k, v)) is)"
  have "?vs \<noteq> []" using assms by (auto simp: filter_empty_conv)
  then obtain u us where vs: "?vs = u # us" by (cases ?vs) auto
  have "stronger ioc_Confidence (mget (mt_domains m) k) u \<noteq> None" by (simp add: stronger_def split: option.split)
  then obtain x where "stronger ioc_Confidence (mget (mt_domains m) k) u = Some x" by auto
  then have "foldl (stronger ioc_Confidence) (mget (mt_domains m) k) ?vs \<noteq> None" unfolding vs by (simp add: stronger_kept)
  then show ?thesis by (simp only: Add_entries matcher.simps mget_put_entries not_False_eq_True)
qed

text \<open>A domain of the store is an entry of the matcher, but for the three names the engine refuses.\<close>

lemma exported_domain_entry:
  assumes "usable_domain d" "to_lower d = d" "trim_space d = d" "\<not> has_prefix d ''*.''" "d \<notin> set unmirrored"
    and "in_Type i = TypeDomain" "in_Value i = d"
  shows "\<exists>v. domain_entry (row_ioc (exported_row i)) = Some (d, v)"
  using sibling_ValidateDomainIndicator [OF assms(1-4)] assms(5-7)
  by (simp add: domain_entry_def row_ioc_def exported_row_def)

lemma split_on_sub: "split_on c (s @ [c] @ t) = split_on c s @ split_on c t"
  by (induction s) (auto split: list.split)

lemma parent_matched:
  assumes "mget (mt_domains m) d \<noteq> None" and "to_lower (trim_suffix q ''.'') = sub @ d" "sub = [] \<or> has_suffix sub ''.''"
  shows "MatchDomain m q \<noteq> None"
proof
  assume none: "MatchDomain m q = None"
  have "\<exists>pre. split_on (CHR ''.'') (sub @ d) = pre @ split_on (CHR ''.'') d"
  proof (cases "sub = []")
    case False
    with assms(3) obtain s where "sub = s @ [CHR ''.'']" by (auto simp: has_suffix_iff suffix_def)
    then show ?thesis using split_on_sub [of "CHR ''.''" s d] by auto
  qed simp
  then obtain pre where "split_on (CHR ''.'') (to_lower (trim_suffix q ''.'')) = pre @ split_on (CHR ''.'') d" using assms(2) by auto
  from match_suffixes_None [OF none [unfolded MatchDomain_def] this] have "mget (mt_domains m) d = None" by (simp add: join_split_on)
  with assms(1) show False by simp
qed

lemma synced_rows:
  assumes "web_parse web (exportURL url) = None"
    and "web_do web (get_request (exportURL url)) w = (Response 200 body, w')" and "decode body = Some rows"
  shows "snd (fst (sync_over_http web decode url m w)) = snd (Add (List.map row_ioc rows) m)"
  using assms syncOnce_branches(4) [of "\<lambda>_. Some (200, Some rows)" url rows m] by (simp add: sync_over_http_def Let_def)

text \<open>
  Property C15. What the feeds name, the engine finds. Let the store be what any cycles made of any answers, and let the
  engine fetch its export over a codec that carries the rows. Then every query for a stored domain, or for a name under
  it, in any case and with or without a final dot, is matched, whatever the engine had loaded before; except for
  domains with outer white space or a second wildcard, and the three suffixes only the engine refuses.
\<close>

theorem feed_reaches_engine:
  assumes "s = run_syncs ttl cycles NewStore_ti"
    and "web_parse web (exportURL url) = None"
    and "web_do web (get_request (exportURL url)) w = (Response 200 (export_body encode s), w')"
    and "decode (encode (All s)) = Some (List.map exported_row (All s))"
    and "mget s k = Some i" "in_Type i = TypeDomain"
    and "trim_space (in_Value i) = in_Value i" "\<not> has_prefix (in_Value i) ''*.''"
    and "in_Value i \<notin> {''serveo.net'', ''blob.core.windows.net'', ''repl.co''}"
    and "to_lower (trim_suffix q ''.'') = sub @ in_Value i" "sub = [] \<or> has_suffix sub ''.''"
  shows "MatchDomain (snd (fst (sync_over_http web decode url m w))) q \<noteq> None"
proof -
  let ?d = "in_Value i"
  have store: "ti_ok s" "lower_store s" using synced_store assms(1) by simp_all
  then have "usable i" "lower_domain i" using assms(5) by (auto simp: ti_ok_def lower_store_def)
  then have d: "usable_domain ?d" "to_lower ?d = ?d"
    using assms(6) by (simp_all add: usable_def usable_value_def lower_domain_def fingerprint_types_def)
  obtain v where v: "domain_entry (row_ioc (exported_row i)) = Some (?d, v)"
    using exported_domain_entry [OF d assms(7,8) _ assms(6) refl] assms(9) by (auto simp: unmirrored_def)
  have "i \<in> set (All s)" using map_of_SomeD [OF assms(5)] by (force simp: All_def)
  then have mem: "row_ioc (exported_row i) \<in> set (List.map row_ioc (List.map exported_row (All s)))" by simp
  show ?thesis
    using parent_matched [OF loaded_domain [OF mem v] assms(10,11), of m]
    by (simp only: synced_rows [where decode = decode, OF assms(2,3) assms(4) [folded export_body_All]] not_False_eq_True)
qed

text \<open>A store of one ThreatFox row, and the engine behind a web that serves its export.\<close>

definition sample_cycles :: "cycle list" where
  "sample_cycles = [(10, [([sample_indicator ''domain'' ''Evil.example.com'' []], False)])]"

definition export_web :: "ti_store \<Rightarrow> unit web" where
  "export_web s = \<lparr> web_parse = (\<lambda>_. None), web_do = (\<lambda>req w. (Response 200 (export_body (\<lambda>_. ''rows'') s), w)) \<rparr>"

theorem feed_reaches_engine_witness:
  "MatchDomain (snd (fst (sync_over_http (export_web (run_syncs 0 sample_cycles NewStore_ti))
      (\<lambda>_. Some (List.map exported_row (All (run_syncs 0 sample_cycles NewStore_ti)))) ''http://threat-intel-sync:8083'' NewMatcher ())))
    ''WWW.evil.Example.com.'' \<noteq> None"
proof -
  let ?s = "run_syncs 0 sample_cycles NewStore_ti" and ?i = "sample_indicator ''domain'' ''evil.example.com'' []"
  have i: "mget ?s ''domain:evil.example.com'' = Some ?i" by code_simp
  have v: "in_Type ?i = TypeDomain" "trim_space (in_Value ?i) = in_Value ?i" "\<not> has_prefix (in_Value ?i) ''*.''"
    "in_Value ?i \<notin> {''serveo.net'', ''blob.core.windows.net'', ''repl.co''}"
    "to_lower (trim_suffix ''WWW.evil.Example.com.'' ''.'') = ''www.'' @ in_Value ?i" "''www.'' = [] \<or> has_suffix ''www.'' ''.''"
    by code_simp+
  show ?thesis
    by (rule feed_reaches_engine [OF refl _ _ _ i v, where encode = "\<lambda>_. ''rows''" and w' = "()"]) (simp_all add: export_web_def)
qed

end
