(* ===== verification/Inventory.thy ===== *)
theory Inventory
  imports GoHash
begin

text \<open>
  The device table of the inventory service (\<open>device-inventory/internal/store/sqlite.go\<close>). The table is the list of its
  rows in the order of their insertion; a statement either changes it or fails and leaves it as it is, as SQLite does
  when a row would violate the primary key. Times are Unix seconds: the columns hold RFC 3339 texts in UTC, which have
  one width and compare as the times do. The column \<open>labels\<close> is the list its JSON text stands for. Errors of the
  database other than a violated constraint are not modelled, nor is the migration of older databases.
\<close>

unbundle bit_operations_syntax

record device =
  dv_MAC :: string
  dv_IP :: string
  dv_Hostname :: string
  dv_Fingerprint :: string
  dv_VendorClass :: string
  dv_Vendor :: string
  dv_OS :: string
  dv_DeviceType :: string
  dv_StableID :: string
  dv_Labels :: "string list"
  dv_randomized :: bool
  dv_FirstSeen :: int
  dv_LastSeen :: int

type_synonym table = "device list"

datatype db_error = UniqueViolation | DeviceNotFound string

text \<open>The arguments of a sighting, in their order.\<close>

record sighting =
  sg_mac :: string
  sg_ip :: string
  sg_hostname :: string
  sg_fingerprint :: string
  sg_vendorClass :: string
  sg_vendor :: string
  sg_os :: string
  sg_deviceType :: string

text \<open>The second of an instant, as \<open>Format(time.RFC3339)\<close> keeps it.\<close>

definition rfc3339 :: "instant \<Rightarrow> int" where
  "rfc3339 t = t div 1000000000"

subsection \<open>Identifiers\<close>

definition replace_char :: "char \<Rightarrow> char \<Rightarrow> string \<Rightarrow> string" where
  "replace_char a b s = List.map (\<lambda>c. if c = a then b else c) s"

definition IsRandomizedMAC :: "string \<Rightarrow> bool" where
  "IsRandomizedMAC mac =
     (case cut_at (CHR '':'') (replace_char (CHR ''-'') (CHR '':'') (trim_space mac)) of
        Some ([a, b], _) \<Rightarrow> (case (hex_val a, hex_val b) of (Some h, Some l) \<Rightarrow> nib h l AND 2 \<noteq> 0 | _ \<Rightarrow> False)
      | _ \<Rightarrow> False)"

definition StableID :: "string \<Rightarrow> string \<Rightarrow> string" where
  "StableID vendorClass hostname = hex_encode (take 6 (sha256 (bytes_of (vendorClass @ ''|'' @ hostname))))"

subsection \<open>Statements\<close>

text \<open>\<open>CASE WHEN ? != '' THEN ? ELSE column END\<close>\<close>

definition given :: "string \<Rightarrow> string \<Rightarrow> string" where
  "given v old = (if v \<noteq> [] then v else old)"

definition sighted :: "int \<Rightarrow> sighting \<Rightarrow> device \<Rightarrow> device" where
  "sighted now s r = r \<lparr>
     dv_IP := given (sg_ip s) (dv_IP r), dv_Hostname := given (sg_hostname s) (dv_Hostname r),
     dv_Fingerprint := given (sg_fingerprint s) (dv_Fingerprint r), dv_VendorClass := given (sg_vendorClass s) (dv_VendorClass r),
     dv_Vendor := given (sg_vendor s) (dv_Vendor r), dv_OS := given (sg_os s) (dv_OS r),
     dv_DeviceType := given (sg_deviceType s) (dv_DeviceType r), dv_LastSeen := now \<rparr>"

definition new_row :: "int \<Rightarrow> sighting \<Rightarrow> string \<Rightarrow> device" where
  "new_row now s stableID = \<lparr> dv_MAC = sg_mac s, dv_IP = sg_ip s, dv_Hostname = sg_hostname s, dv_Fingerprint = sg_fingerprint s,
     dv_VendorClass = sg_vendorClass s, dv_Vendor = sg_vendor s, dv_OS = sg_os s, dv_DeviceType = sg_deviceType s,
     dv_StableID = stableID, dv_Labels = [], dv_randomized = IsRandomizedMAC (sg_mac s), dv_FirstSeen = now, dv_LastSeen = now \<rparr>"

definition on_conflict :: "int \<Rightarrow> sighting \<Rightarrow> string \<Rightarrow> device \<Rightarrow> device" where
  "on_conflict now s stableID r =
     (sighted now s r) \<lparr> dv_StableID := given stableID (dv_StableID r), dv_randomized := IsRandomizedMAC (sg_mac s) \<rparr>"

definition insertDevice :: "int \<Rightarrow> sighting \<Rightarrow> string \<Rightarrow> table \<Rightarrow> table" where
  "insertDevice now s stableID t =
     (if sg_mac s \<in> dv_MAC ` set t then List.map (\<lambda>r. if dv_MAC r = sg_mac s then on_conflict now s stableID r else r) t
      else t @ [new_row now s stableID])"

text \<open>
  The correlating \<open>UPDATE\<close>: every row of the identifier whose MAC is randomized is given the new MAC. It fails when two
  rows would then have one MAC; otherwise it returns how many rows it changed.
\<close>

definition correlated :: "string \<Rightarrow> device \<Rightarrow> bool" where
  "correlated sid r \<longleftrightarrow> dv_StableID r = sid \<and> dv_randomized r"

definition repoint :: "int \<Rightarrow> sighting \<Rightarrow> string \<Rightarrow> table \<Rightarrow> db_error + nat \<times> table" where
  "repoint now s sid t =
     (let t' = List.map (\<lambda>r. if correlated sid r then (sighted now s r) \<lparr> dv_MAC := sg_mac s \<rparr> else r) t
      in if distinct (List.map dv_MAC t') then Inr (length (filter (correlated sid) t), t') else Inl UniqueViolation)"

definition UpsertFull :: "int \<Rightarrow> sighting \<Rightarrow> table \<Rightarrow> db_error + table" where
  "UpsertFull now s t =
     (if IsRandomizedMAC (sg_mac s) \<and> sg_vendorClass s \<noteq> [] then
        (let sid = StableID (sg_vendorClass s) (sg_hostname s) in
         case repoint now s sid t of
           Inl e \<Rightarrow> Inl e
         | Inr (n, t') \<Rightarrow> if n > 0 then Inr t' else Inr (insertDevice now s sid t'))
      else Inr (insertDevice now s [] t))"

definition Upsert :: "int \<Rightarrow> string \<Rightarrow> string \<Rightarrow> string \<Rightarrow> string \<Rightarrow> string \<Rightarrow> string \<Rightarrow> table \<Rightarrow> db_error + table" where
  "Upsert now mac ip hostname fingerprint vendorClass vendor t =
     UpsertFull now \<lparr> sg_mac = mac, sg_ip = ip, sg_hostname = hostname, sg_fingerprint = fingerprint,
       sg_vendorClass = vendorClass, sg_vendor = vendor, sg_os = [], sg_deviceType = [] \<rparr> t"

definition SetLabels :: "string \<Rightarrow> string list \<Rightarrow> table \<Rightarrow> db_error + table" where
  "SetLabels mac labels t =
     (if mac \<in> dv_MAC ` set t then Inr (List.map (\<lambda>r. if dv_MAC r = mac then r \<lparr> dv_Labels := labels \<rparr> else r) t)
      else Inl (DeviceNotFound mac))"

definition GetDevice :: "string \<Rightarrow> table \<Rightarrow> device option" where
  "GetDevice mac t = List.find (\<lambda>r. dv_MAC r = mac) t"

definition EnrichByIP :: "int \<Rightarrow> string \<Rightarrow> string \<Rightarrow> table \<Rightarrow> table" where
  "EnrichByIP now ip hostname t =
     List.map (\<lambda>r. if dv_IP r = ip
       then r \<lparr> dv_Hostname := (if dv_Hostname r = [] \<and> hostname \<noteq> [] then hostname else dv_Hostname r), dv_LastSeen := now \<rparr>
       else r) t"

definition expired :: "int \<Rightarrow> device \<Rightarrow> bool" where
  "expired cutoff r \<longleftrightarrow> dv_LastSeen r < cutoff \<and> dv_Labels r = []"

definition Prune :: "instant \<Rightarrow> duration \<Rightarrow> table \<Rightarrow> nat \<times> table" where
  "Prune now maxAge t =
     (let cutoff = rfc3339 (now - maxAge)
      in (length (filter (expired cutoff) t), filter (\<lambda>r. \<not> expired cutoff r) t))"

definition maxListRows :: nat where
  "maxListRows = 5000"

text \<open>\<open>ORDER BY last_seen DESC\<close>: rows of one second may come in any order; here in that of their insertion.\<close>

definition ListDevices :: "table \<Rightarrow> device list" where
  "ListDevices t = take maxListRows (sort_key (\<lambda>r. - dv_LastSeen r) t)"

definition Count :: "table \<Rightarrow> nat" where
  "Count t = length t"

subsection \<open>The table is well formed\<close>

text \<open>
  MACs are the primary key, the flag says what the MAC says, an identifier belongs to randomized MACs only and to one
  row at most.
\<close>

definition table_ok :: "table \<Rightarrow> bool" where
  "table_ok t \<longleftrightarrow> distinct (List.map dv_MAC t)
     \<and> (\<forall>r \<in> set t. dv_randomized r = IsRandomizedMAC (dv_MAC r) \<and> (dv_StableID r \<noteq> [] \<longrightarrow> dv_randomized r))
     \<and> (\<forall>r \<in> set t. \<forall>q \<in> set t. dv_StableID r = dv_StableID q \<longrightarrow> dv_StableID r \<noteq> [] \<longrightarrow> r = q)"

lemma sighted_fields [simp]:
  "dv_MAC (sighted now s r) = dv_MAC r" "dv_StableID (sighted now s r) = dv_StableID r" "dv_Labels (sighted now s r) = dv_Labels r"
  "dv_randomized (sighted now s r) = dv_randomized r" "dv_FirstSeen (sighted now s r) = dv_FirstSeen r"
  "dv_LastSeen (sighted now s r) = now"
  by (simp_all add: sighted_def)

lemma on_conflict_fields [simp]:
  "dv_MAC (on_conflict now s i r) = dv_MAC r" "dv_StableID (on_conflict now s i r) = given i (dv_StableID r)"
  "dv_Labels (on_conflict now s i r) = dv_Labels r" "dv_randomized (on_conflict now s i r) = IsRandomizedMAC (sg_mac s)"
  "dv_FirstSeen (on_conflict now s i r) = dv_FirstSeen r" "dv_LastSeen (on_conflict now s i r) = now"
  by (simp_all add: on_conflict_def)

lemma new_row_fields [simp]:
  "dv_MAC (new_row now s i) = sg_mac s" "dv_StableID (new_row now s i) = i" "dv_Labels (new_row now s i) = []"
  "dv_randomized (new_row now s i) = IsRandomizedMAC (sg_mac s)" "dv_FirstSeen (new_row now s i) = now"
  by (simp_all add: new_row_def)

lemma length_StableID [simp]: "length (StableID v h) = 12"
  by (simp add: StableID_def)

lemma StableID_not_Nil [simp]: "StableID v h \<noteq> []"
  using length_StableID [of v h] by (metis list.size(3) zero_neq_numeral)

lemma table_okD:
  assumes "table_ok t"
  shows "distinct (List.map dv_MAC t)" "distinct t"
    "\<And>r. r \<in> set t \<Longrightarrow> dv_randomized r = IsRandomizedMAC (dv_MAC r)"
    "\<And>r. r \<in> set t \<Longrightarrow> dv_StableID r \<noteq> [] \<Longrightarrow> IsRandomizedMAC (dv_MAC r)"
    "\<And>r q. r \<in> set t \<Longrightarrow> q \<in> set t \<Longrightarrow> dv_MAC r = dv_MAC q \<Longrightarrow> r = q"
  using assms by (auto simp: table_ok_def distinct_map dest: inj_onD)

text \<open>A statement that changes rows one by one and keeps MAC, flag and identifier keeps the table well formed.\<close>

lemma table_ok_map:
  assumes ok: "table_ok t" and f: "\<And>r. r \<in> set t \<Longrightarrow> dv_MAC (f r) = dv_MAC r \<and> dv_randomized (f r) = dv_randomized r \<and> dv_StableID (f r) = dv_StableID r"
  shows "table_ok (List.map f t)"
proof -
  have m: "List.map dv_MAC (List.map f t) = List.map dv_MAC t" using f by simp
  show ?thesis unfolding table_ok_def m
    using ok f by (auto simp: table_ok_def)
qed

lemma table_ok_filter: "table_ok t \<Longrightarrow> table_ok (filter P t)"
  by (auto simp: table_ok_def distinct_map_filter)

lemma table_ok_EnrichByIP: "table_ok t \<Longrightarrow> table_ok (EnrichByIP now ip h t)"
  unfolding EnrichByIP_def by (rule table_ok_map) auto

lemma table_ok_SetLabels: "table_ok t \<Longrightarrow> SetLabels mac ls t = Inr t' \<Longrightarrow> table_ok t'"
  by (auto simp: SetLabels_def split: if_splits intro!: table_ok_map)

lemma table_ok_Prune: "table_ok t \<Longrightarrow> table_ok (snd (Prune now maxAge t))"
  by (simp add: Prune_def Let_def table_ok_filter)

lemma table_ok_insert:
  assumes ok: "table_ok t" and i: "i \<noteq> [] \<Longrightarrow> IsRandomizedMAC (sg_mac s) \<and> (\<forall>r \<in> set t. dv_StableID r \<noteq> i)"
  shows "table_ok (insertDevice now s i t)"
proof (cases "sg_mac s \<in> dv_MAC ` set t")
  case False
  then show ?thesis using ok i by (auto simp: insertDevice_def table_ok_def)
next
  case True
  let ?f = "\<lambda>r. if dv_MAC r = sg_mac s then on_conflict now s i r else r"
  have m: "List.map dv_MAC (List.map ?f t) = List.map dv_MAC t" by simp
  have one: "\<And>r q. r \<in> set t \<Longrightarrow> q \<in> set t \<Longrightarrow> dv_MAC r = sg_mac s \<Longrightarrow> dv_MAC q = sg_mac s \<Longrightarrow> r = q"
    using table_okD(5) [OF ok] by metis
  have "table_ok (List.map ?f t)"
    unfolding table_ok_def m
  proof (intro conjI ballI impI)
    show "distinct (List.map dv_MAC t)" by (rule table_okD(1) [OF ok])
    fix r assume "r \<in> set (List.map ?f t)"
    then obtain r0 where r0: "r0 \<in> set t" "r = ?f r0" by auto
    show "dv_randomized r = IsRandomizedMAC (dv_MAC r)" using r0 table_okD(3) [OF ok r0(1)] by auto
    show "dv_randomized r" if "dv_StableID r \<noteq> []"
      using that r0 i table_okD(3,4) [OF ok r0(1)] by (auto simp: given_def split: if_splits)
    fix q assume "q \<in> set (List.map ?f t)" and e: "dv_StableID r = dv_StableID q" and n: "dv_StableID r \<noteq> []"
    then obtain q0 where q0: "q0 \<in> set t" "q = ?f q0" by auto
    have inj: "dv_StableID r0 = dv_StableID q0 \<Longrightarrow> dv_StableID r0 \<noteq> [] \<Longrightarrow> r0 = q0"
      using ok r0(1) q0(1) by (auto simp: table_ok_def)
    show "r = q" using e n r0 q0 one [OF r0(1) q0(1)] inj i by (auto simp: given_def split: if_splits)
  qed
  with True show ?thesis by (simp add: insertDevice_def)
qed

lemma table_ok_repoint:
  assumes ok: "table_ok t" and s: "IsRandomizedMAC (sg_mac s)" and r: "repoint now s sid t = Inr (n, t')"
  shows "table_ok t'"
proof -
  let ?f = "\<lambda>r. if correlated sid r then (sighted now s r) \<lparr> dv_MAC := sg_mac s \<rparr> else r"
  have t': "t' = List.map ?f t" "distinct (List.map dv_MAC t')" using r by (auto simp: repoint_def Let_def split: if_splits)
  have f: "dv_StableID (?f q) = dv_StableID q" "dv_randomized (?f q) = dv_randomized q" for q by auto
  show ?thesis unfolding table_ok_def
  proof (intro conjI ballI impI)
    show "distinct (List.map dv_MAC t')" by (rule t'(2))
    fix r assume "r \<in> set t'"
    then obtain r0 where r0: "r0 \<in> set t" "r = ?f r0" unfolding t'(1) by auto
    show "dv_randomized r = IsRandomizedMAC (dv_MAC r)" using r0 s table_okD(3) [OF ok r0(1)] by (auto simp: correlated_def)
    show "dv_randomized r" if "dv_StableID r \<noteq> []" using that r0 f ok by (auto simp: table_ok_def)
    fix q assume "q \<in> set t'" and e: "dv_StableID r = dv_StableID q" and n: "dv_StableID r \<noteq> []"
    then obtain q0 where q0: "q0 \<in> set t" "q = ?f q0" unfolding t'(1) by auto
    have "r0 = q0" using e n r0 q0 f ok by (auto simp: table_ok_def)
    then show "r = q" using r0 q0 by simp
  qed
qed

lemma repoint_none:
  "repoint now s sid t = Inr (0, t') \<Longrightarrow> t' = t \<and> (\<forall>r \<in> set t. \<not> correlated sid r)"
  by (auto simp: repoint_def Let_def filter_empty_conv split: if_splits intro!: map_idI)

lemma table_ok_UpsertFull:
  assumes ok: "table_ok t" and u: "UpsertFull now s t = Inr t'"
  shows "table_ok t'"
proof (cases "IsRandomizedMAC (sg_mac s) \<and> sg_vendorClass s \<noteq> []")
  case True
  let ?sid = "StableID (sg_vendorClass s) (sg_hostname s)"
  from True u obtain n t1 where r: "repoint now s ?sid t = Inr (n, t1)"
    and t': "t' = (if n > 0 then t1 else insertDevice now s ?sid t1)"
    by (auto simp: UpsertFull_def Let_def split: sum.splits if_splits)
  have ok1: "table_ok t1" using table_ok_repoint [OF ok _ r] True by simp
  show ?thesis
  proof (cases "n > 0")
    case False
    with r have "t1 = t" "\<forall>r \<in> set t. \<not> correlated ?sid r" using repoint_none [of now s ?sid t t1] by auto
    then have "\<forall>r \<in> set t1. dv_StableID r \<noteq> ?sid"
      using ok StableID_not_Nil [of "sg_vendorClass s" "sg_hostname s"] by (auto simp only: correlated_def table_ok_def)
    then show ?thesis using False t' table_ok_insert [OF ok1] True by auto
  qed (use t' ok1 in simp)
next
  case False
  with u have "t' = insertDevice now s [] t" by (simp add: UpsertFull_def split: if_splits)
  then show ?thesis using table_ok_insert [OF ok, of "[]"] by simp
qed

end
