(* ===== verification/Profiles.thy ===== *)
theory Profiles
  imports Inventory
begin

text \<open>
  What the inventory reads off an address or a DHCP request: the manufacturer table (\<open>device-inventory/internal/oui\<close>) and
  the operating-system table (\<open>device-inventory/internal/dhcpfp\<close>).
\<close>

subsection \<open>Manufacturers (\<open>oui/lookup.go\<close>)\<close>

text \<open>The table, by manufacturer in the order of the source.\<close>

definition oui_groups :: "(string \<times> string list) list" where
  "oui_groups = [
      (''Apple'', [''00:03:93'', ''00:0A:27'', ''00:0A:95'', ''00:0D:93'', ''00:11:24'', ''00:14:51'', ''00:16:CB'',
        ''00:17:F2'', ''00:19:E3'', ''00:1B:63'', ''00:1C:B3'', ''00:1D:4F'', ''00:1E:52'', ''00:1F:5B'', ''00:1F:F3'',
        ''00:21:E9'', ''00:22:41'', ''00:23:12'', ''00:23:32'', ''00:23:6C'', ''00:23:DF'', ''00:24:36'', ''00:25:00'',
        ''00:25:4B'', ''00:25:BC'', ''00:26:08'', ''00:26:4A'', ''00:26:B0'', ''00:26:BB'', ''00:50:E4'', ''00:C6:10'',
        ''04:0C:CE'', ''04:15:52'', ''04:26:65'', ''04:F7:E4'', ''08:66:98'', ''14:99:E2'', ''18:AF:61'', ''20:78:F0'',
        ''24:A0:74'', ''28:6A:BA'', ''2C:BE:08'', ''34:36:3B'', ''38:C9:86'', ''3C:15:C2'', ''40:A6:D9'', ''44:D8:84'',
        ''48:D7:05'', ''54:26:96'', ''5C:F7:E6'', ''60:03:08'', ''64:A3:CB'', ''68:5B:35'', ''6C:94:66'', ''70:11:24'',
        ''74:E2:F5'', ''78:7B:8A'', ''7C:D1:C3'', ''80:E6:50'', ''84:FC:FE'', ''88:66:A5'', ''8C:85:90'', ''90:84:0D'',
        ''98:01:A7'', ''9C:20:7B'', ''A4:D1:D2'', ''AC:BC:32'', ''B0:34:95'', ''B8:17:C2'', ''BC:52:B7'', ''C0:CE:CD'',
        ''C8:2A:14'', ''CC:08:E0'', ''D0:03:4B'', ''D4:61:9D'', ''DC:2B:2A'', ''E0:B9:BA'', ''E4:25:E7'', ''F0:B4:79'',
        ''F4:5C:89'', ''F8:1E:DF'']),
      (''Samsung'', [''00:07:AB'', ''00:12:FB'', ''00:15:99'', ''00:16:32'', ''00:17:D5'', ''00:18:AF'', ''00:1A:8A'',
        ''00:1C:43'', ''00:1D:25'', ''00:1E:E1'', ''00:1E:E2'', ''00:21:19'', ''00:23:39'', ''00:23:99'', ''00:23:D6'',
        ''00:23:D7'', ''00:24:54'', ''00:24:90'', ''00:24:91'', ''00:25:66'', ''00:25:67'', ''00:26:37'', ''08:D4:2B'',
        ''10:1D:C0'', ''14:49:E0'', ''30:C7:AE'', ''34:23:BA'', ''44:4E:1A'', ''50:01:BB'', ''54:92:BE'', ''5C:3A:45'',
        ''78:52:1A'', ''84:25:DB'', ''8C:71:F8'', ''94:35:0A'', ''A8:7C:01'', ''BC:85:56'', ''C0:BD:D1'', ''D0:22:BE'',
        ''E4:7C:F9'', ''F0:25:B7'', ''F4:7B:5E'']),
      (''Google'', [''08:9E:08'', ''20:DF:B9'', ''30:FD:38'', ''3C:5A:B4'', ''48:D6:D5'', ''54:60:09'', ''6C:AD:F8'',
        ''94:EB:2C'', ''A4:77:33'', ''F4:F5:D8'', ''F4:F5:E8'']),
      (''Amazon'', [''00:FC:8B'', ''0C:47:C9'', ''10:CE:A9'', ''14:91:82'', ''18:74:2E'', ''34:D2:70'', ''38:F7:3D'',
        ''40:B4:CD'', ''44:65:0D'', ''50:DC:E7'', ''68:37:E9'', ''68:54:FD'', ''74:C2:46'', ''84:D6:D0'', ''A0:02:DC'',
        ''AC:63:BE'', ''B0:FC:0D'', ''F0:F0:A4'', ''FC:65:DE'', ''FC:A1:83'']),
      (''Intel'', [''00:02:B3'', ''00:03:47'', ''00:0E:0C'', ''00:11:11'', ''00:13:02'', ''00:13:20'', ''00:13:CE'',
        ''00:13:E8'', ''00:15:00'', ''00:15:17'', ''00:16:76'', ''00:16:EA'', ''00:18:DE'', ''00:19:D1'', ''00:1B:21'',
        ''00:1B:77'', ''00:1C:BF'', ''00:1D:E0'', ''00:1E:64'', ''00:1E:65'', ''00:1F:3B'', ''00:1F:3C'', ''00:20:7B'',
        ''00:21:5C'', ''00:21:6A'', ''00:22:FA'', ''00:22:FB'', ''00:24:D6'', ''00:24:D7'', ''00:27:10'']),
      (''Raspberry Pi'', [''28:CD:C1'', ''B8:27:EB'', ''D8:3A:DD'', ''DC:A6:32'', ''E4:5F:01'']),
      (''Cisco'', [''00:00:0C'', ''00:01:42'', ''00:01:64'', ''00:0C:85'', ''00:0D:BC'', ''00:12:D9'', ''00:16:C7'',
        ''00:17:0E'', ''00:17:94'', ''00:18:18'', ''00:18:B9'', ''00:19:06'', ''00:1A:A1'', ''00:1B:53'', ''00:1C:0E'',
        ''24:01:C7'', ''B0:7D:47'']),
      (''Netgear'', [''00:14:6C'', ''00:1B:2F'', ''00:1E:2A'', ''00:1F:33'', ''00:22:3F'', ''00:24:B2'', ''00:26:F2'',
        ''20:E5:2A'', ''2C:B0:5D'', ''04:A1:51'', ''6C:B0:CE'']),
      (''Ubiquiti'', [''18:E8:29'', ''24:5A:4C'', ''44:D9:E7'', ''68:72:51'', ''74:83:C2'', ''78:8A:20'', ''80:2A:A8'',
        ''B4:FB:E4'', ''DC:9F:DB'', ''FC:EC:DA'']),
      (''MikroTik'', [''00:0C:42'', ''00:17:0F'', ''2C:C8:1B'', ''48:8F:5A'', ''4C:5E:0C'', ''64:D1:54'', ''6C:3B:6B'',
        ''74:4D:28'', ''B8:69:F4'', ''CC:2D:E0'', ''D4:CA:6D'', ''E4:8D:8C'']),
      (''TP-Link'', [''00:1D:0F'', ''00:23:CD'', ''00:27:19'', ''10:FE:ED'', ''14:CC:20'', ''14:CF:92'', ''18:A6:F7'',
        ''1C:3B:F3'', ''30:B5:C2'', ''50:C7:BF'', ''54:C8:0F'', ''60:32:B1'', ''64:56:01'', ''78:44:76'', ''98:DA:C4'',
        ''B0:4E:26'', ''C0:25:E9'', ''E8:DE:27'']),
      (''Philips'', [''00:17:88'']),
      (''Philips Hue'', [''00:B5:6D'']),
      (''Sonos'', [''00:04:20'', ''34:7E:5C'', ''48:A6:B8'', ''5C:AA:FD'', ''78:28:CA'', ''94:9F:3E'', ''B8:E9:37'']),
      (''Ring'', [''7C:2F:80'', ''34:3E:A4'']),
      (''GainSpan'', [''00:1D:C9'']),
      (''Nest'', [''18:B4:30'', ''64:16:66'']),
      (''Espressif'', [''24:0A:C4'', ''30:AE:A4'', ''A4:CF:12'', ''AC:67:B2'', ''BC:DD:C2'', ''CC:50:E3'', ''DC:4F:22'',
        ''EC:FA:BC'']),
      (''Tuya'', [''B0:A7:32'', ''D8:1F:12'']),
      (''Microsoft'', [''00:03:FF'', ''00:0D:3A'', ''00:12:5A'', ''00:15:5D'', ''00:17:FA'', ''00:1D:D8'', ''00:22:48'',
        ''00:25:AE'', ''28:18:78'', ''60:45:BD'', ''7C:1E:52'', ''B4:0E:DE'']),
      (''Dell'', [''00:06:5B'', ''00:08:74'', ''00:0B:DB'', ''00:0D:56'', ''00:0F:1F'', ''00:11:43'', ''00:12:3F'',
        ''00:13:72'', ''00:14:22'', ''00:15:C5'', ''00:18:8B'', ''00:19:B9'', ''00:1A:A0'', ''00:1C:23'', ''00:1D:09'',
        ''00:1E:4F'', ''00:1E:C9'', ''00:21:70'', ''00:21:9B'', ''00:22:19'', ''00:24:E8'', ''00:25:64'']),
      (''HP'', [''00:01:E6'', ''00:02:A5'', ''00:08:02'', ''00:0B:CD'', ''00:0D:9D'', ''00:0E:7F'', ''00:0F:20'',
        ''00:10:83'', ''00:11:0A'', ''00:11:85'', ''00:12:79'', ''00:13:21'', ''00:14:38'', ''00:15:60'', ''00:17:A4'',
        ''00:18:FE'', ''00:1A:4B'', ''00:1B:78'', ''00:1C:C4'', ''00:1E:0B'', ''00:21:5A'', ''00:22:64'', ''00:24:81'',
        ''00:25:B3'']),
      (''Lenovo'', [''00:0C:F1'', ''00:09:2D'']),
      (''Broadcom'', [''00:05:B5'', ''00:10:18'', ''00:90:4C'', ''00:1A:2B'']),
      (''Qualcomm'', [''00:03:7F'', ''00:0A:F5'']),
      (''Xiaomi'', [''00:24:D4'', ''28:6C:07'', ''34:CE:00'', ''50:64:2B'', ''58:44:98'', ''64:09:80'', ''78:11:DC'',
        ''7C:1D:D9'', ''8C:DE:F9'', ''9C:99:A0'', ''AC:C1:EE'', ''F0:B4:29'', ''FC:D7:33'']),
      (''LG'', [''00:04:9F'', ''00:1C:62'', ''00:1E:75'', ''00:22:A9'', ''00:AA:70'', ''10:68:3F'', ''20:3D:BD'',
        ''34:FC:EF'', ''58:A2:B5'', ''A8:23:FE'', ''CC:2D:83'', ''00:E0:91'']),
      (''Roku'', [''AC:3A:7A'', ''B0:A7:37'', ''C8:3A:6B'', ''D4:E2:2F'', ''DC:3A:5E'']),
      (''Nvidia'', [''00:04:4B'', ''00:0A:E6'', ''48:B0:2D'']),
      (''Gree'', [''B4:2E:99'']),
      (''Hon Hai/Foxconn'', [''10:27:F5'']),
      (''Ericsson'', [''00:09:B0'']),
      (''Casa Systems'', [''00:17:10''])]"

definition oui_db :: "(string \<times> string) list" where
  "oui_db = List.concat (List.map (\<lambda>(v, ps). List.map (\<lambda>p. (p, v)) ps) oui_groups)"

definition oui_Lookup :: "string \<Rightarrow> string" where
  "oui_Lookup mac =
     (if length mac < 8 then []
      else case map_of oui_db (replace_char (CHR ''-'') (CHR '':'') (to_upper (take 8 mac))) of Some v \<Rightarrow> v | None \<Rightarrow> [])"

subsection \<open>Operating systems (\<open>dhcpfp/dhcpfp.go\<close>)\<close>

datatype profile = Profile (pf_OS: string) (pf_DeviceType: string)

definition matchVendorClass :: "string \<Rightarrow> profile option" where
  "matchVendorClass vc =
     (let lower = to_lower vc in
      if vc = [] then None
      else if has_prefix lower ''android-dhcp-'' then Some (Profile ''Android'' ''phone'')
      else if contains_sub lower ''msft 5.0'' then Some (Profile ''Windows'' ''desktop'')
      else if contains_sub lower ''msft '' then Some (Profile ''Windows'' ''desktop'')
      else if has_prefix lower ''dhcpcd'' \<and> contains_sub lower ''linux'' then Some (Profile ''Linux'' ''desktop'')
      else if has_prefix lower ''dhcpcd'' then Some (Profile ''Linux'' ''desktop'')
      else if has_prefix lower ''udhcp'' then Some (Profile ''Linux'' ''iot'')
      else if contains_sub lower ''roku'' then Some (Profile ''Roku OS'' ''tv'')
      else if contains_sub lower ''xbox'' then Some (Profile ''Xbox'' ''console'')
      else if contains_sub lower ''playstation'' \<or> has_prefix lower ''ps5'' \<or> has_prefix lower ''ps4''
        then Some (Profile ''PlayStation'' ''console'')
      else if contains_sub lower ''printer'' \<or> contains_sub lower ''hp '' then Some (Profile ''Embedded'' ''printer'')
      else if contains_sub lower ''chromecast'' \<or> contains_sub lower ''chrome'' then Some (Profile ''ChromeOS'' ''iot'')
      else None)"

definition prlDB :: "(string \<times> profile) list" where
  "prlDB = [
      (''1,121,3,6,15,119,252'', Profile ''iOS'' ''phone''),
      (''1,121,3,6,15,119,252,95,44,46'', Profile ''iOS'' ''phone''),
      (''1,3,6,15,119,252'', Profile ''iOS'' ''phone''),
      (''1,3,6,15,119,252,67,13'', Profile ''iOS'' ''phone''),
      (''1,121,3,6,15,119,252,95,44,46,67'', Profile ''iOS'' ''phone''),
      (''1,121,3,6,15,119,252,95,44,46,101'', Profile ''macOS'' ''laptop''),
      (''1,3,6,15,119,95,252,44,46'', Profile ''macOS'' ''laptop''),
      (''1,3,6,15,119,95,252,44,46,47'', Profile ''macOS'' ''laptop''),
      (''1,121,3,6,15,119,252,95,44,46,47'', Profile ''macOS'' ''laptop''),
      (''1,3,6,15,119,252,95'', Profile ''tvOS'' ''tv''),
      (''1,3,6,15,31,33,43,44,46,47,119,121,249,252'', Profile ''Windows'' ''desktop''),
      (''1,15,3,6,44,46,47,31,33,121,249,252,43'', Profile ''Windows'' ''desktop''),
      (''1,15,3,6,44,46,47,31,33,121,249,252'', Profile ''Windows'' ''desktop''),
      (''1,3,6,15,31,33,43,44,46,47,119,121,249,252,0'', Profile ''Windows'' ''desktop''),
      (''1,15,3,6,44,46,47,31,33,249,43'', Profile ''Windows'' ''desktop''),
      (''1,15,3,6,44,46,47,31,33,249,43,252'', Profile ''Windows'' ''desktop''),
      (''1,3,6,15,26,28,51,58,59,43'', Profile ''Android'' ''phone''),
      (''1,33,3,6,15,26,28,51,58,59,43'', Profile ''Android'' ''phone''),
      (''1,3,6,15,26,28,51,58,59'', Profile ''Android'' ''phone''),
      (''1,3,6,15,26,28,51,58,59,43,114'', Profile ''Android'' ''phone''),
      (''1,121,33,3,6,12,15,26,28,51,54,58,59,119,43'', Profile ''ChromeOS'' ''laptop''),
      (''1,28,2,3,15,6,119,12,44,47,26,121,42'', Profile ''Linux'' ''desktop''),
      (''1,28,2,121,15,6,12,40,41,42,26,119,3'', Profile ''Linux'' ''desktop''),
      (''1,28,2,3,15,6,12'', Profile ''Linux'' ''desktop''),
      (''1,28,2,3,15,6,119,12,44,47,26,121'', Profile ''Linux'' ''desktop''),
      (''1,2,3,6,12,15,26,28,121,119'', Profile ''Linux'' ''desktop''),
      (''1,3,6,12,15,28,42,125'', Profile ''Tizen'' ''tv''),
      (''1,3,6,15,28,33'', Profile ''webOS'' ''tv''),
      (''1,3,28,6'', Profile ''Embedded'' ''tv''),
      (''1,3,6,15,28'', Profile ''Embedded'' ''iot''),
      (''1,3,6,12,15,28,42'', Profile ''Embedded'' ''iot''),
      (''1,3,6,15'', Profile ''Embedded'' ''iot''),
      (''1,3,6'', Profile ''Embedded'' ''iot''),
      (''1,3,6,28'', Profile ''Embedded'' ''iot''),
      (''1,3,6,15,44,47,12'', Profile ''Embedded'' ''printer''),
      (''6,3,1,15,66,67,13,44,12'', Profile ''Embedded'' ''printer''),
      (''1,66,6,3,15,150'', Profile ''IOS'' ''router''),
      (''1,3,6,15,150,43,125'', Profile ''IOS'' ''router'')]"

definition matchFingerprint :: "string \<Rightarrow> profile option" where
  "matchFingerprint fp = (if fp = [] then None else map_of prlDB fp)"

definition dhcpfp_Lookup :: "string \<Rightarrow> string \<Rightarrow> profile option" where
  "dhcpfp_Lookup fingerprint vendorClass =
     (case matchVendorClass vendorClass of Some p \<Rightarrow> Some p | None \<Rightarrow> matchFingerprint fingerprint)"

subsection \<open>A manufacturer is never read off a randomized address\<close>

definition real_prefix :: "string \<Rightarrow> bool" where
  "real_prefix p = (case p of a # b # c # _ \<Rightarrow> c = CHR '':'' \<and> is_hex a
       \<and> (case hex_val b of Some l \<Rightarrow> even (l div 2) | None \<Rightarrow> False) | _ \<Rightarrow> False)"

lemma oui_prefixes: "(p, v) \<in> set oui_db \<Longrightarrow> real_prefix p"
proof -
  have "list_all (\<lambda>(p, v). real_prefix p) oui_db" by code_simp
  then show "(p, v) \<in> set oui_db \<Longrightarrow> real_prefix p" by (auto simp: list_all_iff)
qed

lemma hex_val_upper [simp]: "hex_val (to_upper_char c) = hex_val c"
  by (auto simp: hex_val_def to_upper_char_def Let_def)

lemma hex_digit_not_sep: "is_hex c \<Longrightarrow> c \<noteq> CHR '':'' \<and> c \<noteq> CHR ''-'' \<and> \<not> is_space c"
  by (auto simp: is_hex_def hex_val_def is_space_def Let_def split: if_splits)

lemma to_upper_sep: "to_upper_char c = CHR '':'' \<longleftrightarrow> c = CHR '':''" "to_upper_char c = CHR ''-'' \<longleftrightarrow> c = CHR ''-''"
proof -
  have "(97 \<le> (of_char c :: nat) \<and> (of_char c :: nat) \<le> 122) \<Longrightarrow> (of_char (to_upper_char c) :: nat) = of_char c - 32"
    by (auto simp: to_upper_char_def Let_def intro!: mod_less less_imp_diff_less)
  then have "to_upper_char c = c \<or> (97 \<le> (of_char c :: nat) \<and> 65 \<le> (of_char (to_upper_char c) :: nat))"
    by (auto simp: to_upper_char_def Let_def)
  then show "to_upper_char c = CHR '':'' \<longleftrightarrow> c = CHR '':''" "to_upper_char c = CHR ''-'' \<longleftrightarrow> c = CHR ''-''" by auto
qed

lemma hex_val_sep [simp]: "hex_val (CHR '':'') = None" "hex_val (CHR ''-'') = None"
  by (simp_all add: hex_val_def)

lemma nib_bit: "nib h l AND 2 \<noteq> 0 \<longleftrightarrow> odd (l div 2)"
proof -
  have "nib h l AND 2 = 0 \<longleftrightarrow> \<not> bit (nib h l) 1"
    using and_exp_eq_0_iff_not_bit [of "nib h l" 1] by simp
  moreover have "bit (of_nat n :: byte) 1 \<longleftrightarrow> odd (n div 2)" for n 
    using bit_iff_odd [of n 1] by (simp only: bit_of_nat_iff) simp
  then have "bit (nib h l) 1 \<longleftrightarrow> odd ((16 * h + l) div 2)" unfolding nib_def .
  moreover have "(16 * h + l) div 2 = 8 * h + l div 2" by simp
  ultimately show ?thesis by simp
qed

lemma trim_space_head:
  assumes "\<not> is_space x" "\<not> is_space z"
  shows "\<exists>r. trim_space (x # y # z # rest) = x # y # z # r"
proof (cases "\<forall>c \<in> set rest. is_space c")
  case True
  then have "dropWhile is_space (rev rest @ [z, y, x]) = [z, y, x]" using assms by (simp add: dropWhile_append)
  then show ?thesis using assms by (simp add: trim_space_def trim_left_by_def trim_right_by_def)
next
  case False
  then have "dropWhile is_space (rev rest @ [z, y, x]) = dropWhile is_space (rev rest) @ [z, y, x]"
    by (auto simp: dropWhile_append)
  then show ?thesis using assms by (simp add: trim_space_def trim_left_by_def trim_right_by_def)
qed

text \<open>
  Further fact. A manufacturer is a fact about a real address. Whatever spelling of a MAC the table of manufacturers
  answers for, the locally administered bit of that MAC is clear, so no randomized address is ever given a vendor.
\<close>

theorem vendor_is_real:
  "\<not> (oui_Lookup mac \<noteq> [] \<and> IsRandomizedMAC mac)"
proof
  assume "oui_Lookup mac \<noteq> [] \<and> IsRandomizedMAC mac"
  then have v: "oui_Lookup mac \<noteq> []" and rnd: "IsRandomizedMAC mac" by simp_all
  let ?r = "\<lambda>c. if c = CHR ''-'' then CHR '':'' else c"
  let ?p = "List.map ?r (to_upper (take 8 mac))"
  from v have len: "8 \<le> length mac" and "map_of oui_db ?p \<noteq> None"
    by (auto simp: oui_Lookup_def replace_char_def split: if_splits option.splits)
  then obtain w where "(?p, w) \<in> set oui_db" by (auto dest: map_of_SomeD)
  then have rp: "real_prefix ?p" by (rule oui_prefixes)
  obtain x y z rest where mac: "mac = x # y # z # rest" using len by (cases mac; cases "tl mac"; cases "tl (tl mac)") auto
  have p: "?p = ?r (to_upper_char x) # ?r (to_upper_char y) # ?r (to_upper_char z) # List.map ?r (to_upper (take 5 rest))"
    by (simp add: mac to_upper_def)
  have "is_hex (?r (to_upper_char x))" "?r (to_upper_char z) = CHR '':''"
    and y: "case hex_val (?r (to_upper_char y)) of Some l \<Rightarrow> even (l div 2) | None \<Rightarrow> False"
    using rp unfolding p real_prefix_def by (simp_all only: list.case)
  then have x: "is_hex x" and z: "z = CHR '':'' \<or> z = CHR ''-''"
    by (auto simp: is_hex_def to_upper_sep split: if_splits)
  obtain l where l: "hex_val y = Some l" "even (l div 2)" using y by (auto split: if_splits option.splits)
  have ns: "\<not> is_space x" "\<not> is_space z" "x \<noteq> CHR '':''" "x \<noteq> CHR ''-''" "y \<noteq> CHR '':''" "y \<noteq> CHR ''-''"
    using hex_digit_not_sep [OF x] hex_digit_not_sep [of y] l z by (auto simp: is_hex_def is_space_def)
  obtain r where "trim_space mac = x # y # z # r" using trim_space_head [OF ns(1,2)] unfolding mac by blast
  then have "cut_at (CHR '':'') (replace_char (CHR ''-'') (CHR '':'') (trim_space mac)) = Some ([x, y], replace_char (CHR ''-'') (CHR '':'') r)"
    using ns z by (auto simp: replace_char_def)
  then show False using rnd l by (auto simp: IsRandomizedMAC_def nib_bit split: option.splits)
qed

end
