(* ===== verification/SubnetScan.thy ===== *)
theory SubnetScan
  imports ArpFrame
begin

text \<open>
  The active side of the ARP discovery (\<open>device-inventory/internal/arp/scanner.go\<close>): the addresses a sweep asks for and
  the request it sends. The choice of the interface and the sweep as frames are in \<open>Scanner\<close>.
\<close>

text \<open>\<open>inc\<close> counts from the last byte on; the model runs over the reversed bytes.\<close>

fun inc_rev :: "byte list \<Rightarrow> byte list" where
  "inc_rev [] = []"
| "inc_rev (b # bs) = (let b' = b + 1 in if b' \<noteq> 0 then b' # bs else b' # inc_rev bs)"

definition inc :: "byte list \<Rightarrow> byte list" where
  "inc ip = rev (inc_rev (rev ip))"

definition word_of :: "byte list \<Rightarrow> 32 word" where
  "word_of bs = of_nat (bytes_nat bs)"

text \<open>\<open>for inc(ip); subnet.Contains(ip); inc(ip)\<close>, which need not end.\<close>

partial_function (option) sweep :: "ipnet \<Rightarrow> byte list \<Rightarrow> byte list list \<Rightarrow> byte list list option" where
  "sweep subnet ip acc =
     (let ip' = inc ip in
      if ipnet_contains subnet (IP4 (word_of ip')) then sweep subnet ip' (acc @ [ip']) else Some acc)"

definition to4 :: "ipnet \<Rightarrow> byte list" where
  "to4 subnet = (case subnet of Net4 w n \<Rightarrow> v4_bytes w | Net6 w n \<Rightarrow> [0, 0, 0, 0])"

definition subnetIPs :: "ipnet \<Rightarrow> byte list list option" where
  "subnetIPs subnet =
     (case sweep subnet (to4 subnet) [] of
        None \<Rightarrow> None
      | Some ips \<Rightarrow> Some (if length ips > 1 then butlast ips else ips))"

definition arp_request :: "byte list \<Rightarrow> byte list \<Rightarrow> byte list \<Rightarrow> byte list" where
  "arp_request ifaceMAC localIP targetIP =
     (let f = replicate (ethHdrLen + arpHdrLen) 0;
          f = copy_at 0 6 [0xff, 0xff, 0xff, 0xff, 0xff, 0xff] f;
          f = copy_at 6 12 ifaceMAC f;
          f = copy_at 12 14 (be16 ethPARP) f;
          f = copy_at 14 16 (be16 1) f;
          f = copy_at 16 18 (be16 0x0800) f;
          f = f[18 := 6];
          f = f[19 := 4];
          f = copy_at 20 22 (be16 1) f;
          f = copy_at 22 28 ifaceMAC f;
          f = copy_at 28 32 localIP f
      in copy_at 38 42 targetIP f)"

subsection \<open>Counting on bytes is counting\<close>

fun le_nat :: "byte list \<Rightarrow> nat" where
  "le_nat [] = 0"
| "le_nat (b # bs) = unat b + 256 * le_nat bs"

lemma bytes_nat_rev: "bytes_nat bs = le_nat (rev bs)"
  by (induction bs rule: rev_induct) (simp_all add: bytes_nat_def)

lemma le_nat_inj: "length xs = length ys \<Longrightarrow> le_nat xs = le_nat ys \<Longrightarrow> xs = ys"
proof (induction xs ys rule: list_induct2)
  case (Cons x xs y ys)
  have b: "unat x < 256" "unat y < 256" using unsigned_less [of x] unsigned_less [of y] by simp_all
  have e: "unat x + 256 * le_nat xs = unat y + 256 * le_nat ys" using Cons.prems by simp
  have "(unat x + 256 * le_nat xs) mod 256 = unat x" "(unat y + 256 * le_nat ys) mod 256 = unat y" using b by simp_all
  with e have u: "unat x = unat y" by metis
  with e have "le_nat xs = le_nat ys" by linarith
  with u Cons.IH show ?case by (simp add: word_unat_eq_iff)
qed simp

lemma length_inc_rev [simp]: "length (inc_rev bs) = length bs"
  by (induction bs) (simp_all add: Let_def)

lemma le_nat_less: "le_nat bs < 256 ^ length bs"
proof (induction bs)
  case (Cons b bs)
  have "unat b < 256" using unsigned_less [of b] by simp
  then have "unat b + 256 * le_nat bs < 256 * (le_nat bs + 1)" by simp
  also have "\<dots> \<le> 256 * 256 ^ length bs" using Cons by (intro mult_left_mono) simp_all
  finally show ?case by simp
qed simp

lemma le_nat_inc: "le_nat (inc_rev bs) = (le_nat bs + 1) mod 256 ^ length bs"
proof (induction bs)
  case (Cons b bs)
  have b: "unat b < 256" using unsigned_less [of b] by simp
  show ?case
  proof (cases "b + 1 = 0")
    case True
    then have "(unat b + 1) mod 256 = 0" using unat_word_ariths(1) [of b 1] by simp
    then have "\<not> unat b + 1 < 256" using mod_less [of "unat b + 1" 256] by (intro notI) linarith
    with b have "unat b = 255" by linarith
    then have "le_nat (b # bs) + 1 = 256 * (le_nat bs + 1)" by simp
    then have "(le_nat (b # bs) + 1) mod 256 ^ length (b # bs) = 256 * ((le_nat bs + 1) mod 256 ^ length bs)"
      by (simp only: list.size power_Suc mult_mod_right plus_1_eq_Suc add_Suc_right add_0_right)
    with True Cons show ?thesis by (simp add: Let_def)
  next
    case False
    then have u: "unat (b + 1) = unat b + 1" by (metis add.commute unatSuc Suc_eq_plus1)
    moreover have "unat (b + 1) < 256" using unsigned_less [of "b + 1"] by simp
    ultimately have "le_nat (b # bs) + 1 < 256 ^ length (b # bs)" using le_nat_less [of bs] by simp
    with False u show ?thesis by (simp add: Let_def)
  qed
qed simp

lemma inc_v4: "inc (v4_bytes w) = v4_bytes (w + 1)"
proof -
  have n: "le_nat (rev (v4_bytes u)) = unat u" for u using v4_bytes_nat [of u] by (simp add: bytes_nat_rev)
  have "unat (w + 1) = (unat w + 1) mod 2 ^ 32" by (simp add: unat_word_ariths)
  then have "le_nat (inc_rev (rev (v4_bytes w))) = le_nat (rev (v4_bytes (w + 1)))"
    by (simp add: le_nat_inc n)
  then have "inc_rev (rev (v4_bytes w)) = rev (v4_bytes (w + 1))" by (intro le_nat_inj) simp_all
  then show ?thesis by (simp add: inc_def)
qed

lemma word_of_v4 [simp]: "word_of (v4_bytes w) = w"
  by (simp add: word_of_def)

subsection \<open>The addresses of a sweep\<close>

lemma sweep_step: "sweep (Net4 v n) (v4_bytes w) acc =
    (if same_top n v (w + 1) then sweep (Net4 v n) (v4_bytes (w + 1)) (acc @ [v4_bytes (w + 1)]) else Some acc)"
  by (subst sweep.simps) (simp add: inc_v4 Let_def)

lemma sweep_run:
  assumes "\<And>j. j < m \<Longrightarrow> same_top n v (w + of_nat (Suc j))" "\<not> same_top n v (w + of_nat (Suc m))"
  shows "sweep (Net4 v n) (v4_bytes w) acc = Some (acc @ List.map (\<lambda>j. v4_bytes (w + of_nat (Suc j))) [0..<m])"
  using assms
proof (induction m arbitrary: w acc)
  case 0
  then show ?case by (simp add: sweep_step)
next
  case (Suc m)
  have s: "w + 1 + of_nat (Suc j) = w + of_nat (Suc (Suc j))" for j by simp
  have "same_top n v (w + 1)" using Suc.prems(1) [of 0] by simp
  moreover have "sweep (Net4 v n) (v4_bytes (w + 1)) (acc @ [v4_bytes (w + 1)])
      = Some ((acc @ [v4_bytes (w + 1)]) @ List.map (\<lambda>j. v4_bytes (w + 1 + of_nat (Suc j))) [0..<m])"
    by (rule Suc.IH) (use Suc.prems in \<open>simp_all only: s Suc_less_eq not_False_eq_True\<close>)
  moreover have "[0..<Suc m] = 0 # List.map Suc [0..<m]" by (simp only: upt_conv_Cons map_Suc_upt zero_less_Suc)
  ultimately show ?case by (simp only: sweep_step [of v n w] if_True s) (simp add: comp_def)
qed

lemma sweep_never:
  assumes "sweep subnet ip acc = Some r"
  shows "\<exists>w. \<not> ipnet_contains subnet (IP4 w)"
  by (rule sweep.raw_induct [where P = "\<lambda>subnet ip acc r. \<exists>w. \<not> ipnet_contains subnet (IP4 w)", OF _ assms])
    (auto simp: Let_def split: if_splits)

lemma unat32: "unat (w :: 32 word) < 2 ^ 32"
  using unsigned_less [of w, where 'a = nat] by simp

lemma nat_bits: "drop_bit n (m :: nat) = m div 2 ^ n" "push_bit n m = m * 2 ^ n" "take_bit n m = m mod 2 ^ n"
  by (simp_all add: drop_bit_eq_div push_bit_eq_mult take_bit_eq_mod)

lemma same_top_nat: "n \<le> 32 \<Longrightarrow> same_top n (v :: 32 word) w \<longleftrightarrow> unat v div 2 ^ (32 - n) = unat w div 2 ^ (32 - n)"
  by (simp only: same_top_iff word_unat_eq_iff unat_drop_bit_eq nat_bits) simp

lemma same_top_block:
  fixes v :: "32 word"
  assumes n: "1 \<le> n" "n \<le> 32" and v: "top_bits n v = v"
  shows "j < 2 ^ (32 - n) \<Longrightarrow> same_top n v (v + of_nat j)" "\<not> same_top n v (v + of_nat (2 ^ (32 - n)))"
proof -
  define k a where "k = (2 :: nat) ^ (32 - n)" and "a = unat v div k"
  have k: "0 < k" "k * 2 ^ n = 2 ^ 32" using n by (simp_all add: k_def power_add [symmetric])
  have "unat v = unat (push_bit (32 - n) (drop_bit (32 - n) v))" using v by (simp add: top_bits_def)
  also have "\<dots> = (unat v div k * k) mod 2 ^ 32"
    by (simp only: unsigned_push_bit_eq unat_drop_bit_eq nat_bits k_def) simp
  also have "\<dots> = unat v div k * k"
  proof (rule mod_less)
    have "unat v div k * k \<le> unat v" by simp
    moreover note unat32 [of v]
    ultimately show "unat v div k * k < 2 ^ 32" by linarith
  qed
  finally have va: "unat v = a * k" by (simp add: a_def)
  have a: "a < 2 ^ n"
  proof -
    have "a * k < 2 ^ n * k" using unat32 [of v] va k(2) by (simp add: mult.commute)
    then show ?thesis by simp
  qed
  have plus: "unat (v + of_nat j) = (a * k + j) mod 2 ^ 32" for j
    by (simp add: unat_word_ariths unat_of_nat va mod_simps)
  show "same_top n v (v + of_nat j)" if "j < 2 ^ (32 - n)"
  proof -
    have "a * k + j < (a + 1) * k" using that by (simp add: k_def)
    also have "\<dots> \<le> 2 ^ n * k" using a by (intro mult_right_mono) simp_all
    finally have "unat (v + of_nat j) = a * k + j" using plus k(2) by (simp add: mult.commute)
    moreover have "(a * k + j) div k = a" using that k(1) by (simp add: k_def)
    ultimately show ?thesis using n va k(1) by (simp add: same_top_nat k_def [symmetric])
  qed
  show "\<not> same_top n v (v + of_nat (2 ^ (32 - n)))"
  proof -
    have "unat (v + of_nat k) = ((a + 1) * k) mod (2 ^ n * k)" using plus [of k] k(2) by (simp add: mult.commute add.commute)
    also have "\<dots> = ((a + 1) mod 2 ^ n) * k" by (simp add: mult_mod_left)
    finally have "unat (v + of_nat k) div k = (a + 1) mod 2 ^ n" using k(1) by simp
    moreover have "(a + 1) mod 2 ^ n \<noteq> a"
    proof (cases "a + 1 < 2 ^ n")
      case False
      with a have "a + 1 = 2 ^ n" by simp
      moreover have "(2 :: nat) \<le> 2 ^ n" using n(1) power_increasing [of 1 n "2 :: nat"] by simp
      then have "a \<noteq> 0" using \<open>a + 1 = 2 ^ n\<close> by linarith
      ultimately show ?thesis by simp
    qed simp
    ultimately show ?thesis using n va k(1) by (simp add: same_top_nat k_def [symmetric] a_def [symmetric])
  qed
qed

text \<open>
  Further fact. A sweep asks for every host of its network once. For a network of prefix length 1 to 32 these
  are, in order, the addresses after the first up to the one before the last; a network of two addresses has one host, one
  of a single address none. For the network of prefix length 0 the sweep never ends and its list grows without bound.
\<close>

theorem sweep_covers_subnet:
  fixes v :: "32 word"
  assumes "n \<le> 32" and v: "top_bits n v = v"
  shows "subnetIPs (Net4 v n) =
    (if n = 0 then None
     else Some (List.map (\<lambda>j. v4_bytes (v + of_nat j)) [1..<(if n = 31 then 2 else 2 ^ (32 - n) - 1)]))"
proof (cases "n = 0")
  case True
  have "same_top 0 v w" for w using same_top_nat [of 0 v w] unat32 [of v] unat32 [of w] by simp
  then have "sweep (Net4 v 0) (v4_bytes v) [] = None"
    using sweep_never [of "Net4 v 0" "v4_bytes v" "[]"] by (cases "sweep (Net4 v 0) (v4_bytes v) []") auto
  with True show ?thesis by (simp add: subnetIPs_def to4_def)
next
  case False
  then have n: "1 \<le> n" "n \<le> 32" using assms by simp_all
  define k where "k = (2 :: nat) ^ (32 - n)"
  note blk = same_top_block [OF n v, folded k_def]
  have k: "0 < k" by (simp add: k_def)
  have "sweep (Net4 v n) (v4_bytes v) [] = Some ([] @ List.map (\<lambda>j. v4_bytes (v + of_nat (Suc j))) [0..<k - 1])"
    by (rule sweep_run) (use blk k in \<open>auto simp del: of_nat_Suc\<close>)
  also have "\<dots> = Some (List.map (\<lambda>j. v4_bytes (v + of_nat j)) [1..<k])"
    using k map_Suc_upt [of 0 "k - 1"] map_map [of "\<lambda>j. v4_bytes (v + of_nat j)" Suc "[0..<k - 1]"]
    by (simp add: comp_def del: map_map of_nat_Suc)
  finally have s: "sweep (Net4 v n) (v4_bytes v) [] = Some (List.map (\<lambda>j. v4_bytes (v + of_nat j)) [1..<k])" .
  show ?thesis
  proof (cases "k \<le> 2")
    case True
    have "k = 1 \<and> n = 32 \<or> k = 2 \<and> n = 31"
    proof -
      have "32 - n < 2" using True unfolding k_def by (rule_tac ccontr) (use power_increasing [of 2 "32 - n" "2 :: nat"] in auto)
      then have "n = 31 \<or> n = 32" using n by linarith
      then show ?thesis by (auto simp: k_def)
    qed
    moreover have "[1..<2] = [1 :: nat]" by (simp add: numeral_2_eq_2)
    ultimately show ?thesis using s False by (elim disjE) (simp_all add: subnetIPs_def to4_def)
  next
    case big: False
    then have "n \<noteq> 31" by (auto simp: k_def)
    moreover have "butlast [1..<k] = [1..<k - 1]" using big by (cases k) (auto simp: butlast_append)
    ultimately show ?thesis using s False big by (simp add: subnetIPs_def to4_def k_def [symmetric] map_butlast [symmetric])
  qed
qed

theorem sweep_covers_subnet_witness:
  "subnetIPs (Net4 0xC0A80100 30) = Some [[192, 168, 1, 1], [192, 168, 1, 2]] \<and> subnetIPs (Net4 0 0) = None"
proof -
  have "top_bits 30 (0xC0A80100 :: 32 word) = 0xC0A80100" "top_bits 0 (0 :: 32 word) = 0" by code_simp+
  note sweep_covers_subnet [OF _ this(1)] sweep_covers_subnet [OF _ this(2)]
  moreover have "List.map (\<lambda>j. v4_bytes (0xC0A80100 + of_nat j)) [1..<3] = [[192, 168, 1, 1], [192, 168, 1, 2]]" by code_simp
  ultimately show ?thesis by simp
qed

end
