(* ===== verification/Discovery.thy ===== *)
theory Discovery
  imports SubnetScan GoHash "HOL-Library.Monad_Syntax"
begin

text \<open>
  The packet parsers of the inventory service: DHCP requests (\<open>device-inventory/internal/dhcp\<close>), ARP
  (\<open>internal/arp\<close>) and LLDP (\<open>internal/lldp\<close>), from the bytes that arrive
  to the sighting that is sent on. Where the code indexes or slices a packet, the model reads it with \<open>at\<close> and
  \<open>slice\<close>, which are \<open>None\<close> where Go panics. The sockets are not modelled: a packet is the bytes of one read.
\<close>

record info =
  di_MAC :: string
  di_IP :: string
  di_Hostname :: string
  di_Meta :: string
  di_Protocol :: string

definition string_of_bytes :: "byte list \<Rightarrow> string" where
  "string_of_bytes bs = List.map (\<lambda>b. char_of (unat b)) bs"

text \<open>\<open>data[i]\<close> and \<open>data[i:j]\<close>.\<close>

definition at :: "byte list \<Rightarrow> nat \<Rightarrow> byte option" where
  "at data i = (if i < length data then Some (data ! i) else None)"

definition slice :: "byte list \<Rightarrow> nat \<Rightarrow> nat \<Rightarrow> byte list option" where
  "slice data i j = (if i \<le> j \<and> j \<le> length data then Some (take (j - i) (drop i data)) else None)"

definition uint16_at :: "byte list \<Rightarrow> nat \<Rightarrow> nat option" where
  "uint16_at data i = map_option (\<lambda>s. from_be16 s 0) (slice data i (i + 2))"

text \<open>\<open>net.IP\<close> of four bytes as text.\<close>

definition ip_text :: "byte list \<Rightarrow> string" where
  "ip_text bs = v4_string (of_nat (bytes_nat bs))"

lemma slice_Some: "i \<le> j \<Longrightarrow> j \<le> length data \<Longrightarrow> slice data i j = Some (take (j - i) (drop i data))"
  by (simp add: slice_def)

lemma at_Some: "i < length data \<Longrightarrow> at data i = Some (data ! i)"
  by (simp add: at_def)

lemma uint16_at_Some: "i + 2 \<le> length data \<Longrightarrow> uint16_at data i = Some (from_be16 data i)"
  by (simp add: uint16_at_def slice_def from_be16_def)

subsection \<open>DHCP (\<open>dhcp/listener.go\<close>)\<close>

record dhcp_info =
  dh_MAC :: string
  dh_IP :: string
  dh_Hostname :: string
  dh_Fingerprint :: string
  dh_VendorClass :: string

definition minPacketLen :: nat where [simp]: "minPacketLen = 244"
definition opBootRequest :: byte where [simp]: "opBootRequest = 1"
definition optPad :: byte where [simp]: "optPad = 0"
definition optEnd :: byte where [simp]: "optEnd = 255"
definition optHostName :: byte where [simp]: "optHostName = 12"
definition optRequestedIP :: byte where [simp]: "optRequestedIP = 50"
definition optPRL :: byte where [simp]: "optPRL = 55"
definition optVendorClass :: byte where [simp]: "optVendorClass = 60"
definition magicCookie :: "byte list" where [simp]: "magicCookie = [0x63, 0x82, 0x53, 0x63]"

type_synonym options = "(byte, byte list) gomap"

function options_loop :: "byte list \<Rightarrow> nat \<Rightarrow> options \<Rightarrow> options option" where
  "options_loop data i opts =
     (if i < length data then
        do {
          code \<leftarrow> at data i;
          if code = optPad then options_loop data (i + 1) opts
          else if code = optEnd then Some opts
          else if i + 1 \<ge> length data then Some opts
          else do {
            b \<leftarrow> at data (i + 1);
            let len = unat b;
            if i + 2 + len > length data then Some opts
            else do {
              val \<leftarrow> slice data (i + 2) (i + 2 + len);
              options_loop data (i + 2 + len) (mput code val opts)
            }
          }
        }
      else Some opts)"
  by pat_completeness auto
termination by (relation "measure (\<lambda>(data, i, opts). length data - i)") auto

declare options_loop.simps [simp del]

definition parseOptions :: "byte list \<Rightarrow> options option" where
  "parseOptions data = options_loop data 0 []"

datatype dhcp_error = TooShort nat | NotRequest byte | BadCookie "byte list"

text \<open>\<open>None\<close> is a panic, \<open>Inl\<close> the returned error.\<close>

definition parsePacket :: "byte list \<Rightarrow> (dhcp_error + dhcp_info) option" where
  "parsePacket data =
     (if length data < minPacketLen then Some (Inl (TooShort (length data)))
      else do {
        op \<leftarrow> at data 0;
        if op \<noteq> opBootRequest then Some (Inl (NotRequest op))
        else do {
          cookie \<leftarrow> slice data 236 240;
          if cookie \<noteq> magicCookie then Some (Inl (BadCookie cookie))
          else do {
            h \<leftarrow> at data 2;
            let hlen = (if unat h < 1 \<or> unat h > 16 then 6 else unat h);
            mac \<leftarrow> slice data 28 (28 + hlen);
            ciaddr \<leftarrow> slice data 12 16;
            rest \<leftarrow> slice data 240 (length data);
            opts \<leftarrow> parseOptions rest;
            let text = (\<lambda>k. case mget opts k of Some v \<Rightarrow> string_of_bytes v | None \<Rightarrow> []);
            Some (Inr \<lparr> dh_MAC = mac_string mac,
              dh_IP = (case mget opts optRequestedIP of
                         Some ip \<Rightarrow> if length ip = 4 then ip_text ip
                                   else if ciaddr \<noteq> [0, 0, 0, 0] then ip_text ciaddr else []
                       | None \<Rightarrow> if ciaddr \<noteq> [0, 0, 0, 0] then ip_text ciaddr else []),
              dh_Hostname = text optHostName,
              dh_Fingerprint = (case mget opts optPRL of
                                  Some prl \<Rightarrow> join '','' (List.map (\<lambda>b. show_nat (unat b)) prl) | None \<Rightarrow> []),
              dh_VendorClass = text optVendorClass \<rparr>)
          }
        }
      })"

text \<open>The options as they stand in a packet: a specification on what is left of it.\<close>

fun read_options :: "byte list \<Rightarrow> options \<Rightarrow> options" where
  "read_options [] opts = opts"
| "read_options (code # rest) opts =
     (if code = optPad then read_options rest opts
      else if code = optEnd then opts
      else case rest of
          [] \<Rightarrow> opts
        | len # rest' \<Rightarrow>
            if unat len > length rest' then opts
            else read_options (drop (unat len) rest') (mput code (take (unat len) rest') opts))"

declare read_options.simps(2) [simp del]

lemma options_loop_eq: "options_loop data i opts = Some (read_options (drop i data) opts)"
proof (induction data i opts rule: options_loop.induct)
  case (1 data i opts)
  show ?case
  proof (cases "i < length data")
    case True
    define code where "code = data ! i"
    have at: "at data i = Some code" using True by (simp add: at_def code_def)
    have d: "drop i data = code # drop (i + 1) data" using True by (simp add: Cons_nth_drop_Suc code_def)
    show ?thesis
    proof (cases "code = optPad \<or> code = optEnd \<or> i + 1 \<ge> length data")
      case True
      then consider "code = optPad" | "code \<noteq> optPad" "code = optEnd" | "code \<noteq> optPad" "code \<noteq> optEnd" "i + 1 \<ge> length data" by blast
      then show ?thesis
      proof cases
        case 1
        with \<open>i < length data\<close> "1.IH"(1) at show ?thesis
          by (subst options_loop.simps) (simp add: at d read_options.simps(2))
      next
        case 2
        with \<open>i < length data\<close> show ?thesis by (subst options_loop.simps) (simp add: at d read_options.simps(2))
      next
        case 3
        with \<open>i < length data\<close> show ?thesis by (subst options_loop.simps) (simp add: at d read_options.simps(2))
      qed
    next
      case False
      define b where "b = data ! (i + 1)"
      have b: "at data (i + 1) = Some b" using False by (simp add: at_def b_def)
      have d1: "drop (Suc i) data = b # drop (Suc (Suc i)) data"
        using False by (simp add: b_def Cons_nth_drop_Suc)
      show ?thesis
      proof (cases "i + 2 + unat b > length data")
        case True
        then show ?thesis using False \<open>i < length data\<close> b
          by (subst options_loop.simps) (auto simp: at d d1 read_options.simps(2))
      next
        case fits: False
        let ?v = "take (unat b) (drop (Suc (Suc i)) data)"
        have s: "slice data (i + 2) (i + 2 + unat b) = Some ?v" using fits by (simp add: slice_def)
        have IH: "options_loop data (i + 2 + unat b) (mput code ?v opts) = Some (read_options (drop (i + 2 + unat b) data) (mput code ?v opts))"
          using "1.IH"(2) \<open>i < length data\<close> at False b fits s by simp
        have c: "unat b \<le> length data - Suc (Suc i)" using fits by simp
        have e: "drop (unat b) (drop (Suc (Suc i)) data) = drop (i + 2 + unat b) data" by (simp add: add.commute)
        have "options_loop data i opts = options_loop data (i + 2 + unat b) (mput code ?v opts)"
          using False \<open>i < length data\<close> b at fits s by (subst options_loop.simps) (simp only: bind.bind_lunit Let_def if_True if_False de_Morgan_disj)
        moreover have "read_options (drop i data) opts = read_options (drop (i + 2 + unat b) data) (mput code ?v opts)"
          using False c unfolding d e [symmetric] by (simp add: d1 read_options.simps(2) not_less del: drop_drop)
        ultimately show ?thesis using IH by simp
      qed
    qed
  qed (simp add: options_loop.simps)
qed

lemma parseOptions_eq: "parseOptions data = Some (read_options data [])"
  by (simp add: parseOptions_def options_loop_eq)

text \<open>
  Property C21. No packet makes the DHCP parser panic. Every read it makes is within the packet, whatever the bytes and
  lengths in it; the options it works with are those a reader of the option list finds, and the loop over them ends.
\<close>

theorem dhcp_parser_safe:
  "parsePacket data \<noteq> None \<and> parseOptions data = Some (read_options data [])"
proof (cases "length data < 244")
  case False
  then have "data \<noteq> []" by auto
  with False have "at data 0 = Some (data ! 0)" "slice data 236 240 = Some (take 4 (drop 236 data))" "at data 2 = Some (data ! 2)"
    "slice data 12 16 = Some (take 4 (drop 12 data))" "slice data 240 (length data) = Some (take (length data - 240) (drop 240 data))"
    by (simp_all add: at_def slice_def)
  moreover have "n \<le> 16 \<Longrightarrow> slice data 28 (28 + n) = Some (take n (drop 28 data))" for n using False by (simp add: slice_def)
  moreover have "slice data 28 34 = Some (take 6 (drop 28 data))" using False by (simp add: slice_def)
  ultimately show ?thesis using False
    by (auto simp: parsePacket_def parseOptions_eq Let_def bind_eq_None_conv)
qed (simp add: parsePacket_def parseOptions_eq)

subsection \<open>ARP (\<open>arp/listener.go\<close>)\<close>

text \<open>The buffer takes 64 bytes of a frame. The outer option is a panic, the inner one a frame that is passed over.\<close>

definition arp_receive :: "byte list \<Rightarrow> info option option" where
  "arp_receive packet =
     (let frame = take 64 packet in
      if length frame < ethHdrLen + arpHdrLen then Some None
      else do {
        arp \<leftarrow> slice frame ethHdrLen (length frame);
        hwType \<leftarrow> uint16_at arp 0;
        protoType \<leftarrow> uint16_at arp 2;
        hwLen \<leftarrow> at arp 4;
        protoLen \<leftarrow> at arp 5;
        if hwType \<noteq> 1 \<or> protoType \<noteq> 0x0800 \<or> hwLen \<noteq> 6 \<or> protoLen \<noteq> 4 then Some None
        else do {
          mac \<leftarrow> slice arp 8 14;
          ip \<leftarrow> slice arp 14 18;
          let senderIP = ip_text ip;
          Some (if senderIP = ''0.0.0.0'' then None
                else Some \<lparr> di_MAC = mac_string mac, di_IP = senderIP, di_Hostname = [], di_Meta = [], di_Protocol = ''arp'' \<rparr>)
        }
      })"

lemma ip_text_v4: "ip_text (v4_bytes w) = v4_string w"
  by (simp add: ip_text_def)

lemma v4_string_inj: "v4_string v = v4_string w \<longleftrightarrow> v = w"
  by (metis parse_addr_v4_string option.inject addr.inject(1))

lemma v4_zero: "v4_string 0 = ''0.0.0.0''"
  by code_simp

text \<open>An Ethernet frame with an ARP message for IPv4, whatever it asks or answers.\<close>

lemma arp_receive_frame:
  assumes "length dst = 6" "length src = 6" "length op = 2" "length sha = 6" "length tha = 6" "length tpa = 4"
  shows "arp_receive (dst @ src @ [8, 6, 0, 1, 8, 0, 6, 4] @ op @ sha @ v4_bytes spa @ tha @ tpa @ padding)
    = Some (if spa = 0 then None
            else Some \<lparr> di_MAC = mac_string sha, di_IP = v4_string spa, di_Hostname = [], di_Meta = [], di_Protocol = ''arp'' \<rparr>)"
proof -
  let ?arp = "[0, 1, 8, 0, 6, 4] @ op @ sha @ v4_bytes spa @ tha @ tpa @ take 22 padding"
  let ?frame = "(dst @ src @ [8, 6]) @ ?arp"
  have t: "take 64 (dst @ src @ [8, 6, 0, 1, 8, 0, 6, 4] @ op @ sha @ v4_bytes spa @ tha @ tpa @ padding) = ?frame"
    using assms by simp
  have len: "length (dst @ src @ [8, 6]) = 14" "length ?frame \<ge> 42" using assms by simp_all
  have a: "slice ?frame 14 (length ?frame) = Some ?arp" using len by (simp add: slice_def)
  have u: "uint16_at ?arp 0 = Some 1" "uint16_at ?arp 2 = Some 0x0800" "at ?arp 4 = Some 6" "at ?arp 5 = Some 4"
    by (simp_all add: uint16_at_def slice_def at_def from_be16_def)
  have m: "slice ?arp 8 14 = Some sha" "slice ?arp 14 18 = Some (v4_bytes spa)"
    using assms by (simp_all add: slice_def)
  have z: "v4_string spa = ''0.0.0.0'' \<longleftrightarrow> spa = 0" using v4_string_inj [of spa 0] v4_zero by simp
  have l: "\<not> length ?frame < 42" using len by simp
  show ?thesis
    unfolding arp_receive_def t Let_def
    using a u m l by (simp only: ethHdrLen_def arpHdrLen_def bind.bind_lunit if_False z ip_text_v4) simp
qed

text \<open>
  Further fact. No frame makes the ARP listener panic, whatever its length and bytes.
\<close>

theorem arp_listener_safe: "arp_receive packet \<noteq> None"
proof -
  let ?f = "take 64 packet"
  have "arp_receive packet \<noteq> None" if "\<not> length ?f < 42"
  proof -
    define arp where "arp = drop 14 ?f"
    have a: "slice ?f 14 (length ?f) = Some arp" using that by (simp add: slice_def arp_def)
    have l: "28 \<le> length arp" using that by (simp add: arp_def)
    then have "uint16_at arp 0 = Some (from_be16 arp 0)" "uint16_at arp 2 = Some (from_be16 arp 2)" "at arp 4 = Some (arp ! 4)"
      "at arp 5 = Some (arp ! 5)" "slice arp 8 14 = Some (take 6 (drop 8 arp))" "slice arp 14 18 = Some (take 4 (drop 14 arp))"
      by (simp_all add: uint16_at_Some at_def slice_def)
    with a that show ?thesis by (simp add: arp_receive_def Let_def)
  qed
  then show ?thesis by (cases "length ?f < 42") (simp_all add: arp_receive_def Let_def)
qed

subsection \<open>LLDP (\<open>lldp/listener.go\<close>)\<close>

definition tlvEnd :: nat where [simp]: "tlvEnd = 0"
definition tlvChassis :: nat where [simp]: "tlvChassis = 1"
definition tlvSysName :: nat where [simp]: "tlvSysName = 5"
definition tlvSysDesc :: nat where [simp]: "tlvSysDesc = 6"
definition tlvMgmtAddr :: nat where [simp]: "tlvMgmtAddr = 8"
definition chassisSubMAC :: byte where [simp]: "chassisSubMAC = 4"

definition parseMgmtAddr :: "byte list \<Rightarrow> string option" where
  "parseMgmtAddr value =
     (if length value < 6 then Some []
      else do {
        addrLen \<leftarrow> at value 0;
        subtype \<leftarrow> at value 1;
        if subtype = 1 \<and> addrLen = 5 \<and> length value \<ge> 6 then do {
          ip \<leftarrow> slice value 2 6;
          Some (ip_text ip)
        } else Some []
      })"

definition lldp_tlv :: "nat \<Rightarrow> byte list \<Rightarrow> info \<Rightarrow> info option" where
  "lldp_tlv tlvType value i =
     (if tlvType = tlvChassis then
        (if length value \<ge> 7 then do {
           sub \<leftarrow> at value 0;
           if sub = chassisSubMAC then do {
             mac \<leftarrow> slice value 1 7;
             Some (i \<lparr> di_MAC := mac_string mac \<rparr>)
           } else Some i
         } else Some i)
      else if tlvType = tlvSysName then Some (i \<lparr> di_Hostname := string_of_bytes value \<rparr>)
      else if tlvType = tlvSysDesc then Some (i \<lparr> di_Meta := string_of_bytes value \<rparr>)
      else if tlvType = tlvMgmtAddr then do {
        ip \<leftarrow> parseMgmtAddr value;
        Some (if ip \<noteq> [] then i \<lparr> di_IP := ip \<rparr> else i)
      } else Some i)"

function lldp_loop :: "byte list \<Rightarrow> nat \<Rightarrow> info \<Rightarrow> info option" where
  "lldp_loop data offset i =
     (if offset + 2 \<le> length data then
        do {
          header \<leftarrow> uint16_at data offset;
          let tlvType = header div 512;
          let tlvLen = header mod 512;
          if tlvType = tlvEnd \<or> offset + 2 + tlvLen > length data then Some i
          else do {
            value \<leftarrow> slice data (offset + 2) (offset + 2 + tlvLen);
            i' \<leftarrow> lldp_tlv tlvType value i;
            lldp_loop data (offset + 2 + tlvLen) i'
          }
        }
      else Some i)"
  by pat_completeness auto
termination by (relation "measure (\<lambda>(data, offset, i). length data - offset)") auto

declare lldp_loop.simps [simp del]

definition empty_info :: info where
  "empty_info = \<lparr> di_MAC = [], di_IP = [], di_Hostname = [], di_Meta = [], di_Protocol = [] \<rparr>"

definition parseLLDP :: "byte list \<Rightarrow> info option" where
  "parseLLDP data = lldp_loop data 0 empty_info"

definition lldp_receive :: "byte list \<Rightarrow> info option option" where
  "lldp_receive packet =
     (let buf = take 1518 packet in
      if length buf \<le> ethHdrLen then Some None
      else do {
        src \<leftarrow> slice buf 6 12;
        data \<leftarrow> slice buf ethHdrLen (length buf);
        i \<leftarrow> parseLLDP data;
        Some (if di_Hostname i = [] \<and> di_Meta i = [] then None
              else Some (i \<lparr> di_MAC := mac_string src, di_Protocol := ''lldp'' \<rparr>))
      })"

lemma lldp_tlv_safe: "lldp_tlv t v i \<noteq> None"
proof -
  have "parseMgmtAddr v \<noteq> None" by (cases v) (auto simp: parseMgmtAddr_def at_def slice_def)
  moreover have "at v 0 = Some (v ! 0) \<and> slice v 1 7 = Some (take 6 (drop 1 v))" if "7 \<le> length v" using that by (auto simp: at_def slice_def)
  ultimately show ?thesis by (auto simp: lldp_tlv_def)
qed

lemma lldp_loop_safe: "lldp_loop data offset i \<noteq> None"
proof (induction data offset i rule: lldp_loop.induct)
  case (1 data offset i)
  show ?case
  proof (cases "offset + 2 \<le> length data")
    case True
    define h where "h = from_be16 data offset"
    have h: "uint16_at data offset = Some h" using True by (simp add: uint16_at_Some h_def)
    show ?thesis
    proof (cases "h div 512 = tlvEnd \<or> offset + 2 + h mod 512 > length data")
      case True
      with h show ?thesis by (subst lldp_loop.simps) auto
    next
      case False
      then have s: "slice data (offset + 2) (offset + 2 + h mod 512) = Some (take (h mod 512) (drop (offset + 2) data))"
        by (simp add: slice_def)
      obtain i' where i': "lldp_tlv (h div 512) (take (h mod 512) (drop (offset + 2) data)) i = Some i'"
        using lldp_tlv_safe by blast
      have "lldp_loop data offset i = lldp_loop data (offset + 2 + h mod 512) i'"
        using True False h s i' by (subst lldp_loop.simps) (simp only: bind.bind_lunit Let_def if_True if_False)
      moreover have "lldp_loop data (offset + 2 + h mod 512) i' \<noteq> None"
        using "1.IH" True h refl refl False s i' by blast
      ultimately show ?thesis by simp
    qed
  qed (simp add: lldp_loop.simps)
qed

text \<open>
  Further fact. No frame makes the LLDP listener panic, and the MAC it reports is always the source address
  of the frame: the chassis identifier, which the parser goes to the length of reading, is overwritten.
\<close>

theorem lldp_reports_source:
  "lldp_receive packet \<noteq> None
   \<and> (\<forall>i. lldp_receive packet = Some (Some i) \<longrightarrow> di_MAC i = mac_string (take 6 (drop 6 packet)))"
proof (cases "length (take 1518 packet) \<le> 14")
  case False
  let ?b = "take 1518 packet"
  have "slice ?b 6 12 = Some (take 6 (drop 6 packet))" using False by (simp add: slice_def drop_take min_def)
  moreover have "slice ?b 14 (length ?b) = Some (drop 14 ?b)" using False by (simp add: slice_def)
  moreover obtain i where "parseLLDP (drop 14 ?b) = Some i" using lldp_loop_safe unfolding parseLLDP_def by blast
  ultimately show ?thesis using False by (auto simp: lldp_receive_def Let_def)
next
  case True
  then have "length packet \<le> 14" by simp
  then show ?thesis by (simp add: lldp_receive_def Let_def)
qed

theorem lldp_reports_source_witness:
  "map_option (map_option di_MAC) (lldp_receive ([1, 128, 194, 0, 0, 14] @ [2, 0, 0, 0, 0, 9] @ [136, 204] @ [2, 7, 4, 0, 17, 34, 51, 68, 85] @ [10, 2, 115, 119] @ [0, 0]))
     = Some (Some ''02:00:00:00:00:09'')"
proof -
  let ?p = "[1, 128, 194, 0, 0, 14] @ [2, 0, 0, 0, 0, 9] @ [136, 204] @ [2, 7, 4, 0, 17, 34, 51, 68, 85] @ [10, 2, 115, 119] @ [0, 0 :: byte]"
  have "map_option (\<lambda>i. i \<noteq> None) (lldp_receive ?p) = Some True" by code_simp
  then obtain i where i: "lldp_receive ?p = Some (Some i)" by auto
  have "mac_string (take 6 (drop 6 ?p)) = ''02:00:00:00:00:09''" by code_simp
  with lldp_reports_source [of ?p] i show ?thesis by simp
qed

end
