(* ===== verification/Multicast.thy ===== *)
theory Multicast
  imports Discovery
begin

text \<open>
  The multicast listeners of the inventory service: mDNS (\<open>device-inventory/internal/mdns\<close>) and SSDP
  (\<open>internal/ssdp\<close>). The chase of a DNS name need not end, so its results are options, \<open>None\<close> for a loop that never
  returns. Every index of the mDNS parser stands under the guard the code has for it. \<open>url.Parse\<close> is a parameter,
  the function from a location to the host name it holds, \<open>None\<close> when it does not parse.
\<close>

subsection \<open>mDNS\<close>

text \<open>The state of the loop: the labels so far, the offset, whether it followed a pointer, and the offset to return to.\<close>

partial_function (option) name_loop ::
  "byte list \<Rightarrow> nat \<Rightarrow> string list \<Rightarrow> bool \<Rightarrow> nat \<Rightarrow> (string list \<times> nat \<times> bool \<times> nat) option" where
  "name_loop pkt offset parts jumped retOff =
     (if offset < length pkt then
        (let len = unat (pkt ! offset) in
         if len = 0 then Some (parts, offset, jumped, if jumped then retOff else offset + 1)
         else if len div 64 = 3 then
           (if offset + 1 \<ge> length pkt then Some (parts, offset, jumped, retOff)
            else name_loop pkt (len mod 64 * 256 + unat (pkt ! (offset + 1))) parts True (if jumped then retOff else offset + 2))
         else if offset + 1 + len > length pkt then Some (parts, offset + 1, jumped, retOff)
         else name_loop pkt (offset + 1 + len) (parts @ [string_of_bytes (take len (drop (offset + 1) pkt))]) jumped retOff)
      else Some (parts, offset, jumped, retOff))"

definition parseDNSName :: "byte list \<Rightarrow> nat \<Rightarrow> (string \<times> nat) option" where
  "parseDNSName pkt offset =
     map_option (\<lambda>(parts, off, jumped, retOff). (join ''.'' parts, if jumped then retOff else off)) (name_loop pkt offset [] False 0)"

fun skip_questions :: "byte list \<Rightarrow> nat \<Rightarrow> nat \<Rightarrow> nat option" where
  "skip_questions pkt 0 offset = Some offset"
| "skip_questions pkt (Suc n) offset =
     (if offset < length pkt then
        (case parseDNSName pkt offset of None \<Rightarrow> None | Some (_, off) \<Rightarrow> skip_questions pkt n (off + 4))
      else Some offset)"

fun answers :: "byte list \<Rightarrow> nat \<Rightarrow> nat \<Rightarrow> string option" where
  "answers pkt 0 offset = Some []"
| "answers pkt (Suc n) offset =
     (if offset + 10 < length pkt then
        (case parseDNSName pkt offset of None \<Rightarrow> None
         | Some (name, off) \<Rightarrow>
             if off + 10 > length pkt then Some []
             else (let rtype = from_be16 pkt off; rdlen = from_be16 pkt (off + 8); host = trim_suffix name ''.local'' in
               if (rtype = 1 \<or> rtype = 28) \<and> has_suffix name ''.local'' \<and> host \<noteq> [] then Some host
               else answers pkt n (off + 10 + rdlen)))
      else Some [])"

definition extractHostname :: "byte list \<Rightarrow> string option" where
  "extractHostname pkt =
     (if length pkt < 12 then Some []
      else let qdcount = from_be16 pkt 4; ancount = from_be16 pkt 6 in
        if ancount = 0 then Some []
        else case skip_questions pkt qdcount 12 of None \<Rightarrow> None | Some offset \<Rightarrow> answers pkt ancount offset)"

text \<open>One datagram: \<open>None\<close> when the listener hangs, otherwise what it sends on.\<close>

definition mdns_receive :: "string \<Rightarrow> byte list \<Rightarrow> info option option" where
  "mdns_receive src packet =
     (let buf = take 4096 packet in
      if length buf < 12 then Some None
      else map_option (\<lambda>h. if h = [] then None
             else Some \<lparr> di_MAC = [], di_IP = src, di_Hostname = h, di_Meta = [], di_Protocol = ''mdns'' \<rparr>) (extractHostname buf))"

subsection \<open>A pointer to itself\<close>

lemma name_loop_self:
  assumes "offset + 1 < length pkt" "unat (pkt ! offset) div 64 = 3"
    and "unat (pkt ! offset) mod 64 * 256 + unat (pkt ! (offset + 1)) = offset"
    and "name_loop pkt offset parts jumped retOff = Some r"
  shows False
proof -
  have "\<not> (o' + 1 < length p \<and> unat (p ! o') div 64 = 3 \<and> unat (p ! o') mod 64 * 256 + unat (p ! (o' + 1)) = o')"
    if "name_loop p o' ps j ro = Some r" for p o' ps j ro
  proof (rule name_loop.raw_induct [where P = "\<lambda>p o' ps j ro r.
      \<not> (o' + 1 < length p \<and> unat (p ! o') div 64 = 3 \<and> unat (p ! o') mod 64 * 256 + unat (p ! (o' + 1)) = o')", OF _ that])
    fix f :: "byte list \<Rightarrow> nat \<Rightarrow> string list \<Rightarrow> bool \<Rightarrow> nat \<Rightarrow> (string list \<times> nat \<times> bool \<times> nat) option" and p o' ps j ro r
    assume IH: "\<And>p o' ps j ro r. f p o' ps j ro = Some r \<Longrightarrow>
        \<not> (o' + 1 < length p \<and> unat (p ! o') div 64 = 3 \<and> unat (p ! o') mod 64 * 256 + unat (p ! (o' + 1)) = o')"
      and step: "(if o' < length p then
        (let len = unat (p ! o') in
         if len = 0 then Some (ps, o', j, if j then ro else o' + 1)
         else if len div 64 = 3 then
           (if o' + 1 \<ge> length p then Some (ps, o', j, ro)
            else f p (len mod 64 * 256 + unat (p ! (o' + 1))) ps True (if j then ro else o' + 2))
         else if o' + 1 + len > length p then Some (ps, o' + 1, j, ro)
         else f p (o' + 1 + len) (ps @ [string_of_bytes (take len (drop (o' + 1) p))]) j ro)
      else Some (ps, o', j, ro)) = Some r"
    show "\<not> (o' + 1 < length p \<and> unat (p ! o') div 64 = 3 \<and> unat (p ! o') mod 64 * 256 + unat (p ! (o' + 1)) = o')"
    proof
      assume a: "o' + 1 < length p \<and> unat (p ! o') div 64 = 3 \<and> unat (p ! o') mod 64 * 256 + unat (p ! (o' + 1)) = o'"
      then have "unat (p ! o') \<noteq> 0" by auto
      with a step have "f p o' ps True (if j then ro else o' + 2) = Some r" by (auto simp: Let_def)
      from IH [OF this] a show False by blast
    qed
  qed
  with assms show False by blast
qed

text \<open>
  Property C35. One datagram stops the mDNS listener for good. In a packet that announces an answer, a name which is a
  pointer to itself sends the parser round for ever; two bytes at offset 12 are enough, and the rest is free.
\<close>

theorem mdns_self_pointer_hangs:
  "mdns_receive src ([i1, i2, f1, f2, 0, 0, 0, 1, n1, n2, a1, a2, 0xC0, 12] @ replicate 9 0 @ rest) = None"
proof -
  let ?h = "[i1, i2, f1, f2, 0, 0, 0, 1, n1, n2, a1, a2, 0xC0, 12] @ replicate 9 0"
  let ?p = "?h @ take 4073 rest"
  have t: "take 4096 (?h @ rest) = ?p" by simp
  have len: "length ?h = 23" by simp
  then have l: "23 \<le> length ?p" by (simp only: length_append)
  have n: "?p ! 12 = 0xC0" "?p ! 13 = 12" "from_be16 ?p 4 = 0" "from_be16 ?p 6 = 1" by (simp_all add: from_be16_def)
  have "name_loop ?p 12 [] False 0 = None"
    using name_loop_self [of 12 ?p "[]" False 0] l n by (cases "name_loop ?p 12 [] False 0") auto
  then have "extractHostname ?p = None"
    using l n by (simp only: extractHostname_def Let_def skip_questions.simps option.case) (simp add: parseDNSName_def)
  then show ?thesis using l by (simp only: mdns_receive_def append_assoc [symmetric] t Let_def) simp
qed

subsection \<open>A name without a pointer\<close>

definition write_labels :: "byte list list \<Rightarrow> byte list" where
  "write_labels ls = List.concat (List.map (\<lambda>l. of_nat (length l) # l) ls)"

definition plain_labels :: "byte list list \<Rightarrow> bool" where
  "plain_labels ls \<longleftrightarrow> (\<forall>l \<in> set ls. l \<noteq> [] \<and> length l \<le> 63)"

text \<open>The loop reads the labels and stops at the zero byte, whose offset it keeps: one before the record goes on.\<close>

lemma name_loop_plain:
  assumes "plain_labels ls"
  shows "name_loop (pre @ write_labels ls @ 0 # post) (length pre) parts False retOff
    = Some (parts @ List.map string_of_bytes ls, length pre + length (write_labels ls), False, length pre + length (write_labels ls) + 1)"
  using assms
proof (induction ls arbitrary: pre parts)
  case Nil
  then show ?case by (subst name_loop.simps) (simp add: write_labels_def Let_def)
next
  case (Cons l ls)
  let ?b = "of_nat (length l) :: byte"
  let ?p = "pre @ write_labels (l # ls) @ 0 # post"
  have l: "l \<noteq> []" "length l \<le> 63" using Cons.prems by (simp_all add: plain_labels_def)
  have b: "unat ?b = length l" using l(2) by (simp add: unat_of_nat)
  have p: "?p = (pre @ ?b # l) @ write_labels ls @ 0 # post" by (simp add: write_labels_def)
  have at: "?p ! length pre = ?b" "length pre < length ?p" "\<not> length pre + 1 + length l > length ?p"
    "take (length l) (drop (length pre + 1) ?p) = l"
    by (simp_all add: write_labels_def)
  have d: "length l div 64 \<noteq> 3" "length l \<noteq> 0" using l by simp_all
  have "name_loop ?p (length pre) parts False retOff
      = name_loop ?p (length pre + 1 + length l) (parts @ [string_of_bytes l]) False retOff"
    using at(2,3) by (subst name_loop.simps) (simp only: at(1,4) b d Let_def if_True if_False)
  also have "\<dots> = name_loop ?p (length (pre @ ?b # l)) (parts @ [string_of_bytes l]) False retOff" by simp
  also have "\<dots> = Some ((parts @ [string_of_bytes l]) @ List.map string_of_bytes ls, length (pre @ ?b # l) + length (write_labels ls), False,
      length (pre @ ?b # l) + length (write_labels ls) + 1)"
    unfolding p by (rule Cons.IH) (use Cons.prems in \<open>simp add: plain_labels_def\<close>)
  finally show ?case by (simp add: write_labels_def)
qed

lemma answers_past_end: "length pkt \<le> offset + 10 \<Longrightarrow> answers pkt n offset = Some []"
  by (cases n) simp_all

text \<open>
  Further fact. An ordinary announcement is never read. Whatever host a responder announces, if the answer spells
  its name out, as the first record of a response without questions must, and its lifetime is one of the usual ones (a
  low byte of at least 16, as 120 and 4500 have), the listener reports nothing: the parser returns an offset one short, reads
  the type from the end of the name, and takes bytes of the lifetime for the length of the data.
\<close>

theorem mdns_announcement_ignored:
  assumes "plain_labels ls" and "length (write_labels ls) \<le> 254" and "16 \<le> unat ttl"
  shows "mdns_receive src ([i1, i2, f1, f2, 0, 0, c1, c2, n1, n2, a1, a2] @ write_labels ls @ 0
    # [0, rtype, k1, k2, t1, t2, t3, ttl, d1, d2] @ rest) = Some None"
proof -
  let ?h = "[i1, i2, f1, f2, 0, 0, c1, c2, n1, n2, a1, a2]" and ?r = "[0, rtype, k1, k2, t1, t2, t3, ttl, d1, d2]"
  define w tail pkt where "w = length (write_labels ls)" and "tail = take (4096 - (w + 23)) rest"
    and "pkt = ?h @ write_labels ls @ 0 # ?r @ tail"
  have t: "take 4096 (?h @ write_labels ls @ 0 # ?r @ rest) = pkt"
    using assms(2) by (simp add: pkt_def tail_def w_def take_Cons')
  have len: "length pkt \<le> 4096" "w + 23 \<le> length pkt" using assms(2) by (auto simp: pkt_def tail_def w_def min_def)
  have name: "parseDNSName pkt 12 = Some (join ''.'' (List.map string_of_bytes ls), 12 + w)"
  proof -
    have h: "length ?h = 12" by simp
    show ?thesis using name_loop_plain [OF assms(1), of ?h "?r @ tail" "[]" 0]
      unfolding h pkt_def [symmetric] w_def [symmetric] by (simp add: parseDNSName_def)
  qed
  have q: "from_be16 pkt 4 = 0" by (simp add: pkt_def from_be16_def)
  have at: "pkt ! (12 + w) = 0" "pkt ! (12 + w + 1) = 0" "pkt ! (12 + w + 8) = ttl"
    by (simp_all add: pkt_def w_def nth_append)
  have ty: "from_be16 pkt (12 + w) = 0" using at by (simp add: from_be16_def)
  have rd: "4096 \<le> from_be16 pkt (12 + w + 8)" using at(3) assms(3) by (simp add: from_be16_def)
  have "answers pkt n 12 = Some []" for n
  proof (cases n)
    case (Suc m)
    have "answers pkt m (12 + w + 10 + from_be16 pkt (12 + w + 8)) = Some []"
      by (rule answers_past_end) (use rd len in linarith)
    then show ?thesis using len name ty by (simp add: Suc Let_def add.assoc)
  qed simp
  then have "extractHostname pkt = Some []" using len q by (simp add: extractHostname_def Let_def)
  then show ?thesis using len by (simp only: mdns_receive_def t Let_def) simp
qed

text \<open>The announcement of \<open>printer.local\<close> at 192.168.1.5 with the usual lifetime of 120 seconds.\<close>

theorem mdns_announcement_ignored_witness:
  "mdns_receive ''192.168.1.5'' ([0, 0, 0x84, 0, 0, 0, 0, 1, 0, 0, 0, 0] @ write_labels [bytes_of ''printer'', bytes_of ''local''] @ 0
    # [0, 1, 0x80, 1, 0, 0, 0, 120, 0, 4] @ [192, 168, 1, 5]) = Some None"
proof (rule mdns_announcement_ignored)
  show "plain_labels [bytes_of ''printer'', bytes_of ''local'']" "length (write_labels [bytes_of ''printer'', bytes_of ''local'']) \<le> 254"
    "16 \<le> unat (120 :: byte)" by code_simp+
qed

subsection \<open>SSDP\<close>

definition parseHeaders :: "string \<Rightarrow> (string, string) gomap" where
  "parseHeaders msg =
     fold (\<lambda>line headers. case cut_at (CHR '':'') line of
         Some (k, v) \<Rightarrow> mput (to_lower (trim_space k)) (trim_space v) headers | None \<Rightarrow> headers) (fst (scan_lines msg)) []"

definition extractProductName :: "string \<Rightarrow> string" where
  "extractProductName server =
     (case List.find (\<lambda>p. \<not> (has_prefix (to_lower p) ''upnp/'' \<or> has_prefix (to_lower p) ''http/'') \<and> cut_at (CHR ''/'') p \<noteq> None) (GoStrings.fields server) of
        Some p \<Rightarrow> (case cut_at (CHR ''/'') p of Some (name, _) \<Rightarrow> name | None \<Rightarrow> [])
      | None \<Rightarrow> [])"

definition ssdp_receive :: "(string \<Rightarrow> string option) \<Rightarrow> string \<Rightarrow> byte list \<Rightarrow> info option" where
  "ssdp_receive url_host src packet =
     (let buf = take 4096 packet in
      if length buf < 10 then None
      else let headers = parseHeaders (string_of_bytes buf);
               get = (\<lambda>k. case mget headers k of Some v \<Rightarrow> v | None \<Rightarrow> []);
               server = get ''server''; location = get ''location'' in
        if server = [] \<and> location = [] then None
        else Some \<lparr> di_MAC = [],
               di_IP = (if location \<noteq> [] then (case url_host location of Some h \<Rightarrow> if h \<noteq> [] then h else src | None \<Rightarrow> src) else src),
               di_Hostname = extractProductName server, di_Meta = server, di_Protocol = ''ssdp'' \<rparr>)"

text \<open>The example of the code's own comment names the operating system, not the product.\<close>

lemma ssdp_product_of_example: "extractProductName ''Linux/5.15 UPnP/1.0 MiniDLNA/1.3'' = ''Linux''"
  by code_simp

end
