(* ===== verification/InventoryService.thy ===== *)
theory InventoryService
  imports Profiles Multicast
begin

text \<open>
  The inventory service around its table (\<open>device-inventory/cmd/device-inventory/main.go\<close> and \<open>internal/api/handlers.go\<close>): what a packet of each listener does to the table, the retention tick, the writer of
  device events with its bounded queue, the middleware and the handlers. A failed statement is logged and the table
  stays. The channels between listeners and table keep the order of one listener; any interleaving of
  listeners is a sequence of packets. Metrics are not modelled.
\<close>

subsection \<open>Packets\<close>

definition dhcp_sighting :: "dhcp_info \<Rightarrow> sighting" where
  "dhcp_sighting i =
     (let p = dhcpfp_Lookup (dh_Fingerprint i) (dh_VendorClass i) in
      \<lparr> sg_mac = dh_MAC i, sg_ip = dh_IP i, sg_hostname = dh_Hostname i, sg_fingerprint = dh_Fingerprint i,
        sg_vendorClass = dh_VendorClass i, sg_vendor = oui_Lookup (dh_MAC i),
        sg_os = (case p of Some q \<Rightarrow> pf_OS q | None \<Rightarrow> []), sg_deviceType = (case p of Some q \<Rightarrow> pf_DeviceType q | None \<Rightarrow> []) \<rparr>)"

text \<open>The table after a sighting, and whether a device event is enqueued for it.\<close>

definition device_seen :: "instant \<Rightarrow> dhcp_info \<Rightarrow> table \<Rightarrow> bool \<times> table" where
  "device_seen now i t =
     (case UpsertFull (rfc3339 now) (dhcp_sighting i) t of Inl e \<Rightarrow> (False, t) | Inr t' \<Rightarrow> (True, t'))"

definition processDiscovery :: "instant \<Rightarrow> info \<Rightarrow> table \<Rightarrow> bool \<times> table" where
  "processDiscovery now i t =
     (if di_MAC i \<noteq> [] then
        (case Upsert (rfc3339 now) (di_MAC i) (di_IP i) (di_Hostname i) [] [] (oui_Lookup (di_MAC i)) t of
           Inl e \<Rightarrow> (False, t) | Inr t' \<Rightarrow> (True, t'))
      else if di_IP i \<noteq> [] \<and> di_Hostname i \<noteq> [] then (False, EnrichByIP (rfc3339 now) (di_IP i) (di_Hostname i) t)
      else (False, t))"

datatype packet = DhcpPacket "byte list" | ArpPacket "byte list" | LldpPacket "byte list"
  | MdnsPacket string "byte list" | SsdpPacket string "byte list"

definition discovered :: "instant \<Rightarrow> info option option \<Rightarrow> table \<Rightarrow> table" where
  "discovered now r t = (case r of Some (Some i) \<Rightarrow> snd (processDiscovery now i t) | _ \<Rightarrow> t)"

fun receive :: "(string \<Rightarrow> string option) \<Rightarrow> instant \<Rightarrow> packet \<Rightarrow> table \<Rightarrow> table" where
  "receive uh now (DhcpPacket bs) t =
     (case parsePacket (take 1500 bs) of Some (Inr i) \<Rightarrow> snd (device_seen now i t) | _ \<Rightarrow> t)"
| "receive uh now (ArpPacket bs) t = discovered now (arp_receive bs) t"
| "receive uh now (LldpPacket bs) t = discovered now (lldp_receive bs) t"
| "receive uh now (MdnsPacket src bs) t = discovered now (mdns_receive src bs) t"
| "receive uh now (SsdpPacket src bs) t = discovered now (Some (ssdp_receive uh src bs)) t"

subsection \<open>Requests\<close>

datatype 'r api_response = ApiError nat string | ApiDevice "device option" | ApiDevices "device list" | ApiRows "'r list"

definition inv_authorized :: "string \<Rightarrow> string \<Rightarrow> string \<Rightarrow> bool" where
  "inv_authorized apiKey meth auth \<longleftrightarrow>
     meth = ''GET'' \<or> apiKey = [] \<or> has_prefix auth ''Bearer '' \<and> drop (length ''Bearer '') auth = apiKey"

definition inv_authMiddleware :: "string \<Rightarrow> string \<Rightarrow> string \<Rightarrow> (table \<Rightarrow> 'r api_response \<times> table) \<Rightarrow> table \<Rightarrow> 'r api_response \<times> table" where
  "inv_authMiddleware apiKey meth auth next t =
     (if inv_authorized apiKey meth auth then next t else (ApiError 401 ''unauthorized'', t))"

definition api_GetDevice :: "string \<Rightarrow> table \<Rightarrow> 'r api_response" where
  "api_GetDevice mac t =
     (if mac = [] then ApiError 400 ''mac required''
      else case GetDevice mac t of None \<Rightarrow> ApiError 404 ''not found'' | Some d \<Rightarrow> ApiDevice (Some d))"

text \<open>The decoded body: \<open>None\<close> when it does not decode, otherwise the member \<open>labels\<close>, if it is there.\<close>

definition api_SetLabels :: "string \<Rightarrow> string list option option \<Rightarrow> table \<Rightarrow> 'r api_response \<times> table" where
  "api_SetLabels mac body t =
     (if mac = [] then (ApiError 400 ''mac required'', t)
      else case body of None \<Rightarrow> (ApiError 400 ''invalid body'', t)
        | Some labels \<Rightarrow>
            (case SetLabels mac (case labels of None \<Rightarrow> [] | Some ls \<Rightarrow> ls) t of
               Inl e \<Rightarrow> (ApiError 404 ''not found or internal'', t)
             | Inr t' \<Rightarrow> (ApiDevice (GetDevice mac t'), t')))"

subsection \<open>The event writer\<close>

record 'e writer =
  ew_queue :: "'e list"
  ew_batch :: "'e list"
  ew_sent :: "'e list list"
  ew_dropped :: nat

definition newEventWriter :: "'e writer" where
  "newEventWriter = \<lparr> ew_queue = [], ew_batch = [], ew_sent = [], ew_dropped = 0 \<rparr>"

definition queueDepth :: nat where "queueDepth = 1024"
definition batchSize :: nat where "batchSize = 100"

definition ew_enqueue :: "'e \<Rightarrow> 'e writer \<Rightarrow> 'e writer" where
  "ew_enqueue e w =
     (if length (ew_queue w) < queueDepth then w \<lparr> ew_queue := ew_queue w @ [e] \<rparr> else w \<lparr> ew_dropped := ew_dropped w + 1 \<rparr>)"

text \<open>A batch is handed to \<open>Insert\<close> once, whatever that answers.\<close>

definition ew_flush :: "'e writer \<Rightarrow> 'e writer" where
  "ew_flush w = (if ew_batch w = [] then w else w \<lparr> ew_sent := ew_sent w @ [ew_batch w], ew_batch := [] \<rparr>)"

definition ew_receive :: "'e writer \<Rightarrow> 'e writer" where
  "ew_receive w =
     (case ew_queue w of
        [] \<Rightarrow> w
      | e # q \<Rightarrow> (let w' = w \<lparr> ew_queue := q, ew_batch := ew_batch w @ [e] \<rparr> in
          if length (ew_batch w') \<ge> batchSize then ew_flush w' else w'))"

datatype 'e writer_op = Enqueue 'e | Receive | FlushTick

fun writer_step :: "'e writer_op \<Rightarrow> 'e writer \<Rightarrow> 'e writer" where
  "writer_step (Enqueue e) w = ew_enqueue e w"
| "writer_step Receive w = ew_receive w"
| "writer_step FlushTick w = ew_flush w"

subsection \<open>The service as a machine\<close>

datatype inv_op = Packet packet | LabelRequest string string string "string list option option" | PruneTick

text \<open>A label request has a method-independent path: the MAC, the \<open>Authorization\<close> header, the method and the body.\<close>

fun inv_step :: "(string \<Rightarrow> string option) \<Rightarrow> string \<Rightarrow> duration \<Rightarrow> instant \<times> inv_op \<Rightarrow> table \<Rightarrow> table" where
  "inv_step uh apiKey maxAge (now, Packet p) t = receive uh now p t"
| "inv_step uh apiKey maxAge (now, LabelRequest mac auth meth body) t =
     (if meth = ''PUT'' then snd (inv_authMiddleware apiKey meth auth (api_SetLabels mac body) t :: unit api_response \<times> table) else t)"
| "inv_step uh apiKey maxAge (now, PruneTick) t = snd (Prune now maxAge t)"

subsection \<open>The table stays well formed\<close>

lemma table_ok_device_seen: "table_ok t \<Longrightarrow> table_ok (snd (device_seen now i t))"
  by (auto simp: device_seen_def dest: table_ok_UpsertFull split: sum.splits)

lemma table_ok_processDiscovery: "table_ok t \<Longrightarrow> table_ok (snd (processDiscovery now i t))"
  by (auto simp: processDiscovery_def Upsert_def table_ok_EnrichByIP dest: table_ok_UpsertFull split: sum.splits)

lemma table_ok_receive: "table_ok t \<Longrightarrow> table_ok (receive uh now p t)"
  by (cases p) (auto simp: discovered_def table_ok_device_seen table_ok_processDiscovery split: option.splits sum.splits)

lemma table_ok_api_SetLabels: "table_ok t \<Longrightarrow> table_ok (snd (api_SetLabels mac body t))"
  by (auto simp: api_SetLabels_def dest: table_ok_SetLabels split: option.splits sum.splits)

lemma table_ok_step: "table_ok t \<Longrightarrow> table_ok (inv_step uh apiKey maxAge op t)"
  by (cases "(uh, apiKey, maxAge, op, t)" rule: inv_step.cases)
    (auto simp: table_ok_receive table_ok_api_SetLabels table_ok_Prune inv_authMiddleware_def)

interpretation im: machine "inv_step uh apiKey maxAge" table_ok for uh apiKey maxAge
  by unfold_locales (rule table_ok_step)

lemma table_ok_empty: "table_ok []"
  by (simp add: table_ok_def)

text \<open>
  Property C33. The inventory stays consistent. After any sequence of packets of any content, label requests and
  retention ticks, no two rows have one MAC, each row's flag says what its MAC says, a correlation identifier stands on
  rows with a randomized MAC only, and no two rows share one.
\<close>

theorem inventory_consistent:
  "table_ok (fold (inv_step uh apiKey maxAge) ops [])"
  by (rule im.runs_ok [OF table_ok_empty])

subsection \<open>What an operator said of a real device stays\<close>

text \<open>The row of a device: its MAC, labels and first sighting are those of another.\<close>

definition same_device :: "device \<Rightarrow> device \<Rightarrow> bool" where
  "same_device r q \<longleftrightarrow> dv_MAC q = dv_MAC r \<and> dv_Labels q = dv_Labels r \<and> dv_FirstSeen q = dv_FirstSeen r"

definition keeps :: "device \<Rightarrow> table \<Rightarrow> bool" where
  "keeps r t \<longleftrightarrow> (\<exists>q \<in> set t. same_device r q)"

lemma keeps_map: "keeps r t \<Longrightarrow> (\<And>q. q \<in> set t \<Longrightarrow> same_device r q \<Longrightarrow> same_device r (f q)) \<Longrightarrow> keeps r (List.map f t)"
  by (auto simp: keeps_def)

lemma keeps_insert: "keeps r t \<Longrightarrow> keeps r (insertDevice now s i t)"
  by (auto simp: insertDevice_def intro!: keeps_map) (auto simp: keeps_def same_device_def)

lemma keeps_UpsertFull:
  assumes "table_ok t" "keeps r t" "\<not> IsRandomizedMAC (dv_MAC r)" "UpsertFull now s t = Inr t'"
  shows "keeps r t'"
proof -
  have rep: "keeps r t1" if "repoint now s sid t = Inr (n, t1)" for n t1 sid
  proof -
    have "t1 = List.map (\<lambda>r. if correlated sid r then (sighted now s r) \<lparr> dv_MAC := sg_mac s \<rparr> else r) t"
      using that by (auto simp: repoint_def Let_def split: if_splits)
    moreover have "\<not> correlated sid q" if "q \<in> set t" "same_device r q" for q
      using that table_okD(3) [OF assms(1)] assms(3) by (auto simp: correlated_def same_device_def)
    ultimately show ?thesis using assms(2) by (auto intro!: keeps_map)
  qed
  show ?thesis using assms(4) assms(2) rep
    by (auto simp: UpsertFull_def Let_def keeps_insert split: if_splits sum.splits)
qed

lemma keeps_receive:
  assumes "table_ok t" "keeps r t" "\<not> IsRandomizedMAC (dv_MAC r)"
  shows "keeps r (receive uh now p t)"
proof -
  have d: "keeps r (snd (device_seen now i t))" for i
    using assms keeps_UpsertFull by (auto simp: device_seen_def split: sum.splits)
  have e: "keeps r (EnrichByIP now' ip h t)" for now' ip h
    unfolding EnrichByIP_def using assms(2) by (rule keeps_map) (auto simp: same_device_def)
  have "keeps r (snd (processDiscovery now i t))" for i
    using assms keeps_UpsertFull e by (auto simp: processDiscovery_def Upsert_def split: sum.splits)
  with d assms(2) show ?thesis by (cases p) (auto simp: discovered_def split: option.splits sum.splits)
qed

fun labels_other :: "string \<Rightarrow> instant \<times> inv_op \<Rightarrow> bool" where
  "labels_other mac (_, LabelRequest m _ _ _) = (m \<noteq> mac)"
| "labels_other mac _ = True"

lemma keeps_SetLabels: "keeps r t \<Longrightarrow> mac \<noteq> dv_MAC r \<Longrightarrow> keeps r (snd (api_SetLabels mac body t))"
  by (auto simp: api_SetLabels_def SetLabels_def intro!: keeps_map split: option.splits sum.splits if_splits)
    (auto simp: same_device_def)

lemma keeps_step:
  assumes "table_ok t" "keeps r t" "\<not> IsRandomizedMAC (dv_MAC r)" "dv_Labels r \<noteq> []" "labels_other (dv_MAC r) op"
  shows "keeps r (inv_step uh apiKey maxAge op t)"
proof (cases "(uh, apiKey, maxAge, op, t)" rule: inv_step.cases)
  case (1 uh apiKey maxAge now p t)
  then show ?thesis using assms keeps_receive by simp
next
  case (2 uh apiKey maxAge now mac auth meth body t)
  then show ?thesis using assms by (auto simp: inv_authMiddleware_def intro: keeps_SetLabels)
next
  case (3 uh apiKey maxAge now t)
  then show ?thesis using assms by (auto simp: Prune_def Let_def keeps_def same_device_def expired_def)
qed

text \<open>
  Property C12. Discovery cannot take a device away from its operator. A labelled row with a real MAC
  survives every sequence of packets, however forged, and every retention tick, under its MAC, with its labels and its
  first sighting, until a label request for that MAC.
\<close>

theorem labelled_device_kept:
  assumes "table_ok t" and "r \<in> set t" and "\<not> IsRandomizedMAC (dv_MAC r)" and "dv_Labels r \<noteq> []"
    and "list_all (labels_other (dv_MAC r)) ops"
  shows "\<exists>q \<in> set (fold (inv_step uh apiKey maxAge) ops t).
    dv_MAC q = dv_MAC r \<and> dv_Labels q = dv_Labels r \<and> dv_FirstSeen q = dv_FirstSeen r"
proof -
  have "keeps r (fold (inv_step uh apiKey maxAge) ops t)"
    using assms(5,1) \<open>r \<in> set t\<close>
  proof (induction ops rule: rev_induct)
    case Nil
    then show ?case by (auto simp: keeps_def same_device_def)
  next
    case (snoc op ops)
    then have "keeps r (fold (inv_step uh apiKey maxAge) ops t)" by simp
    moreover have "table_ok (fold (inv_step uh apiKey maxAge) ops t)" using snoc.prems by (intro im.runs_ok)
    ultimately show ?case using keeps_step assms(3,4) snoc.prems by simp
  qed
  then show ?thesis by (auto simp: keeps_def same_device_def)
qed

end
