(* ===== verification/InventorySafety.thy ===== *)
theory InventorySafety
  imports InventoryService ArpIsolate "HOL-Library.Sublist"
begin

text \<open>
  What the inventory makes of the network it watches: two phones that name themselves alike, the frames the killswitch
  sends, and the accounts of the event writer.
\<close>

subsection \<open>Lookup after a sighting\<close>

lemma GetDevice_mem: "table_ok t \<Longrightarrow> GetDevice mac t = Some r \<longleftrightarrow> r \<in> set t \<and> dv_MAC r = mac"
proof -
  assume ok: "table_ok t"
  have "GetDevice mac t = Some r \<Longrightarrow> r \<in> set t \<and> dv_MAC r = mac" by (auto simp: GetDevice_def find_Some_iff)
  moreover have "GetDevice mac t = Some r" if r: "r \<in> set t" "dv_MAC r = mac"
  proof (cases "GetDevice mac t")
    case None
    with r show ?thesis by (auto simp: GetDevice_def find_None_iff)
  next
    case (Some q)
    then have "q \<in> set t" "dv_MAC q = mac" by (auto simp: GetDevice_def find_Some_iff)
    with r Some table_okD(5) [OF ok] show ?thesis by metis
  qed
  ultimately show ?thesis by blast
qed

lemma GetDevice_None: "GetDevice mac t = None \<longleftrightarrow> mac \<notin> dv_MAC ` set t"
  by (auto simp: GetDevice_def find_None_iff)

lemma GetDevice_insert:
  assumes ok: "table_ok t"
  shows "GetDevice m (insertDevice now s i t) =
    (if m = sg_mac s then Some (case GetDevice m t of None \<Rightarrow> new_row now s i | Some r \<Rightarrow> on_conflict now s i r) else GetDevice m t)"
proof (cases "sg_mac s \<in> dv_MAC ` set t")
  case True
  let ?f = "\<lambda>r. if dv_MAC r = sg_mac s then on_conflict now s i r else r"
  have f: "GetDevice m (List.map ?f u) = map_option ?f (GetDevice m u)" for u
    by (induction u) (auto simp: GetDevice_def)
  have q: "GetDevice k t = Some r \<Longrightarrow> dv_MAC r = k" for k r using GetDevice_mem [OF ok] by blast
  from True have "GetDevice (sg_mac s) t \<noteq> None" by (simp add: GetDevice_None)
  then show ?thesis using True f [of t] q by (cases "GetDevice m t") (auto simp: insertDevice_def split: option.splits)
next
  case False
  then have "GetDevice (sg_mac s) t = None" by (simp add: GetDevice_None)
  moreover have "GetDevice m (u @ [r]) = (case GetDevice m u of None \<Rightarrow> if dv_MAC r = m then Some r else None | Some q \<Rightarrow> Some q)" for u r
    by (induction u) (auto simp: GetDevice_def)
  ultimately show ?thesis using False by (auto simp: insertDevice_def split: option.splits)
qed

text \<open>
  Further fact. A sighting of a real MAC is a lookup-after-insert. It never fails; afterwards that MAC has the columns the
  sighting gives, keeps those it leaves empty, its labels and first sighting, and every other MAC has what it had.
\<close>

theorem real_sighting_recorded:
  assumes "table_ok t" and "\<not> IsRandomizedMAC (sg_mac s)"
  shows "\<exists>t'. UpsertFull now s t = Inr t' \<and> (\<forall>m. GetDevice m t' =
    (if m = sg_mac s
     then Some (case GetDevice m t of None \<Rightarrow> new_row now s [] | Some r \<Rightarrow> (sighted now s r) \<lparr> dv_randomized := False \<rparr>)
     else GetDevice m t))"
proof -
  have "UpsertFull now s t = Inr (insertDevice now s [] t)" using assms(2) by (simp add: UpsertFull_def)
  moreover have "on_conflict now s [] r = (sighted now s r) \<lparr> dv_randomized := False \<rparr>" for r
    using assms(2) by (simp add: on_conflict_def given_def)
  ultimately show ?thesis using GetDevice_insert [OF assms(1), of _ now s "[]"] by (simp split: option.split)
qed

definition nas :: sighting where
  "nas = \<lparr> sg_mac = ''00:11:22:33:44:55'', sg_ip = ''192.168.1.10'', sg_hostname = ''nas'', sg_fingerprint = [],
     sg_vendorClass = [], sg_vendor = ''Acme'', sg_os = [], sg_deviceType = [] \<rparr>"

theorem real_sighting_recorded_witness:
  "\<exists>t'. UpsertFull 7 nas [] = Inr t' \<and> map_option dv_Hostname (GetDevice ''00:11:22:33:44:55'' t') = Some ''nas''"
proof -
  have "\<not> IsRandomizedMAC (sg_mac nas)" by code_simp
  from real_sighting_recorded [OF table_ok_empty this, of 7] obtain t' where
    "UpsertFull 7 nas [] = Inr t'" "GetDevice (sg_mac nas) t' = Some (new_row 7 nas [])" by (auto simp: GetDevice_def)
  then show ?thesis by (auto simp: nas_def new_row_def)
qed

definition labelled_nas :: device where
  "labelled_nas = (new_row 7 nas []) \<lparr> dv_Labels := [''critical''] \<rparr>"

theorem labelled_device_kept_witness:
  "\<exists>q \<in> set (fold (inv_step (\<lambda>_. None) ''key'' 3600000000000) [(0, Packet (ArpPacket [])), (9000000000000, PruneTick)] [labelled_nas]).
     dv_MAC q = ''00:11:22:33:44:55'' \<and> dv_Labels q = [''critical''] \<and> dv_FirstSeen q = 7"
proof -
  have f: "dv_Labels labelled_nas = [''critical'']" "dv_MAC labelled_nas = ''00:11:22:33:44:55''" "dv_FirstSeen labelled_nas = 7"
    by (simp_all add: labelled_nas_def nas_def)
  have "table_ok [labelled_nas]" "labelled_nas \<in> set [labelled_nas]" "\<not> IsRandomizedMAC (dv_MAC labelled_nas)"
    "list_all (labels_other (dv_MAC labelled_nas)) [(0, Packet (ArpPacket [])), (9000000000000, PruneTick)]"
    unfolding table_ok_def by code_simp+
  then have "\<exists>q \<in> set (fold (inv_step (\<lambda>_. None) ''key'' 3600000000000) [(0, Packet (ArpPacket [])), (9000000000000, PruneTick)] [labelled_nas]).
     dv_MAC q = dv_MAC labelled_nas \<and> dv_Labels q = dv_Labels labelled_nas \<and> dv_FirstSeen q = dv_FirstSeen labelled_nas"
    by (intro labelled_device_kept) (simp_all only: f list.simps not_False_eq_True)
  then show ?thesis unfolding f .
qed

subsection \<open>Two phones that name themselves alike\<close>

lemma repoint_collides:
  assumes "r \<in> set t" "q \<in> set t" "r \<noteq> q" "correlated sid r" "dv_MAC q = sg_mac s"
  shows "repoint now s sid t = Inl UniqueViolation"
proof -
  let ?f = "\<lambda>r. if correlated sid r then (sighted now s r) \<lparr> dv_MAC := sg_mac s \<rparr> else r"
  have "dv_MAC (?f r) = dv_MAC (?f q)" using assms(4,5) by simp
  then have "\<not> inj_on (\<lambda>r. dv_MAC (?f r)) (set t)" using assms(1-3) by (auto dest: inj_onD)
  then have "\<not> distinct (List.map (\<lambda>r. dv_MAC (?f r)) t)" by (simp add: distinct_map)
  then show ?thesis by (simp add: repoint_def comp_def)
qed

definition arp_info :: "string \<Rightarrow> string \<Rightarrow> info" where
  "arp_info mac ip = \<lparr> di_MAC = mac, di_IP = ip, di_Hostname = [], di_Meta = [], di_Protocol = ''arp'' \<rparr>"

text \<open>
  Further fact. Two phones that send the same vendor class and host name, or none, are taken for one that
  changed its MAC. The second request moves the first phone's row to the second phone, so the first is gone; its next
  ARP message makes a new row, and from then on every DHCP request of it violates the primary key and is dropped.
\<close>

theorem alike_phones_collide:
  assumes "IsRandomizedMAC (dh_MAC i)" and "IsRandomizedMAC (dh_MAC j)" and "dh_MAC i \<noteq> dh_MAC j"
    and "dh_VendorClass i \<noteq> []" and "dh_VendorClass j = dh_VendorClass i" and "dh_Hostname j = dh_Hostname i"
  shows "let both = snd (device_seen n2 j (snd (device_seen n1 i []))); seen = snd (processDiscovery n3 (arp_info (dh_MAC i) ip) both) in
    List.map dv_MAC both = [dh_MAC j] \<and> List.map dv_MAC seen = [dh_MAC j, dh_MAC i]
    \<and> device_seen n4 i seen = (False, seen)"
proof -
  have mac [simp]: "dh_MAC i \<noteq> []" using assms(1) by (auto simp: IsRandomizedMAC_def replace_char_def trim_space_def trim_left_by_def trim_right_by_def)
  define sid where "sid = StableID (dh_VendorClass i) (dh_Hostname i)"
  define si sj where "si = dhcp_sighting i" and "sj = dhcp_sighting j"
  have s [simp]: "sg_mac si = dh_MAC i" "sg_mac sj = dh_MAC j" "sg_vendorClass si = dh_VendorClass i" "sg_vendorClass sj = dh_VendorClass i"
    "sg_hostname si = dh_Hostname i" "sg_hostname sj = dh_Hostname i"
    using assms(5,6) by (simp_all add: si_def sj_def dhcp_sighting_def Let_def)
  define r1 r2 where "r1 = new_row (rfc3339 n1) si sid" and "r2 = (sighted (rfc3339 n2) sj r1) \<lparr> dv_MAC := dh_MAC j \<rparr>"
  have f1: "dv_MAC r1 = dh_MAC i" "correlated sid r1" using assms(1) by (simp_all add: r1_def correlated_def)
  have f2: "dv_MAC r2 = dh_MAC j" "correlated sid r2" using f1(2) by (simp_all add: r2_def correlated_def)
  have "device_seen n1 i [] = (True, [r1])"
    using assms(1,4) by (simp add: device_seen_def UpsertFull_def si_def [symmetric] sid_def [symmetric] repoint_def insertDevice_def r1_def)
  moreover have "device_seen n2 j [r1] = (True, [r2])"
    using assms(2,4) f1 by (simp add: device_seen_def UpsertFull_def sj_def [symmetric] sid_def [symmetric] repoint_def r2_def)
  moreover obtain r3 where r3: "processDiscovery n3 (arp_info (dh_MAC i) ip) [r2] = (True, [r2, r3])" "dv_MAC r3 = dh_MAC i"
    using assms(3) f2(1) by (simp add: processDiscovery_def arp_info_def Upsert_def UpsertFull_def insertDevice_def)
  moreover have "device_seen n4 i [r2, r3] = (False, [r2, r3])"
  proof -
    have "repoint (rfc3339 n4) si sid [r2, r3] = Inl UniqueViolation"
      by (rule repoint_collides [of r2 _ r3]) (use f2 r3(2) assms(3) in auto)
    then show ?thesis using assms(1,4) by (simp add: device_seen_def UpsertFull_def si_def [symmetric] sid_def [symmetric])
  qed
  ultimately show ?thesis using f2(1) r3(2) by (simp add: Let_def)
qed

definition phone :: "string \<Rightarrow> dhcp_info" where
  "phone mac = \<lparr> dh_MAC = mac, dh_IP = ''192.168.1.20'', dh_Hostname = [], dh_Fingerprint = [], dh_VendorClass = ''android-dhcp-13'' \<rparr>"

theorem alike_phones_collide_witness:
  "let both = snd (device_seen 2 (phone ''ae:00:00:00:00:02'') (snd (device_seen 1 (phone ''aa:00:00:00:00:01'') [])));
       seen = snd (processDiscovery 3 (arp_info ''aa:00:00:00:00:01'' ''192.168.1.20'') both) in
    List.map dv_MAC both = [''ae:00:00:00:00:02''] \<and> device_seen 4 (phone ''aa:00:00:00:00:01'') seen = (False, seen)"
proof -
  have "IsRandomizedMAC ''aa:00:00:00:00:01''" "IsRandomizedMAC ''ae:00:00:00:00:02''" by code_simp+
  then show ?thesis
    using alike_phones_collide [of "phone ''aa:00:00:00:00:01''" "phone ''ae:00:00:00:00:02''" 2 1 3 "''192.168.1.20''" 4]
    by (simp add: phone_def Let_def)
qed

subsection \<open>Labels come from the operator\<close>

lemma labels_processDiscovery:
  "\<forall>q \<in> set t. P (dv_Labels q) \<Longrightarrow> P [] \<Longrightarrow> UpsertFull now s t = Inr t' \<Longrightarrow> \<forall>q \<in> set t'. P (dv_Labels q)"
  by (auto simp: UpsertFull_def insertDevice_def repoint_def Let_def split: if_splits sum.splits)

lemma labels_receive: "\<forall>q \<in> set t. P (dv_Labels q) \<Longrightarrow> P [] \<Longrightarrow> \<forall>q \<in> set (receive uh now p t). P (dv_Labels q)"
proof -
  assume t: "\<forall>q \<in> set t. P (dv_Labels q)" "P []"
  have "\<forall>q \<in> set (EnrichByIP n ip h t). P (dv_Labels q)" for n ip h using t by (auto simp: EnrichByIP_def)
  then have "\<forall>q \<in> set (snd (processDiscovery now i t)). P (dv_Labels q)" for i
    using t labels_processDiscovery [OF t] by (auto simp: processDiscovery_def Upsert_def split: sum.splits)
  moreover have "\<forall>q \<in> set (snd (device_seen now i t)). P (dv_Labels q)" for i
    using t labels_processDiscovery [OF t] by (auto simp: device_seen_def split: sum.splits)
  ultimately show ?thesis using t by (cases p) (auto simp: discovered_def split: option.splits sum.splits)
qed

text \<open>
  Property C19. Every label was put there by a holder of the key. In an inventory that started empty and
  has an API key, a row's labels are those of some earlier label request that carried the key; no packet can
  forge one.
\<close>

theorem labels_only_by_operator:
  assumes "q \<in> set (fold (inv_step uh apiKey maxAge) ops [])" and "dv_Labels q \<noteq> []" and "apiKey \<noteq> []"
  shows "\<exists>now mac. (now, LabelRequest mac (''Bearer '' @ apiKey) ''PUT'' (Some (Some (dv_Labels q)))) \<in> set ops"
proof -
  let ?P = "\<lambda>ops ls. ls = [] \<or> (\<exists>now mac. (now, LabelRequest mac (''Bearer '' @ apiKey) ''PUT'' (Some (Some ls))) \<in> set ops)"
  have "\<forall>q \<in> set (fold (inv_step uh apiKey maxAge) ops []). ?P ops (dv_Labels q)"
  proof (induction ops rule: rev_induct)
    case (snoc op ops)
    let ?t = "fold (inv_step uh apiKey maxAge) ops []"
    have IH: "\<forall>q \<in> set ?t. ?P (ops @ [op]) (dv_Labels q)" using snoc by auto
    have "\<forall>q \<in> set (inv_step uh apiKey maxAge op ?t). ?P (ops @ [op]) (dv_Labels q)"
    proof (cases "(uh, apiKey, maxAge, op, ?t)" rule: inv_step.cases)
      case (1 uh' k m now p t)
      then show ?thesis using labels_receive [where P = "?P (ops @ [op])", OF IH] by simp
    next
      case (2 uh' k m now mac auth meth body t)
      have a: "auth = ''Bearer '' @ apiKey" if "inv_authorized apiKey ''PUT'' auth"
        using that assms(3) by (auto simp: inv_authorized_def has_prefix_iff prefix_def)
      show ?thesis using 2 IH a
        by (auto simp: inv_authMiddleware_def api_SetLabels_def SetLabels_def split: option.splits sum.splits if_splits)
    next
      case (3 uh' k m now t)
      then show ?thesis using IH by (auto simp: Prune_def Let_def)
    qed
    then show ?case by simp
  qed simp
  with assms show ?thesis by blast
qed

text \<open>The device is seen by ARP, then labelled with the key \<open>k\<close>.\<close>

definition labelling :: "(instant \<times> inv_op) list" where
  "labelling = [(0, Packet (ArpPacket (arp_request [2, 0, 0, 0, 0, 9] [192, 168, 1, 5] [192, 168, 1, 1]))),
     (1, LabelRequest ''02:00:00:00:00:09'' (''Bearer '' @ ''k'') ''PUT'' (Some (Some [''trusted''])))]"

theorem labels_only_by_operator_witness:
  "\<exists>now mac. (now, LabelRequest mac (''Bearer '' @ ''k'') ''PUT'' (Some (Some [''trusted'']))) \<in> set labelling"
proof -
  let ?t = "fold (inv_step (\<lambda>_. None) ''k'' 0) labelling []"
  have l: "List.map dv_Labels ?t = [[''trusted'']]" by code_simp
  then obtain q where "q \<in> set ?t" "dv_Labels q = [''trusted'']" by (cases ?t) auto
  then show ?thesis using labels_only_by_operator [of q "\<lambda>_. None" "''k''" 0 labelling] by simp
qed

subsection \<open>Frames of the killswitch\<close>

lemma Upsert_plain: "Upsert now mac ip h [] [] v t = Inr (insertDevice now \<lparr> sg_mac = mac, sg_ip = ip, sg_hostname = h,
    sg_fingerprint = [], sg_vendorClass = [], sg_vendor = v, sg_os = [], sg_deviceType = [] \<rparr> [] t)"
  by (simp add: Upsert_def UpsertFull_def)

lemma arp_sighting_ip:
  assumes "table_ok t" "mac \<noteq> []" "ip \<noteq> []"
  shows "\<exists>q. GetDevice mac (snd (processDiscovery now (arp_info mac ip) t)) = Some q \<and> dv_IP q = ip"
  using assms(2,3) GetDevice_insert [OF assms(1)]
  by (simp add: processDiscovery_def arp_info_def Upsert_plain new_row_def on_conflict_def sighted_def given_def split: option.split)

lemma mac_string_not_Nil: "length mac = 6 \<Longrightarrow> mac_string mac \<noteq> []"
proof
  assume "length mac = 6" "mac_string mac = []"
  with length_mac_string_6 [of mac] show False by simp
qed

lemma v4_string_not_Nil: "v4_string w \<noteq> []"
  using parse_addr_v4_string [of w] v4_string_inj [of w 0] v4_zero by (cases "v4_string w") (auto simp: parse_addr_def)

lemma receive_poison:
  assumes "length iface = 6" "length dst = 6" "spa \<noteq> 0"
  shows "receive uh now (ArpPacket (arp_frame iface dst (v4_bytes spa) iface (v4_bytes tpa))) t
    = snd (processDiscovery now (arp_info (mac_string iface) (v4_string spa)) t)"
  using arp_receive_frame [OF assms(2,1), of "[0, 2]" iface dst "v4_bytes tpa" spa "[]"] assms
  by (simp add: arp_frame_layout discovered_def arp_info_def)

text \<open>
  Further fact. The inventory believes the killswitch's own forgeries. If the two frames of an isolation reach its ARP
  listener, the row of the sensor that runs the killswitch ends with the address of the device it isolates, because the
  listener takes the sender of any ARP message at its word.
\<close>

theorem poison_misleads_inventory:
  assumes "os_sendto os = (\<lambda>frame mac w. (None, w @ [frame]))" and "table_ok t"
    and "length (ad_ifaceMAC d) = 6" "length targetMAC = 6" "length gatewayMAC = 6" and "ad_gatewayIP d \<noteq> 0" "targetIP \<noteq> 0"
  shows "\<exists>q. GetDevice (mac_string (ad_ifaceMAC d))
      (fold (\<lambda>frame. receive uh now (ArpPacket frame)) (snd (sendPoison os d targetIP targetMAC gatewayMAC [])) t) = Some q
    \<and> dv_IP q = v4_string targetIP"
proof -
  let ?f1 = "arp_frame (ad_ifaceMAC d) targetMAC (v4_bytes (ad_gatewayIP d)) (ad_ifaceMAC d) (v4_bytes targetIP)"
  let ?f2 = "arp_frame (ad_ifaceMAC d) gatewayMAC (v4_bytes targetIP) (ad_ifaceMAC d) (v4_bytes (ad_gatewayIP d))"
  have sent: "snd (sendPoison os d targetIP targetMAC gatewayMAC []) = [?f1, ?f2]"
    using assms by (simp add: sendPoison_def sendARP_def)
  define t1 where "t1 = receive uh now (ArpPacket ?f1) t"
  have ok: "table_ok t1" unfolding t1_def by (rule table_ok_receive [OF assms(2)])
  have "fold (\<lambda>frame. receive uh now (ArpPacket frame)) [?f1, ?f2] t
      = snd (processDiscovery now (arp_info (mac_string (ad_ifaceMAC d)) (v4_string targetIP)) t1)"
    using receive_poison [OF assms(3,5,7), of uh now "ad_gatewayIP d" t1] by (simp add: t1_def del: receive.simps)
  then show ?thesis unfolding sent
    using arp_sighting_ip [OF ok mac_string_not_Nil [OF assms(3)] v4_string_not_Nil [of targetIP], of now] by simp
qed

definition recording_os :: "byte list list arp_os" where
  "recording_os = sample_os \<lparr> os_sendto := (\<lambda>frame mac w. (None, w @ [frame])) \<rparr>"

theorem poison_misleads_inventory_witness:
  "\<exists>q. GetDevice (mac_string (ad_ifaceMAC sample_arp_driver))
      (fold (\<lambda>frame. receive (\<lambda>_. None) 0 (ArpPacket frame))
        (snd (sendPoison recording_os sample_arp_driver 0xC0A80132 [0, 1, 2, 3, 4, 5] [2, 0, 0, 0, 0, 1] [])) []) = Some q
    \<and> dv_IP q = v4_string 0xC0A80132"
  by (rule poison_misleads_inventory)
    (simp_all add: recording_os_def table_ok_empty sample_arp_driver_def)

subsection \<open>The accounts of the event writer\<close>

definition offered :: "'e writer_op list \<Rightarrow> 'e list" where
  "offered ops = List.map_filter (\<lambda>op. case op of Enqueue e \<Rightarrow> Some e | _ \<Rightarrow> None) ops"

definition held :: "'e writer \<Rightarrow> 'e list" where
  "held w = List.concat (ew_sent w) @ ew_batch w @ ew_queue w"

lemma offered_append: "offered (xs @ ys) = offered xs @ offered ys"
  by (simp add: offered_def map_filter_def)

definition writer_ok :: "'e writer \<Rightarrow> bool" where
  "writer_ok w \<longleftrightarrow> length (ew_batch w) < batchSize \<and> length (ew_queue w) \<le> queueDepth
     \<and> (\<forall>b \<in> set (ew_sent w). b \<noteq> [] \<and> length b \<le> batchSize)"

lemma writer_ok_step: "writer_ok w \<Longrightarrow> writer_ok (writer_step op w)"
  by (cases op) (auto simp: writer_ok_def ew_enqueue_def ew_flush_def ew_receive_def Let_def batchSize_def split: list.split)

interpretation wm: machine writer_step writer_ok
  by unfold_locales (rule writer_ok_step)

lemma held_step: "held (writer_step op w) = (case op of Enqueue e \<Rightarrow> if length (ew_queue w) < queueDepth then held w @ [e] else held w | _ \<Rightarrow> held w)"
  by (cases op) (auto simp: held_def ew_enqueue_def ew_flush_def ew_receive_def Let_def split: list.split)


end
