(* ===== verification/Topology.thy ===== *)
theory Topology
  imports Inventory SubnetScan
begin

text \<open>
  The network map of the inventory service (\<open>device-inventory/internal/api/topology.go\<close>): nodes from the devices and from
  the ends of the flows, edges from the flow query. The rows of ClickHouse are a parameter, \<open>None\<close> when the query
  fails; byte and packet totals are 64-bit words that wrap. The response lists the nodes in the order of a
  map range, here that of the association list.
\<close>

record topo_node =
  tn_ID :: string
  tn_Label :: string
  tn_MAC :: string
  tn_IP :: string
  tn_DeviceType :: string
  tn_Vendor :: string
  tn_IsLocal :: bool
  tn_TotalBytes :: "64 word"
  tn_ConnectionCount :: nat

record topo_edge =
  te_Source :: string
  te_Target :: string
  te_TotalBytes :: "64 word"
  te_TotalPackets :: "64 word"
  te_FlowCount :: "64 word"

definition topo_hours :: "string \<Rightarrow> int" where
  "topo_hours v = (case atoi v of Some n \<Rightarrow> if v \<noteq> [] \<and> n > 0 \<and> n \<le> 168 then n else 1 | None \<Rightarrow> 1)"

definition pickLabel :: "string \<Rightarrow> string \<Rightarrow> string" where
  "pickLabel hostname ip = (if hostname \<noteq> [] then hostname else ip)"

definition isPrivateIP :: "string \<Rightarrow> bool" where
  "isPrivateIP ip =
     (if has_prefix ip ''10.'' \<or> has_prefix ip ''192.168.'' then True
      else if has_prefix ip ''172.'' then
        (let parts = split_n (CHR ''.'') 3 ip in
         length parts \<ge> 2 \<and> (case atoi (parts ! 1) of Some oct \<Rightarrow> oct \<ge> 16 \<and> oct \<le> 31 | None \<Rightarrow> False))
      else False)"

text \<open>The rows are those of the query; a row without an end, or with both ends the same, is passed over.\<close>

definition queryFlows :: "topo_edge list option \<Rightarrow> topo_edge list" where
  "queryFlows rows =
     (case rows of None \<Rightarrow> []
      | Some rs \<Rightarrow> filter (\<lambda>r. \<not> (te_Source r = [] \<or> te_Target r = [] \<or> te_Source r = te_Target r)) rs)"

definition device_node :: "device \<Rightarrow> topo_node" where
  "device_node d = \<lparr> tn_ID = dv_IP d, tn_Label = pickLabel (dv_Hostname d) (dv_IP d), tn_MAC = dv_MAC d, tn_IP = dv_IP d,
     tn_DeviceType = dv_DeviceType d, tn_Vendor = dv_Vendor d, tn_IsLocal = True, tn_TotalBytes = 0, tn_ConnectionCount = 0 \<rparr>"

definition deviceByIP :: "device list \<Rightarrow> (string, device) gomap" where
  "deviceByIP ds = fold (\<lambda>d m. if dv_IP d \<noteq> [] then mput (dv_IP d) d m else m) ds []"

type_synonym nodes = "(string, topo_node) gomap"

definition device_nodes :: "device list \<Rightarrow> nodes" where
  "device_nodes ds = fold (\<lambda>d m. if dv_IP d = [] then m else mput (dv_IP d) (device_node d) m) ds []"

definition ensureNode :: "(string, device) gomap \<Rightarrow> string \<Rightarrow> nodes \<Rightarrow> nodes" where
  "ensureNode devices ip m =
     (if mget m ip \<noteq> None then m
      else mput ip (case mget devices ip of
          Some d \<Rightarrow> \<lparr> tn_ID = ip, tn_Label = pickLabel (dv_Hostname d) ip, tn_MAC = dv_MAC d, tn_IP = ip,
                     tn_DeviceType = dv_DeviceType d, tn_Vendor = dv_Vendor d, tn_IsLocal = True, tn_TotalBytes = 0, tn_ConnectionCount = 0 \<rparr>
        | None \<Rightarrow> \<lparr> tn_ID = ip, tn_Label = ip, tn_MAC = [], tn_IP = ip, tn_DeviceType = [], tn_Vendor = [],
                   tn_IsLocal = isPrivateIP ip, tn_TotalBytes = 0, tn_ConnectionCount = 0 \<rparr>) m)"

definition count_end :: "topo_edge \<Rightarrow> string \<Rightarrow> nodes \<Rightarrow> nodes" where
  "count_end e ip m =
     (case mget m ip of
        Some n \<Rightarrow> mput ip (n \<lparr> tn_TotalBytes := tn_TotalBytes n + te_TotalBytes e, tn_ConnectionCount := tn_ConnectionCount n + 1 \<rparr>) m
      | None \<Rightarrow> m)"

definition add_edge :: "(string, device) gomap \<Rightarrow> topo_edge \<Rightarrow> nodes \<Rightarrow> nodes" where
  "add_edge devices e m =
     count_end e (te_Target e) (count_end e (te_Source e) (ensureNode devices (te_Target e) (ensureNode devices (te_Source e) m)))"

text \<open>Nodes and edges of the response.\<close>

definition topology :: "device list \<Rightarrow> topo_edge list option \<Rightarrow> topo_node list \<times> topo_edge list" where
  "topology ds rows =
     (let edges = queryFlows rows in (List.map snd (fold (add_edge (deviceByIP ds)) edges (device_nodes ds)), edges))"

subsection \<open>Nodes account for the edges\<close>

definition touching :: "string \<Rightarrow> topo_edge \<Rightarrow> bool" where
  "touching ip e \<longleftrightarrow> te_Source e = ip \<or> te_Target e = ip"

text \<open>After some edges, each node is filed under its address and has counted the edges that touch it.\<close>

definition nodes_ok :: "topo_edge list \<Rightarrow> nodes \<Rightarrow> bool" where
  "nodes_ok es m \<longleftrightarrow> mwf m
     \<and> (\<forall>ip n. mget m ip = Some n \<longrightarrow> tn_ID n = ip \<and> tn_IP n = ip \<and> tn_ConnectionCount n = length (filter (touching ip) es)
          \<and> tn_TotalBytes n = sum_list (List.map te_TotalBytes (filter (touching ip) es)))
     \<and> (\<forall>e \<in> set es. mget m (te_Source e) \<noteq> None \<and> mget m (te_Target e) \<noteq> None)"

lemma nodes_ok_device_nodes: "nodes_ok [] (device_nodes ds)"
proof -
  have step: "nodes_ok [] (fold (\<lambda>d m. if dv_IP d = [] then m else mput (dv_IP d) (device_node d) m) ds m)" if "nodes_ok [] m" for m
    using that
  proof (induction ds arbitrary: m)
    case (Cons d ds)
    have "nodes_ok [] (if dv_IP d = [] then m else mput (dv_IP d) (device_node d) m)"
      using Cons.prems by (auto simp: nodes_ok_def mget_put device_node_def)
    from Cons.IH [OF this] show ?case by simp
  qed simp
  have "nodes_ok [] []" by (simp add: nodes_ok_def)
  from step [OF this] show ?thesis by (simp add: device_nodes_def)
qed

lemma ensureNode_Some: "mget (ensureNode ds ip m) k = Some n \<Longrightarrow> mget m k = Some n
    \<or> mget m k = None \<and> k = ip \<and> tn_ID n = ip \<and> tn_IP n = ip \<and> tn_ConnectionCount n = 0 \<and> tn_TotalBytes n = 0"
  by (auto simp: ensureNode_def mget_put split: option.splits if_splits)

lemma ensureNode_mono: "mget m k \<noteq> None \<or> k = ip \<Longrightarrow> mget (ensureNode ds ip m) k \<noteq> None"
  by (auto simp: ensureNode_def mget_put)

lemma mwf_ensureNode: "mwf m \<Longrightarrow> mwf (ensureNode ds ip m)"
  by (simp add: ensureNode_def)

lemma nodes_ok_ensure:
  assumes "nodes_ok es m"
  shows "nodes_ok es (ensureNode ds ip m)"
  unfolding nodes_ok_def
proof (intro conjI allI impI ballI)
  show "mwf (ensureNode ds ip m)" using assms by (simp add: nodes_ok_def mwf_ensureNode)
  fix k n assume "mget (ensureNode ds ip m) k = Some n"
  from ensureNode_Some [OF this] consider "mget m k = Some n"
    | "mget m k = None" "tn_ID n = k \<and> tn_IP n = k \<and> tn_ConnectionCount n = 0 \<and> tn_TotalBytes n = 0" by auto
  then have "tn_ID n = k \<and> tn_IP n = k \<and> tn_ConnectionCount n = length (filter (touching k) es)
      \<and> tn_TotalBytes n = sum_list (List.map te_TotalBytes (filter (touching k) es))"
  proof cases
    case 1
    with assms show ?thesis by (simp add: nodes_ok_def)
  next
    case 2
    then have "filter (touching k) es = []" using assms by (auto simp: nodes_ok_def filter_empty_conv touching_def)
    with 2 show ?thesis by simp
  qed
  then show "tn_ID n = k" "tn_IP n = k" "tn_ConnectionCount n = length (filter (touching k) es)"
    "tn_TotalBytes n = sum_list (List.map te_TotalBytes (filter (touching k) es))" by simp_all
next
  fix e assume "e \<in> set es"
  then show "mget (ensureNode ds ip m) (te_Source e) \<noteq> None" "mget (ensureNode ds ip m) (te_Target e) \<noteq> None"
    using assms by (simp_all add: nodes_ok_def ensureNode_mono)
qed

lemma mget_count_end: "mget (count_end e ip m) k = (if k = ip then map_option (\<lambda>n. n \<lparr> tn_TotalBytes := tn_TotalBytes n + te_TotalBytes e,
    tn_ConnectionCount := tn_ConnectionCount n + 1 \<rparr>) (mget m k) else mget m k)"
  by (auto simp: count_end_def mget_put split: option.split)

lemma mwf_count_end: "mwf m \<Longrightarrow> mwf (count_end e ip m)"
  by (simp add: count_end_def split: option.split)

lemma nodes_ok_add_edge:
  assumes ok: "nodes_ok es m" and ne: "te_Source e \<noteq> te_Target e"
  shows "nodes_ok (es @ [e]) (add_edge ds e m)"
proof -
  let ?m = "ensureNode ds (te_Target e) (ensureNode ds (te_Source e) m)"
  have m: "nodes_ok es ?m" using ok by (intro nodes_ok_ensure)
  have have_ends: "mget ?m (te_Source e) \<noteq> None" "mget ?m (te_Target e) \<noteq> None"
    by (simp_all add: ensureNode_mono del: not_None_eq)
  have get: "mget (add_edge ds e m) k = (if touching k e then map_option (\<lambda>n. n \<lparr> tn_TotalBytes := tn_TotalBytes n + te_TotalBytes e,
      tn_ConnectionCount := tn_ConnectionCount n + 1 \<rparr>) (mget ?m k) else mget ?m k)" for k
    using ne by (auto simp: add_edge_def mget_count_end touching_def)
  show ?thesis unfolding nodes_ok_def
  proof (intro conjI allI impI ballI)
    show "mwf (add_edge ds e m)" using m by (auto simp: add_edge_def nodes_ok_def mwf_count_end)
    fix k n assume "mget (add_edge ds e m) k = Some n"
    with m show "tn_ID n = k" "tn_IP n = k" "tn_ConnectionCount n = length (filter (touching k) (es @ [e]))"
      "tn_TotalBytes n = sum_list (List.map te_TotalBytes (filter (touching k) (es @ [e])))"
      by (auto simp: get nodes_ok_def split: if_splits)
  next
    fix e' assume "e' \<in> set (es @ [e])"
    then have "mget ?m (te_Source e') \<noteq> None" "mget ?m (te_Target e') \<noteq> None"
      using m have_ends by (auto simp: nodes_ok_def simp del: not_None_eq)
    then show "mget (add_edge ds e m) (te_Source e') \<noteq> None" "mget (add_edge ds e m) (te_Target e') \<noteq> None"
      by (simp_all add: get)
  qed
qed

text \<open>
  Further fact. The map accounts for its edges. Every end of an edge is a node, no address has two nodes, and each node has
  counted exactly the edges that touch it and added up their bytes, as a 64-bit counter does.
\<close>

theorem topology_accounts:
  "case topology ds rows of (nodes, edges) \<Rightarrow>
     distinct (List.map tn_ID nodes)
     \<and> list_all (\<lambda>e. te_Source e \<in> tn_ID ` set nodes \<and> te_Target e \<in> tn_ID ` set nodes) edges
     \<and> list_all (\<lambda>n. tn_ConnectionCount n = length (filter (touching (tn_ID n)) edges)
          \<and> tn_TotalBytes n = sum_list (List.map te_TotalBytes (filter (touching (tn_ID n)) edges))) nodes"
proof -
  define edges where "edges = queryFlows rows"
  have ne: "\<forall>e \<in> set edges. te_Source e \<noteq> te_Target e" by (auto simp: edges_def queryFlows_def split: option.splits)
  have step: "nodes_ok (es @ es') (fold (add_edge (deviceByIP ds)) es' m)"
    if "nodes_ok es m" "\<forall>e \<in> set es'. te_Source e \<noteq> te_Target e" for es es' m
    using that
  proof (induction es' arbitrary: es m)
    case (Cons e es')
    then have "nodes_ok (es @ [e]) (add_edge (deviceByIP ds) e m)" by (intro nodes_ok_add_edge) simp_all
    from Cons.IH [OF this] Cons.prems show ?case by simp
  qed simp
  define m where "m = fold (add_edge (deviceByIP ds)) edges (device_nodes ds)"
  have ok: "nodes_ok edges m" using step [OF nodes_ok_device_nodes ne, of ds] by (simp add: m_def)
  then have wf: "mwf m" by (simp add: nodes_ok_def)
  have mem: "mget m (tn_ID n) = Some n" if n: "n \<in> set (List.map snd m)" for n
  proof -
    from n obtain k where "(k, n) \<in> set m" by auto
    then have k: "mget m k = Some n" using mget_Some_in [OF wf] by simp
    then have "tn_ID n = k" using ok by (simp add: nodes_ok_def)
    with k show ?thesis by simp
  qed
  have ids: "List.map tn_ID (List.map snd m) = mkeys m"
  proof (unfold list.map_comp, rule map_cong [OF refl], clarsimp)
    fix k n assume "(k, n) \<in> set m"
    then have "mget m k = Some n" using mget_Some_in [OF wf] by simp
    then show "tn_ID n = k" using ok by (simp add: nodes_ok_def)
  qed
  have keys: "k \<in> tn_ID ` set (List.map snd m)" if "mget m k \<noteq> None" for k
    using arg_cong [OF ids, of set] that mget_None_iff [of m k] by (simp only: set_map) simp
  have "distinct (List.map tn_ID (List.map snd m))" unfolding ids using wf by (simp add: mwf_def)
  moreover have "list_all (\<lambda>e. te_Source e \<in> tn_ID ` set (List.map snd m) \<and> te_Target e \<in> tn_ID ` set (List.map snd m)) edges"
    using ok keys by (simp add: list_all_iff nodes_ok_def del: set_map)
  moreover have "list_all (\<lambda>n. tn_ConnectionCount n = length (filter (touching (tn_ID n)) edges)
      \<and> tn_TotalBytes n = sum_list (List.map te_TotalBytes (filter (touching (tn_ID n)) edges))) (List.map snd m)"
    using ok mem by (simp add: list_all_iff nodes_ok_def del: set_map)
  ultimately show ?thesis by (simp add: topology_def edges_def [symmetric] m_def [symmetric] del: set_map map_map)
qed

subsection \<open>Private addresses\<close>

lemma has_prefix_part: "c \<notin> set x \<Longrightarrow> c \<notin> set p \<Longrightarrow> has_prefix (x @ c # y) (p @ c # q) \<longleftrightarrow> x = p \<and> has_prefix y q"
proof (induction x arbitrary: p)
  case Nil
  then show ?case by (cases p) (auto simp: has_prefix_iff)
next
  case (Cons a x)
  then show ?case by (cases p) (auto simp: has_prefix_iff)
qed

text \<open>
  Further fact. The test on the text of an address is the test on the address. For every IPv4 address
  \<open>isPrivateIP\<close> answers yes exactly for 10.0.0.0/8, 172.16.0.0/12 and 192.168.0.0/16.
\<close>

theorem private_ip_is_rfc1918:
  "isPrivateIP (v4_string w) \<longleftrightarrow> same_top 8 0x0A000000 w \<or> same_top 12 0xAC100000 w \<or> same_top 16 0xC0A80000 w"
proof -
  define A B C D where "A = unat w div 2 ^ 24" and "B = unat w div 2 ^ 16 mod 256"
    and "C = unat w div 2 ^ 8 mod 256" and "D = unat w mod 256"
  have A: "A < 256" using unat32 [of w] by (simp add: A_def less_mult_imp_div_less)
  have "List.map (\<lambda>b. show_nat (unat b)) (v4_bytes w) = [show_nat A, show_nat B, show_nat C, show_nat D]"
  proof -
    have u: "unat (of_nat n :: byte) = n mod 256" for n by (simp only: unat_of_nat) simp
    have "unat w div 16777216 mod 256 = unat w div 16777216" using A by (simp add: A_def)
    then show ?thesis by (simp only: v4_bytes_def list.map u A_def B_def C_def D_def) simp
  qed
  then have t: "v4_string w = show_nat A @ CHR ''.'' # show_nat B @ CHR ''.'' # show_nat C @ CHR ''.'' # show_nat D"
    by (simp add: v4_string_def)
  have nd: "CHR ''.'' \<notin> set (show_nat n)" for n by (simp add: show_nat_no_sep)
  have sh: "''10'' = show_nat 10" "''192'' = show_nat 192" "''168'' = show_nat 168" "''172'' = show_nat 172" by code_simp+
  have p: "has_prefix (v4_string w) (show_nat n @ CHR ''.'' # q) \<longleftrightarrow>
      A = n \<and> has_prefix (show_nat B @ CHR ''.'' # show_nat C @ CHR ''.'' # show_nat D) q" for n q
    unfolding t using has_prefix_part [OF nd nd] by simp
  have p10: "has_prefix (v4_string w) ''10.'' \<longleftrightarrow> A = 10" using p [of 10 "[]"] by (simp add: sh(1) [symmetric] has_prefix_def)
  have p172: "has_prefix (v4_string w) ''172.'' \<longleftrightarrow> A = 172" using p [of 172 "[]"] by (simp add: sh(4) [symmetric] has_prefix_def)
  have "has_prefix (show_nat B @ CHR ''.'' # show_nat C @ CHR ''.'' # show_nat D) (show_nat 168 @ CHR ''.'' # []) \<longleftrightarrow> B = 168"
    by (simp only: has_prefix_part [OF nd nd] show_nat_inject) (simp add: has_prefix_def)
  then have p192: "has_prefix (v4_string w) ''192.168.'' \<longleftrightarrow> A = 192 \<and> B = 168"
    using p [of 192 "show_nat 168 @ CHR ''.'' # []"] by (simp add: sh(2,3) [symmetric])
  have parts: "split_n (CHR ''.'') 3 (v4_string w) = [show_nat A, show_nat B, show_nat C @ CHR ''.'' # show_nat D]"
    unfolding t by (simp add: cut_at_append nd numeral_3_eq_3)
  have B: "B < 256" by (simp add: B_def)
  have at: "atoi (show_nat B) = Some (int B)" using B by (intro atoi_show_nat) simp
  have text_eq: "isPrivateIP (v4_string w) \<longleftrightarrow> A = 10 \<or> A = 192 \<and> B = 168 \<or> A = 172 \<and> 16 \<le> B \<and> B \<le> 31"
    by (auto simp: isPrivateIP_def p10 p192 p172 parts at)
  have q: "unat w div 2 ^ 16 = A * 256 + B"
    using div_mult2_eq [of "unat w" 65536 256] by (simp add: A_def B_def)
  have t8: "same_top 8 0x0A000000 w \<longleftrightarrow> A = 10" by (auto simp: same_top_nat A_def)
  have q1: "49320 div 256 = (192 :: nat)" "49320 mod 256 = (168 :: nat)" "192 * 256 + 168 = (49320 :: nat)" by simp_all
  have t16: "same_top 16 0xC0A80000 w \<longleftrightarrow> A = 192 \<and> B = 168" 
  proof -
    have "(A * 256 + B) div 256 = A" "(A * 256 + B) mod 256 = B" using B by simp_all
    then have "A * 256 + B = 49320 \<longleftrightarrow> A = 192 \<and> B = 168" by (metis div_mod_256 q1)
    then show ?thesis using q by (auto simp: same_top_nat)
  qed
  have "unat w div 2 ^ 20 = (A * 256 + B) div 16" using div_mult2_eq [of "unat w" 65536 16] q by simp
  then have t12: "same_top 12 0xAC100000 w \<longleftrightarrow> A = 172 \<and> 16 \<le> B \<and> B \<le> 31" 
  proof -
    have "(A * 256 + B) div 16 = A * 16 + B div 16" using div_mult_self3 [of 16 "A * 16" B] by simp
    moreover have "B div 16 < 16" using B by (simp add: less_mult_imp_div_less)
    moreover have "q < 16 \<Longrightarrow> A * 16 + q = 2753 \<longleftrightarrow> A = 172 \<and> q = 1" for q :: nat by arith
    ultimately have "(A * 256 + B) div 16 = 2753 \<longleftrightarrow> A = 172 \<and> B div 16 = 1" by simp
    moreover have "B div 16 = 1 \<longleftrightarrow> 16 \<le> B \<and> B \<le> 31" by linarith
    ultimately have "(A * 256 + B) div 16 = 2753 \<longleftrightarrow> A = 172 \<and> 16 \<le> B \<and> B \<le> 31" by simp
    moreover have "same_top 12 0xAC100000 w \<longleftrightarrow> unat w div 2 ^ 20 = 2753" by (auto simp: same_top_nat)
    ultimately show ?thesis using \<open>unat w div 2 ^ 20 = (A * 256 + B) div 16\<close> by simp
  qed
  show ?thesis unfolding text_eq t8 t12 t16 by blast
qed

end
