(* ===== verification/InventoryApi.thy ===== *)
theory InventoryApi
  imports InventoryService Topology Clients GoDuration
begin

text \<open>
  The HTTP interface of the inventory service: the detail handlers (\<open>device-inventory/internal/api/device_detail.go\<close>), the
  flow query of the network map (\<open>internal/api/topology.go\<close>), and the routes and the middleware around all handlers
  (\<open>cmd/device-inventory/main.go\<close>). ClickHouse is reached through the client of \<open>Clients\<close>; decoding its answers is a
  parameter. A path is given by its unescaped segments.
\<close>

subsection \<open>Device details\<close>

record connection_row =
  cr_Timestamp :: string
  cr_DstIP :: string
  cr_DstDomain :: string
  cr_DstPort :: "16 word"
  cr_Protocol :: "8 word"
  cr_BytesIn :: "64 word"
  cr_BytesOut :: "64 word"
  cr_Duration :: "32 word"

record dns_row =
  nr_Timestamp :: string
  nr_Domain :: string
  nr_QueryType :: string
  nr_Answer :: string
  nr_Status :: string
  nr_ResponseMs :: "16 word"
  nr_Blocked :: "8 word"

record alert_row =
  lr_Timestamp :: string
  lr_ID :: string
  lr_Domain :: string
  lr_QueryType :: string
  lr_MatchedIoC :: string
  lr_Severity :: string
  lr_Source :: string

text \<open>The expression \<open>^([0-9a-fA-F]{2}:){5}[0-9a-fA-F]{2}$\<close>.\<close>

definition macRe :: "string \<Rightarrow> bool" where
  "macRe s \<longleftrightarrow> length (split_on (CHR '':'') s) = 6 \<and> list_all (\<lambda>p. length p = 2 \<and> list_all is_hex p) (split_on (CHR '':'') s)"

definition lines_of_query :: "string list \<Rightarrow> string" where
  "lines_of_query ls = join lf ls"

definition connections_query :: string where
  "connections_query = lines_of_query [''SELECT'',
     [CHR 0x09, CHR 0x09] @ ''timestamp, dst_ip, dst_domain, dst_port, protocol,'',
     [CHR 0x09, CHR 0x09] @ ''bytes_in, bytes_out, duration_ms'',
     [CHR 0x09] @ ''FROM connections'',
     [CHR 0x09] @ ''WHERE src_ip = {ip:String}'',
     [CHR 0x09] @ ''ORDER BY timestamp DESC'',
     [CHR 0x09] @ ''LIMIT 100'']"

definition dns_query :: string where
  "dns_query = lines_of_query [''SELECT'',
     [CHR 0x09, CHR 0x09] @ ''timestamp, domain, query_type, answer, status, response_ms, blocked'',
     [CHR 0x09] @ ''FROM dns_queries'',
     [CHR 0x09] @ ''WHERE client_ip = {ip:String}'',
     [CHR 0x09] @ ''ORDER BY timestamp DESC'',
     [CHR 0x09] @ ''LIMIT 100'']"

definition alerts_query :: string where
  "alerts_query = lines_of_query [''SELECT'',
     [CHR 0x09, CHR 0x09] @ ''timestamp, id, domain, query_type, matched_ioc, severity, source'',
     [CHR 0x09] @ ''FROM alerts'',
     [CHR 0x09] @ ''WHERE client_ip = {ip:String}'',
     [CHR 0x09] @ ''ORDER BY timestamp DESC'',
     [CHR 0x09] @ ''LIMIT 50'']"

text \<open>The service's side of the exchange: the client (\<open>None\<close> without ClickHouse), the web, and the decoders of the rows.\<close>

record 'w inv_env =
  ie_client :: "ch_client option"
  ie_web :: "'w web"
  ie_envelope :: "string \<Rightarrow> string + string"
  ie_connections :: "string \<Rightarrow> string + connection_row list"
  ie_dns :: "string \<Rightarrow> string + dns_row list"
  ie_alerts :: "string \<Rightarrow> string + alert_row list"
  ie_flows :: "string \<Rightarrow> string + topo_edge list"

text \<open>
  The address of the device a detail request asks about: an error for the client, or \<open>None\<close> where the handler answers with
  an empty list at once.
\<close>

definition detail_ip :: "string \<Rightarrow> table \<Rightarrow> (nat \<times> string) + string option" where
  "detail_ip mac t =
     (if \<not> macRe mac then Inl (400, ''invalid mac'')
      else Inr (case GetDevice mac t of
             None \<Rightarrow> None
           | Some d \<Rightarrow> if dv_IP d = [] then None else if parse_ip (dv_IP d) = None then None else Some (dv_IP d)))"

definition device_detail :: "'w inv_env \<Rightarrow> (string \<Rightarrow> string + 'r list) \<Rightarrow> string \<Rightarrow> string \<Rightarrow> table \<Rightarrow> 'w \<Rightarrow> 'r api_response \<times> 'w" where
  "device_detail env unmarshal query mac t w =
     (case detail_ip mac t of
        Inl (code, e) \<Rightarrow> (ApiError code e, w)
      | Inr None \<Rightarrow> (ApiRows [], w)
      | Inr (Some ip) \<Rightarrow>
          (case ie_client env of
             None \<Rightarrow> (ApiRows [], w)
           | Some c \<Rightarrow>
               (case ch_Query (ie_web env) (ie_envelope env) unmarshal c query [[(''ip'', ip)]] w of
                  (Inl e, w') \<Rightarrow> (ApiRows [], w')
                | (Inr rows, w') \<Rightarrow> (ApiRows rows, w'))))"

definition DeviceConnections :: "'w inv_env \<Rightarrow> string \<Rightarrow> table \<Rightarrow> 'w \<Rightarrow> connection_row api_response \<times> 'w" where
  "DeviceConnections env = device_detail env (ie_connections env) connections_query"

definition DeviceDNS :: "'w inv_env \<Rightarrow> string \<Rightarrow> table \<Rightarrow> 'w \<Rightarrow> dns_row api_response \<times> 'w" where
  "DeviceDNS env = device_detail env (ie_dns env) dns_query"

definition DeviceAlerts :: "'w inv_env \<Rightarrow> string \<Rightarrow> table \<Rightarrow> 'w \<Rightarrow> alert_row api_response \<times> 'w" where
  "DeviceAlerts env = device_detail env (ie_alerts env) alerts_query"

subsection \<open>The network map\<close>

definition flows_query :: string where
  "flows_query = lines_of_query [''SELECT'',
     [CHR 0x09, CHR 0x09] @ ''src_ip,'',
     [CHR 0x09, CHR 0x09] @ ''dst_ip,'',
     [CHR 0x09, CHR 0x09] @ ''sum(bytes_in + bytes_out) AS total_bytes,'',
     [CHR 0x09, CHR 0x09] @ ''sum(packets_in + packets_out) AS total_packets,'',
     [CHR 0x09, CHR 0x09] @ ''count() AS flow_count'',
     [CHR 0x09] @ ''FROM network_flows'',
     [CHR 0x09] @ ''WHERE timestamp >= now() - INTERVAL {hours:UInt32} HOUR'',
     [CHR 0x09] @ ''GROUP BY src_ip, dst_ip'',
     [CHR 0x09] @ ''ORDER BY total_bytes DESC'',
     [CHR 0x09] @ ''LIMIT 500'']"

definition ServeTopology :: "'w inv_env \<Rightarrow> string \<Rightarrow> table \<Rightarrow> 'w \<Rightarrow> (topo_node list \<times> topo_edge list) \<times> 'w" where
  "ServeTopology env hours t w =
     (case ie_client env of
        None \<Rightarrow> (topology (ListDevices t) None, w)
      | Some c \<Rightarrow>
          (case ch_Query (ie_web env) (ie_envelope env) (ie_flows env) c flows_query [[(''hours'', show_int (topo_hours hours))]] w of
             (Inl e, w') \<Rightarrow> (topology (ListDevices t) None, w')
           | (Inr rows, w') \<Rightarrow> (topology (ListDevices t) (Some rows), w')))"

subsection \<open>Routes\<close>

record inv_request =
  iq_method :: string
  iq_path :: "string list"
  iq_authorization :: string
  iq_hours :: string
  iq_body :: "string list option option"

datatype inv_response =
    IvHealth | IvMetrics | IvNotFound
  | IvApi "unit api_response"
  | IvConnections "connection_row api_response"
  | IvDNS "dns_row api_response"
  | IvAlerts "alert_row api_response"
  | IvTopology "topo_node list" "topo_edge list"

text \<open>The patterns of the \<open>ServeMux\<close>; a GET pattern also serves HEAD, and a wildcard matches one segment that is not empty.\<close>

definition inv_mux :: "'w inv_env \<Rightarrow> inv_request \<Rightarrow> table \<Rightarrow> 'w \<Rightarrow> inv_response \<times> table \<times> 'w" where
  "inv_mux env r t w =
     (let get = (iq_method r = ''GET'' \<or> iq_method r = ''HEAD'') in
      case iq_path r of
        [p] \<Rightarrow>
          if get \<and> p = ''devices'' then (IvApi (ApiDevices (ListDevices t)), t, w)
          else if get \<and> p = ''topology'' then
            (case ServeTopology env (iq_hours r) t w of ((nodes, edges), w') \<Rightarrow> (IvTopology nodes edges, t, w'))
          else if get \<and> p = ''healthz'' then (IvHealth, t, w)
          else if get \<and> p = ''metrics'' then (IvMetrics, t, w)
          else (IvNotFound, t, w)
      | [p, mac] \<Rightarrow>
          if get \<and> p = ''devices'' \<and> mac \<noteq> [] then (IvApi (api_GetDevice mac t), t, w) else (IvNotFound, t, w)
      | [p, mac, q] \<Rightarrow>
          if p = ''devices'' \<and> mac \<noteq> [] then
            if get \<and> q = ''connections'' then (case DeviceConnections env mac t w of (a, w') \<Rightarrow> (IvConnections a, t, w'))
            else if get \<and> q = ''dns'' then (case DeviceDNS env mac t w of (a, w') \<Rightarrow> (IvDNS a, t, w'))
            else if get \<and> q = ''alerts'' then (case DeviceAlerts env mac t w of (a, w') \<Rightarrow> (IvAlerts a, t, w'))
            else if iq_method r = ''PUT'' \<and> q = ''labels'' then (case api_SetLabels mac (iq_body r) t of (a, t') \<Rightarrow> (IvApi a, t', w))
            else (IvNotFound, t, w)
          else (IvNotFound, t, w)
      | _ \<Rightarrow> (IvNotFound, t, w))"

definition inv_serve :: "'w inv_env \<Rightarrow> string \<Rightarrow> inv_request \<Rightarrow> table \<Rightarrow> 'w \<Rightarrow> inv_response \<times> table \<times> 'w" where
  "inv_serve env apiKey r t w =
     (if inv_authorized apiKey (iq_method r) (iq_authorization r) then inv_mux env r t w
      else (IvApi (ApiError 401 ''unauthorized''), t, w))"

subsection \<open>The environment\<close>

text \<open>The client of ClickHouse and the retention of the table. Here a duration that is zero or negative is replaced.\<close>

definition inventory_client :: "(string \<Rightarrow> string) \<Rightarrow> ch_client option" where
  "inventory_client env =
     (if env ''CLICKHOUSE_URL'' \<noteq> []
      then Some \<lparr> cc_baseURL = env ''CLICKHOUSE_URL'', cc_database = env_or env ''CLICKHOUSE_DATABASE'' ''netsoldier'',
             cc_user = env ''CLICKHOUSE_USER'', cc_password = env ''CLICKHOUSE_PASSWORD'' \<rparr>
      else None)"

definition parseDuration_inv :: "string \<Rightarrow> duration \<Rightarrow> duration" where
  "parseDuration_inv s fallback = (case parse_duration s of None \<Rightarrow> fallback | Some d \<Rightarrow> if d \<le> 0 then fallback else d)"

definition device_retention :: "(string \<Rightarrow> string) \<Rightarrow> duration" where
  "device_retention env = parseDuration_inv (env_or env ''DEVICE_RETENTION'' ''720h'') (30 * 24 * 3600000000000)"

lemma retention_positive: "device_retention env > 0"
  by (simp add: device_retention_def parseDuration_inv_def split: option.split)

subsection \<open>What reaches the database\<close>

definition fixed_queries :: "(string \<times> string) set" where
  "fixed_queries = {(connections_query, ''ip''), (dns_query, ''ip''), (alerts_query, ''ip''), (flows_query, ''hours'')}"

definition plain_value :: "table \<Rightarrow> string \<Rightarrow> string \<Rightarrow> bool" where
  "plain_value t k v \<longleftrightarrow>
     (if k = ''ip'' then v \<in> dv_IP ` set t \<and> parse_ip v \<noteq> None else \<exists>n. v = show_int n \<and> 1 \<le> n \<and> n \<le> 168)"

text \<open>Nothing is sent, or one of the fixed queries with one parameter.\<close>

definition sends_fixed :: "'w inv_env \<Rightarrow> table \<Rightarrow> 'w \<Rightarrow> 'w \<Rightarrow> bool" where
  "sends_fixed env t w w' \<longleftrightarrow> w' = w \<or>
     (\<exists>c q k v. ie_client env = Some c \<and> (q, k) \<in> fixed_queries \<and> plain_value t k v
        \<and> w' = snd (web_do (ie_web env) (query_request c q [[(k, v)]]) w))"

lemma ch_Query_world:
  "snd (ch_Query web env unmarshal c q ps w) = w \<or> snd (ch_Query web env unmarshal c q ps w) = snd (web_do web (query_request c q ps) w)"
  by (auto simp: ch_Query_def Let_def split: option.splits prod.splits http_result.splits sum.splits)

lemma sends_fixed_query:
  assumes "ie_client env = Some c" "(q, k) \<in> fixed_queries" "plain_value t k v"
  shows "sends_fixed env t w (snd (ch_Query (ie_web env) (ie_envelope env) unmarshal c q [[(k, v)]] w))"
  using ch_Query_world [of "ie_web env" "ie_envelope env" unmarshal c q "[[(k, v)]]" w] assms
  by (auto simp: sends_fixed_def)

lemma sends_fixed_same [simp]: "sends_fixed env t w w"
  by (simp add: sends_fixed_def)

lemma detail_ip_plain: "detail_ip mac t = Inr (Some ip) \<Longrightarrow> plain_value t ''ip'' ip"
  by (auto simp: detail_ip_def plain_value_def GetDevice_def find_Some_iff split: if_splits option.splits)

lemma detail_sends:
  assumes "(q, ''ip'') \<in> fixed_queries"
  shows "sends_fixed env t w (snd (device_detail env unmarshal q mac t w))"
proof (cases "detail_ip mac t")
  case (Inr x)
  show ?thesis
  proof (cases x)
    case (Some ip)
    note ip = Inr [unfolded Some]
    show ?thesis
    proof (cases "ie_client env")
      case (Some c)
      then have "snd (device_detail env unmarshal q mac t w)
          = snd (ch_Query (ie_web env) (ie_envelope env) unmarshal c q [[(''ip'', ip)]] w)"
        by (simp add: device_detail_def ip split: prod.split sum.split)
      with sends_fixed_query [OF Some assms detail_ip_plain [OF ip]] show ?thesis by simp
    qed (simp add: device_detail_def ip)
  qed (simp add: device_detail_def Inr)
qed (simp add: device_detail_def split: prod.split)

lemma topology_sends: "sends_fixed env t w (snd (ServeTopology env hours t w))"
proof (cases "ie_client env")
  case (Some c)
  have v: "plain_value t ''hours'' (show_int (topo_hours hours))"
    by (auto simp: plain_value_def topo_hours_def split: option.splits)
  have q: "(flows_query, ''hours'') \<in> fixed_queries" by (simp add: fixed_queries_def)
  have "snd (ServeTopology env hours t w)
      = snd (ch_Query (ie_web env) (ie_envelope env) (ie_flows env) c flows_query [[(''hours'', show_int (topo_hours hours))]] w)"
    by (simp add: ServeTopology_def Some split: prod.split sum.split)
  with sends_fixed_query [OF Some q v] show ?thesis by simp
qed (simp add: ServeTopology_def)

lemma handlers_send:
  "sends_fixed env t w (snd (DeviceConnections env mac t w))" "sends_fixed env t w (snd (DeviceDNS env mac t w))"
  "sends_fixed env t w (snd (DeviceAlerts env mac t w))"
  by (simp_all add: DeviceConnections_def DeviceDNS_def DeviceAlerts_def detail_sends fixed_queries_def)

lemma mux_sends: "sends_fixed env t w (snd (snd (inv_mux env r t w)))"
  unfolding inv_mux_def Let_def case_prod_beta
  by (simp only: handlers_send topology_sends sends_fixed_same fst_conv snd_conv simp_thms split: list.split if_split)

lemma serve_sends: "sends_fixed env t w (snd (snd (inv_serve env apiKey r t w)))"
  by (simp add: inv_serve_def mux_sends)

text \<open>
  Property C17. No request puts anything of its own into a query. Whatever the table holds and whatever is asked, a request
  sends nothing to ClickHouse or one query of four fixed texts. The server reads from its URL exactly the database, that
  text, and one parameter: the valid IP address of a row of the table, or a number of hours from 1 to 168.
\<close>

theorem api_queries_fixed:
  assumes "\<And>c. ie_client env = Some c \<Longrightarrow> \<forall>x \<in> set (cc_baseURL c). x \<noteq> CHR ''?'' \<and> x \<noteq> CHR ''#''"
  shows "snd (snd (inv_serve env apiKey r t w)) = w \<or>
    (\<exists>c q k v. ie_client env = Some c \<and> (q, k) \<in> fixed_queries \<and> plain_value t k v
      \<and> snd (snd (inv_serve env apiKey r t w)) = snd (web_do (ie_web env) (query_request c q [[(k, v)]]) w)
      \<and> parse_query (url_query (hr_url (query_request c q [[(k, v)]])))
          = [(''database'', cc_database c), (''query'', q @ '' FORMAT JSON''), (''param_'' @ k, v)])"
proof -
  note serve_sends [of env t w apiKey r]
  moreover have "parse_query (url_query (hr_url (query_request c q [[(k, v)]])))
      = [(''database'', cc_database c), (''query'', q @ '' FORMAT JSON''), (''param_'' @ k, v)]" if "ie_client env = Some c" for c q k v
    using query_url_read_back [OF assms [OF that]] by (simp add: query_request_def query_params_def)
  ultimately show ?thesis unfolding sends_fixed_def by metis
qed

definition sample_env :: "string list inv_env" where
  "sample_env = \<lparr> ie_client = Some \<lparr> cc_baseURL = ''http://clickhouse:8123'', cc_database = ''netsoldier'', cc_user = ''writer'', cc_password = ''secret'' \<rparr>,
     ie_web = locked_web ''writer'' ''secret'', ie_envelope = Inr, ie_connections = (\<lambda>_. Inr []), ie_dns = (\<lambda>_. Inr []),
     ie_alerts = (\<lambda>_. Inr []), ie_flows = (\<lambda>_. Inr []) \<rparr>"

definition sample_topology :: inv_request where
  "sample_topology = \<lparr> iq_method = ''GET'', iq_path = [''topology''], iq_authorization = [], iq_hours = ''24'', iq_body = None \<rparr>"

lemma sample_topology_sends: "snd (snd (inv_serve sample_env [] sample_topology [] [])) = [[]]"
  by (simp add: inv_serve_def inv_authorized_def inv_mux_def sample_env_def sample_topology_def ServeTopology_def ch_Query_def
      locked_web_def locked_do_def query_request_def ch_auth_def split: prod.split)

lemma api_queries_fixed_witness:
  "\<exists>c q k v. ie_client sample_env = Some c \<and> (q, k) \<in> fixed_queries \<and> plain_value [] k v
      \<and> [[]] = snd (web_do (ie_web sample_env) (query_request c q [[(k, v)]]) [])
      \<and> parse_query (url_query (hr_url (query_request c q [[(k, v)]])))
          = [(''database'', cc_database c), (''query'', q @ '' FORMAT JSON''), (''param_'' @ k, v)]"
  using api_queries_fixed [of sample_env "[]" sample_topology "[]" "[]"] unfolding sample_topology_sends
  by (simp add: sample_env_def)

end
