(* ===== verification/Scanner.thy ===== *)
theory Scanner
  imports Discovery
begin

text \<open>
  The active ARP scanner as it runs (\<open>device-inventory/internal/arp/scanner.go\<close>): the choice of an interface, and a sweep as the
  frames it sends. The interfaces of the host are an argument, sending is a parameter; the pauses are left out.
\<close>

text \<open>An interface of the host; its IP networks are given by their addresses, \<open>None\<close> when they cannot be read.\<close>

record net_iface =
  ni_Name :: string
  ni_Loopback :: bool
  ni_Up :: bool
  ni_HardwareAddr :: "byte list"
  ni_Addrs :: "addr list option"

fun v4_in :: "ipnet \<Rightarrow> addr list \<Rightarrow> 32 word option" where
  "v4_in subnet [] = None"
| "v4_in subnet (a # as) =
     (case a of
        IP4 w \<Rightarrow> if ipnet_contains subnet (IP4 w) then Some w else v4_in subnet as
      | IP6 w z \<Rightarrow> v4_in subnet as)"

fun find_in :: "ipnet \<Rightarrow> net_iface list \<Rightarrow> (net_iface \<times> 32 word) option" where
  "find_in subnet [] = None"
| "find_in subnet (i # is) =
     (if ni_Loopback i \<or> \<not> ni_Up i then find_in subnet is
      else case ni_Addrs i of
          None \<Rightarrow> find_in subnet is
        | Some as \<Rightarrow> (case v4_in subnet as of Some w \<Rightarrow> Some (i, w) | None \<Rightarrow> find_in subnet is))"

definition findInterface :: "string + net_iface list \<Rightarrow> ipnet \<Rightarrow> string + net_iface \<times> 32 word" where
  "findInterface ifaces subnet =
     (case ifaces of
        Inl e \<Rightarrow> Inl e
      | Inr is \<Rightarrow> (case find_in subnet is of Some r \<Rightarrow> Inr r | None \<Rightarrow> Inl (''no interface in '' @ ipnet_string subnet)))"

record scanner =
  sc_subnet :: ipnet
  sc_iface :: net_iface
  sc_localIP :: "32 word"
  sc_interval :: duration

definition NewScanner :: "string + net_iface list \<Rightarrow> string \<Rightarrow> duration \<Rightarrow> string + scanner" where
  "NewScanner ifaces cidr interval =
     (case parse_cidr cidr of
        None \<Rightarrow> Inl (''parse CIDR: invalid CIDR address: '' @ cidr)
      | Some (subnet, _, _) \<Rightarrow>
          (case findInterface ifaces subnet of
             Inl e \<Rightarrow> Inl (''find interface: '' @ e)
           | Inr (iface, ip) \<Rightarrow> Inr \<lparr> sc_subnet = subnet, sc_iface = iface, sc_localIP = ip, sc_interval = interval \<rparr>))"

definition sendRequest :: "(byte list \<Rightarrow> 'w \<Rightarrow> string option \<times> 'w) \<Rightarrow> scanner \<Rightarrow> byte list \<Rightarrow> 'w \<Rightarrow> string option \<times> 'w" where
  "sendRequest sendto s ip w = sendto (arp_request (ni_HardwareAddr (sc_iface s)) (v4_bytes (sc_localIP s)) ip) w"

text \<open>A sweep; an address that cannot be asked is logged. \<open>None\<close> when the list of addresses never ends.\<close>

definition scanner_sweep :: "(byte list \<Rightarrow> 'w \<Rightarrow> string option \<times> 'w) \<Rightarrow> scanner \<Rightarrow> 'w \<Rightarrow> 'w option" where
  "scanner_sweep sendto s w =
     (case subnetIPs (sc_subnet s) of None \<Rightarrow> None | Some ips \<Rightarrow> Some (fold (\<lambda>ip w. snd (sendRequest sendto s ip w)) ips w))"

subsection \<open>The frame of a request\<close>

lemma arp_request_layout:
  assumes "length ifaceMAC = 6" "length localIP = 4" "length targetIP = 4"
  shows "arp_request ifaceMAC localIP targetIP =
    replicate 6 0xff @ ifaceMAC @ [8, 6, 0, 1, 8, 0, 6, 4, 0, 1] @ ifaceMAC @ localIP @ replicate 6 0 @ targetIP"
proof -
  have l6: "\<exists>a b c d e f. xs = [a, b, c, d, e, f]" if "length xs = 6" for xs :: "byte list"
    using that by (auto simp: length_Suc_conv numeral_eq_Suc)
  have l4: "\<exists>a b c d. xs = [a, b, c, d]" if "length xs = 4" for xs :: "byte list"
    using that by (auto simp: length_Suc_conv numeral_eq_Suc)
  obtain i1 i2 i3 i4 i5 i6 where i: "ifaceMAC = [i1, i2, i3, i4, i5, i6]" using l6 assms(1) by blast
  obtain p1 p2 p3 p4 where p: "localIP = [p1, p2, p3, p4]" using l4 assms(2) by blast
  obtain t1 t2 t3 t4 where t: "targetIP = [t1, t2, t3, t4]" using l4 assms(3) by blast
  have b: "be16 ethPARP = [8, 6]" "be16 1 = [0, 1]" "be16 0x0800 = [8, 0]" by (simp_all add: be16_def)
  have z: "replicate (ethHdrLen + arpHdrLen) 0 = ([0, 0, 0, 0, 0, 0, 0, 0, 0, 0, 0, 0, 0, 0, 0, 0, 0, 0, 0, 0, 0, 0, 0, 0, 0, 0, 0, 0, 0, 0, 0, 0, 0, 0, 0, 0, 0, 0, 0, 0, 0, 0] :: byte list)"
    by (simp add: numeral_eq_Suc)
  show ?thesis unfolding arp_request_def Let_def i p t b z
    by (simp add: copy_at_full numeral_eq_Suc)
qed

text \<open>The listener reads a request of the scanner as a sighting of the scanner.\<close>

lemma arp_request_heard:
  assumes "length mac = 6" "w \<noteq> 0" "length target = 4"
  shows "arp_receive (arp_request mac (v4_bytes w) target) = Some (Some \<lparr> di_MAC = mac_string mac, di_IP = v4_string w,
     di_Hostname = [], di_Meta = [], di_Protocol = ''arp'' \<rparr>)"
  using arp_receive_frame [of "replicate 6 0xff" mac "[0, 1]" mac "replicate 6 0" target w "[]"] assms
  by (simp add: arp_request_layout)

subsection \<open>The interface\<close>

lemma v4_in_Some: "v4_in subnet as = Some w \<Longrightarrow> IP4 w \<in> set as \<and> ipnet_contains subnet (IP4 w)"
  by (induction as) (auto split: addr.splits if_splits)

lemma find_in_Some:
  "find_in subnet is = Some (i, w) \<Longrightarrow>
     i \<in> set is \<and> ni_Up i \<and> \<not> ni_Loopback i \<and> (\<exists>as. ni_Addrs i = Some as \<and> IP4 w \<in> set as) \<and> ipnet_contains subnet (IP4 w)"
  by (induction "is") (auto split: if_splits option.splits dest: v4_in_Some)

lemma masked_mapped:
  assumes "96 \<le> n" "n \<le> 128"
  shows "top_bits (n - 96) (ucast (top_bits n (w :: 128 word)) :: 32 word) = ucast (top_bits n w)"
proof (rule bit_word_eqI)
  fix k
  assume "k < LENGTH(32)"
  moreover have "32 - (n - 96) = 128 - n" using assms by simp
  ultimately show "bit (top_bits (n - 96) (ucast (top_bits n w) :: 32 word)) k = bit (ucast (top_bits n w) :: 32 word) k"
    by (auto simp: top_bits_def bit_simps)
qed

lemma parse_cidr_masked:
  assumes "parse_cidr s = Some (Net4 v n, ones, siz)"
  shows "n \<le> 32 \<and> top_bits n v = v"
proof -
  obtain a m ip where am: "cut_at (CHR ''/'') s = Some (a, m)" "parse_addr a = Some ip" "read_digits m 0 \<le> addr_bits ip"
      "(case ip of IP4 w \<Rightarrow> (Net4 (top_bits (read_digits m 0) w) (read_digits m 0), read_digits m 0, 32)
        | IP6 w z \<Rightarrow> (net_norm (top_bits (read_digits m 0) w) (read_digits m 0), read_digits m 0, 128)) = (Net4 v n, ones, siz)"
    using assms by (auto simp: parse_cidr_def Let_def split: option.splits prod.splits if_splits addr.splits)
  show ?thesis
  proof (cases ip)
    case (IP4 w)
    with am show ?thesis by (auto simp: top_bits_idem)
  next
    case (IP6 w z)
    define k where "k = read_digits m 0"
    define t where "t = top_bits k w"
    from IP6 am have t: "drop_bit 32 t = 65535" "v = ucast t" "n = k - 96" "k \<le> 128"
      by (auto simp: net_norm_def k_def t_def split: if_splits)
    have "bit (drop_bit 32 t) 0" unfolding t(1) by simp
    then have "96 \<le> k" using t(4) by (auto simp: t_def top_bits_def bit_simps)
    then show ?thesis using masked_mapped [of k w] t by (simp add: t_def)
  qed
qed

text \<open>What a scanner at an IPv4 network reports of itself in every frame.\<close>

definition own_sighting :: "scanner \<Rightarrow> info" where
  "own_sighting s = \<lparr> di_MAC = mac_string (ni_HardwareAddr (sc_iface s)), di_IP = v4_string (sc_localIP s), di_Hostname = [],
     di_Meta = [], di_Protocol = ''arp'' \<rparr>"

text \<open>
  Property C20. A scan asks every host of its network once and tells who asks. A scanner that starts sits on an interface of
  the host that is up, is no loopback and has an address in the network. Its sweep of an IPv4 network of prefix length 1 to
  32 ends with one frame per host, in order, whether sending succeeds or not, and every frame is read by the inventory's own
  listener as a sighting of the scanner. The sweep of the network of prefix length 0 never ends.
\<close>

theorem scan_asks_every_host:
  assumes "NewScanner (Inr is) cidr interval = Inr s" and "sc_subnet s = Net4 v n"
    and "length (ni_HardwareAddr (sc_iface s)) = 6" and "sc_localIP s \<noteq> 0"
  shows "sc_iface s \<in> set is \<and> ni_Up (sc_iface s) \<and> \<not> ni_Loopback (sc_iface s) \<and> ipnet_contains (Net4 v n) (IP4 (sc_localIP s))
    \<and> (case scanner_sweep (\<lambda>f sent. (err f, sent @ [f])) s [] of
         None \<Rightarrow> n = 0
       | Some frames \<Rightarrow> n \<noteq> 0
         \<and> List.map (drop 38) frames = List.map (\<lambda>j. v4_bytes (v + of_nat j)) [1..<(if n = 31 then 2 else 2 ^ (32 - n) - 1)]
         \<and> (\<forall>f \<in> set frames. arp_receive f = Some (Some (own_sighting s))))"
proof (intro conjI)
  from assms(1,2) obtain ones siz where p: "parse_cidr cidr = Some (Net4 v n, ones, siz)"
      and f: "find_in (Net4 v n) is = Some (sc_iface s, sc_localIP s)"
    by (auto simp: NewScanner_def findInterface_def split: option.splits sum.splits)
  from find_in_Some [OF f] show "sc_iface s \<in> set is" "ni_Up (sc_iface s)" "\<not> ni_Loopback (sc_iface s)"
      "ipnet_contains (Net4 v n) (IP4 (sc_localIP s))" by simp_all
  let ?req = "arp_request (ni_HardwareAddr (sc_iface s)) (v4_bytes (sc_localIP s))"
  let ?ips = "List.map (\<lambda>j. v4_bytes (v + of_nat j)) [1..<(if n = 31 then 2 else 2 ^ (32 - n) - 1)]"
  have ips: "subnetIPs (Net4 v n) = (if n = 0 then None else Some ?ips)"
    using sweep_covers_subnet [of n v] parse_cidr_masked [OF p] by simp
  have "fold (\<lambda>ip sent. snd (sendRequest (\<lambda>f sent. (err f, sent @ [f])) s ip sent)) xs ys = ys @ List.map ?req xs" for xs ys
    by (induction xs arbitrary: ys) (simp_all add: sendRequest_def)
  then have frames: "scanner_sweep (\<lambda>f sent. (err f, sent @ [f])) s [] = (if n = 0 then None else Some (List.map ?req ?ips))"
    using assms(2) ips by (simp add: scanner_sweep_def)
  have "List.map (drop 38) (List.map ?req ?ips) = ?ips" using assms(3) by (simp add: arp_request_layout)
  moreover have "\<forall>f \<in> set (List.map ?req ?ips). arp_receive f = Some (Some (own_sighting s))"
    using assms(3,4) by (auto simp: arp_request_heard own_sighting_def)
  ultimately show "case scanner_sweep (\<lambda>f sent. (err f, sent @ [f])) s [] of None \<Rightarrow> n = 0
      | Some frames \<Rightarrow> n \<noteq> 0 \<and> List.map (drop 38) frames = ?ips \<and> (\<forall>f \<in> set frames. arp_receive f = Some (Some (own_sighting s)))"
    unfolding frames by (cases "n = 0") simp_all
qed

definition sample_ifaces :: "net_iface list" where
  "sample_ifaces = [\<lparr> ni_Name = ''lo'', ni_Loopback = True, ni_Up = True, ni_HardwareAddr = [], ni_Addrs = Some [IP4 0x7F000001] \<rparr>,
     \<lparr> ni_Name = ''eth0'', ni_Loopback = False, ni_Up = True, ni_HardwareAddr = [2, 0, 0, 0, 0, 9], ni_Addrs = Some [IP4 0xC0A80101] \<rparr>]"

definition sample_scanner :: scanner where
  "sample_scanner = \<lparr> sc_subnet = Net4 0xC0A80100 30, sc_iface = sample_ifaces ! 1, sc_localIP = 0xC0A80101, sc_interval = 300000000000 \<rparr>"

lemma sample_scanner_starts: "NewScanner (Inr sample_ifaces) ''192.168.1.0/30'' 300000000000 = Inr sample_scanner"
  by code_simp

theorem scan_asks_every_host_witness:
  "case scanner_sweep (\<lambda>f sent. (None, sent @ [f])) sample_scanner [] of
     None \<Rightarrow> False | Some frames \<Rightarrow> List.map (drop 38) frames = [[192, 168, 1, 1], [192, 168, 1, 2]]"
proof -
  have h: "List.map (\<lambda>j. v4_bytes (0xC0A80100 + of_nat j)) [1..<(if (30 :: nat) = 31 then 2 else 2 ^ (32 - 30) - 1)]
      = [[192, 168, 1, 1], [192, 168, 1, 2]]" by code_simp
  have s: "sc_subnet sample_scanner = Net4 0xC0A80100 30" "length (ni_HardwareAddr (sc_iface sample_scanner)) = 6" "sc_localIP sample_scanner \<noteq> 0"
    by (simp_all add: sample_scanner_def sample_ifaces_def)
  show ?thesis
    using scan_asks_every_host [OF sample_scanner_starts s, of "\<lambda>_. None"] unfolding h by (auto split: option.splits)
qed

end
