(* ===== verification/Spec2Isabelle.thy ===== *)
theory Spec2Isabelle
  imports Layer2 EndToEnd Capture Webhook EngineService FeedChain InventorySafety InventoryApi Scanner
begin

text \<open>
  A verification library for netSoldier, a network defence system of small Go services. It models the shared contract
  (\<open>src/libs/events\<close>) and the four Go services under \<open>src/apps\<close>.

  The parts and how they meet. \<open>threat-intel-sync\<close> collects indicators from public feeds and hands them out over HTTP.
  \<open>detection-engine\<close> reads them, watches the DNS log of AdGuard Home, sensor tables in ClickHouse and the traffic, and
  turns what it finds into detection events. It posts them, signed, to \<open>killswitch-controller\<close>, which decides by policy
  whether a device is blocked, at once or after approval, and drives the enforcement: a DNS rule, a switch port, or ARP
  isolation. \<open>device-inventory\<close> listens to the protocols of the local network, keeps the table of devices that
  names the clients of events, and draws the network map.

  Go's library, as far as the services use it. \<open>Prelude\<close>: signed 64-bit wrap-around, instants and durations as
  integers of nanoseconds, decimal numbers, Go maps. \<open>GoStrings\<close>: \<open>strings\<close>, \<open>strconv\<close>, lines of \<open>bufio.Scanner\<close>. \<open>GoNet\<close> and
  \<open>GoIP\<close>: MAC addresses, IP addresses and prefixes. \<open>GoHash\<close>: SHA-256 and HMAC, executable. \<open>GoFloat\<close>: \<open>float64\<close> with
  its rounding. \<open>GoHttp\<close>: requests, answers and the escaping of URLs, with its inverse. \<open>GoDuration\<close>: \<open>time.ParseDuration\<close>.

  The network outside the process is a value of a type \<open>'w\<close> that every exchange may change, and the exchange itself is a
  parameter (\<open>web\<close>). \<open>Clients\<close> holds the HTTP clients of three services: ClickHouse for the inventory, for the audit log and
  for the detection engine, and AdGuard's query log. What they send is modelled to the byte.

  The shared contract. \<open>Events\<close> (\<open>libs/events\<close>): the two records, the classes of signals, signing and verification.

  \<open>killswitch-controller\<close>. \<open>Allowlist\<close> and \<open>Policy\<close> (\<open>internal/policy\<close>), \<open>ActionStore\<close> (\<open>internal/actions/store.go\<close>), \<open>Guard\<close>,
  \<open>Sinkhole\<close>, \<open>SwitchPort\<close>, \<open>ArpFrame\<close> and \<open>ArpIsolate\<close> (\<open>internal/drivers\<close>), \<open>Controller\<close> (the handlers, the middleware,
  start-up and the TTL loop of \<open>main.go\<close>). A service state \<open>ctl\<close> is the store, the world behind the drivers and two
  counters; one request or one tick is one step. \<open>ControllerSafety\<close> states what any history of steps keeps. \<open>Enforcement\<close> and \<open>Layer2\<close> put
  the controller over the drivers it is started with, the guard they share and the loops of ARP isolation.

  \<open>detection-engine\<close>. \<open>IocMatch\<close> (\<open>internal/iocmatch\<close>), \<open>DetectEngine\<close> (\<open>internal/detection\<close>, \<open>internal/eventmap\<close>), \<open>Composite\<close> and
  \<open>CompositeTrack\<close> (\<open>internal/composite\<close>), \<open>Feedback\<close> (\<open>internal/feedback\<close>), \<open>Ingest\<close> (\<open>internal/ingest\<close>), \<open>TlsHeur\<close>
  (\<open>internal/tlsheur\<close> and the DNS cache), \<open>Flows\<close> (\<open>internal/capture/flow.go\<close>, \<open>internal/correlator\<close>), \<open>Webhook\<close>
  (\<open>internal/webhook\<close>), \<open>Pipeline\<close> (the callbacks \<open>main.go\<close> wires between them), \<open>Capture\<close> (the loop of \<open>internal/capture\<close> in
  front of the flow tracker, \<open>internal/pcapreplay\<close>, \<open>internal/threatlist\<close>), \<open>EngineService\<close> (settings, tickers, routes and
  middleware of \<open>main.go\<close>). \<open>PipelineSafety\<close> states what the policy of the killswitch may rely on in the events; \<open>EndToEnd\<close>
  puts the sender and the controller together.

  \<open>threat-intel-sync\<close>. \<open>TiStore\<close> (\<open>internal/ioc\<close>), \<open>TiSync\<close> (\<open>internal/abusech\<close>, \<open>internal/spamhaus\<close>, \<open>internal/misp\<close>, the cycle of
  \<open>main.go\<close>), \<open>TiExport\<close> (\<open>internal/export\<close>), \<open>TiService\<close> (the requests of the feeds, the environment, the loop and the routes).
  \<open>TiMirror\<close> compares its validation with that of the detection engine, \<open>FeedChain\<close> follows an indicator from a feed into
  the engine's matcher.

  \<open>device-inventory\<close>. \<open>Inventory\<close> (\<open>internal/store\<close>), \<open>Profiles\<close> (\<open>internal/oui\<close>, \<open>internal/dhcpfp\<close>), \<open>SubnetScan\<close> (the addresses of \<open>internal/arp/scanner.go\<close>),
  \<open>Scanner\<close> (its interface and the sweep as frames),
  \<open>Discovery\<close> (\<open>internal/dhcp\<close>, \<open>internal/arp/listener.go\<close>, \<open>internal/lldp\<close>), \<open>Multicast\<close> (\<open>internal/mdns\<close>, \<open>internal/ssdp\<close>),
  \<open>InventoryService\<close> (\<open>main.go\<close>, \<open>internal/api\<close>), \<open>Topology\<close> (\<open>internal/api/topology.go\<close>), \<open>InventoryApi\<close> (\<open>internal/api/device_detail.go\<close>,
  the routes and the settings). \<open>InventorySafety\<close> states what an observer of the network can and cannot do to the table.

  How code became definitions. A struct is a record, with a prefix before field names that several structs share; an
  enumeration of string constants is those constants. An operation under a mutex is a function of the state, and a run
  is any sequence of operations; the instant of a call is an argument. A Go map is an association list with distinct
  keys (the order of the list is one possible order of iteration). An error is a value: an option, or a sum with the text
  of the error on the left. Where Go would panic (an index or a slice out of range) the parsers of packets return
  \<open>None\<close>. Ports, counters and totals that can wrap are words or are wrapped explicitly.

  The interfaces are locales, each interpreted on the definitions of the model. \<open>go_map\<close> (\<open>Prelude\<close>): lookup, update, deletion
  and size of a map, on association lists. \<open>machine\<close> (\<open>Prelude\<close>): operations that keep an invariant, with what then
  holds along any run; on the store, the controller, the ARP driver, the engine, the matcher, the feedback store, the
  correlator, the pipeline, the synchronisation cycle, the device table and the event writer. \<open>protected_set\<close> (\<open>Allowlist\<close>): devices
  that are never blocked, on the policy's allowlist and on the guard of the drivers. \<open>rounding\<close> (\<open>GoFloat\<close>): a monotone rounding,
  on \<open>float64\<close>. \<open>refusing\<close> (\<open>Enforcement\<close>): drivers that refuse some targets whatever is asked of them, on those of the
  killswitch with their guard. \<open>keyed_mac\<close> (\<open>GoHash\<close>): a keyed digest of fixed length, on HMAC with SHA-256.

  The groups of lemmas: facts collected as \<open>wf_intro\<close> say that an operation keeps the invariant of its component, facts
  collected as \<open>branch\<close> give its result on one branch of the code. The properties follow from these: what the policy blocks, that
  the store is a state machine with a faithful audit trail, that a driver confirms what is called active, that protected
  devices are refused, that alerts are raised exactly once, that combined confidence is a noisy-OR, that suppression is
  scoped, that parsers neither panic nor misread, and how the services fit together. Some state behaviour that is
  surprising but real; a reader finds them by the words of the text before each.

  Termination. Nothing here runs on fuel. A loop that may not end is a \<open>partial_function\<close> into options, so that not
  returning is \<open>None\<close>: the sweep of a network (\<open>sweep\<close>), the chase of a DNS name (\<open>name_loop\<close>) and the
  pagination of MISP (\<open>fetch_pages\<close>), each with a theorem that says when it returns. \<open>fetch_all\<close> is
  that pagination over a network with a state. The readers of DHCP options and LLDP records, the terms of a duration and the search for a \<open>float64\<close> exponent have measures; every other recursion is structural.

  Not modelled: JSON encoding and decoding, the transport of HTTP and sockets, whose results are parameters; SQLite beyond
  its statements; the scheduling of goroutines beyond the order of atomic operations, and their start and shutdown; metrics,
  tracing and log lines; the decoding of captured packets, which is done by the library gopacket; the
  Python service \<open>ml-anomaly\<close>, the web interface, the detection rules and the deployment files.
\<close>

end
